(* ===== verification/Prelude.thy ===== *)
theory Prelude
  imports Main "HOL-Library.Word" "HOL-Library.Char_ord" "HOL-Library.List_Lexorder"
begin

text \<open>
  Shared vocabulary of the development: bytes and Go strings, decimal rendering, infinite
  supplies of outside answers, and tables of rows with a key, with the small lemmas that the
  component theories use.

  A Go string is a sequence of bytes, and so is an Isabelle \<^typ>\<open>string\<close> (a list of
  8-bit characters); a Go \<^verbatim>\<open>[]byte\<close> is a list of 8-bit words, and the
  conversions \<^verbatim>\<open>[]byte(s)\<close> and \<^verbatim>\<open>string(b)\<close> are
  \<open>bytes_of_string\<close> and \<open>string_of_bytes\<close>.
\<close>

type_synonym byte = "8 word"
type_synonym bytes = "byte list"
type_synonym int64 = "64 word"

named_theorems frame_simps "what an operation leaves unchanged"
named_theorems op_defs "unfolding equations of the operations of a component"

section \<open>Bytes and strings\<close>

definition bytes_of_string :: "string \<Rightarrow> bytes" where
  "bytes_of_string s = map of_char s"

definition string_of_bytes :: "bytes \<Rightarrow> string" where
  "string_of_bytes bs = map (\<lambda>b. char_of (unat b)) bs"

lemma of_char_less_256: "(of_char c :: nat) < 256"
  by (cases c) (simp add: of_char_def)

lemma unat_of_char [simp]: "unat (of_char c :: byte) = of_char c"
proof -
  have "unat (of_nat (of_char c) :: byte) = of_char c"
    using of_char_less_256 [of c] by (simp only: unat_of_nat len_num1 len_bit0) simp
  then show ?thesis by (simp only: of_nat_of_char)
qed

lemma of_char_eq_word [simp]: "(of_char c :: byte) = of_char d \<longleftrightarrow> c = d"
proof
  assume "(of_char c :: byte) = of_char d"
  then have "(of_char c :: nat) = of_char d" by (metis unat_of_char)
  then show "c = d" by simp
qed simp

lemma of_char_char_of_unat [simp]: "(of_char (char_of (unat (b :: byte))) :: byte) = b"
proof -
  have "unat b < 256" using unsigned_less [of b] by simp
  then have "unat (of_char (char_of (unat b)) :: byte) = unat b" by simp
  then show ?thesis by (rule word_unat_eq_iff [THEN iffD2])
qed

lemma string_of_bytes_of_string [simp]: "string_of_bytes (bytes_of_string s) = s"
  by (simp add: string_of_bytes_def bytes_of_string_def o_def)

lemma bytes_of_string_of_bytes [simp]: "bytes_of_string (string_of_bytes bs) = bs"
  by (simp add: string_of_bytes_def bytes_of_string_def o_def)

lemma bytes_of_string_inject [simp]: "bytes_of_string s = bytes_of_string t \<longleftrightarrow> s = t"
  by (metis string_of_bytes_of_string)

lemma bytes_of_string_append [simp]:
  "bytes_of_string (s @ t) = bytes_of_string s @ bytes_of_string t"
  by (simp add: bytes_of_string_def)

lemma length_bytes_of_string [simp]: "length (bytes_of_string s) = length s"
  by (simp add: bytes_of_string_def)

lemma of_char_eq_0 [simp]: "(of_char x :: byte) = 0 \<longleftrightarrow> x = CHR 0x00"
proof -
  have "(0 :: byte) = of_char (CHR 0x00)" by (simp add: of_char_def)
  then show ?thesis by (metis of_char_eq_word)
qed

lemma zero_in_bytes_of_string: "0 \<in> set (bytes_of_string s) \<longleftrightarrow> CHR 0x00 \<in> set s"
  by (force simp: bytes_of_string_def image_iff)

section \<open>Decimal rendering\<close>

definition digit_char :: "nat \<Rightarrow> char" where
  "digit_char d = char_of (48 + d)"

fun string_of_nat :: "nat \<Rightarrow> string" where
  "string_of_nat n =
     (if n < 10 then [digit_char n] else string_of_nat (n div 10) @ [digit_char (n mod 10)])"

declare string_of_nat.simps [simp del]

definition string_of_int :: "int \<Rightarrow> string" where
  "string_of_int i = (if i < 0 then ''-'' @ string_of_nat (nat (- i)) else string_of_nat (nat i))"

text \<open>\<^verbatim>\<open>%q\<close> of a string that needs no escapes.\<close>

definition quoted :: "string \<Rightarrow> string" where
  "quoted s = [CHR 0x22] @ s @ [CHR 0x22]"

section \<open>Supplies of outside answers\<close>

text \<open>
  What the program asks of the outside (the clock, the random generator, the database driver,
  the network) is answered from an infinite supply: the head is the next answer, and asking
  consumes it.
\<close>

definition advance :: "(nat \<Rightarrow> 'a) \<Rightarrow> nat \<Rightarrow> 'a" where
  "advance f = (\<lambda>i. f (Suc i))"

lemma advance_apply [simp]: "advance f i = f (Suc i)"
  by (simp add: advance_def)

lemma advance_const [simp]: "advance (\<lambda>i. c) = (\<lambda>i. c)"
  by (simp add: advance_def)

lemma advance_all: "(\<forall>i. P (f i)) \<Longrightarrow> (\<forall>i. P (advance f i))"
  by simp

section \<open>Tables of rows with a key\<close>

definition row_of :: "('r \<Rightarrow> 'k) \<Rightarrow> 'r list \<Rightarrow> 'k \<Rightarrow> 'r option" where
  "row_of key rows k = find (\<lambda>r. key r = k) rows"

definition unique_keys :: "('r \<Rightarrow> 'k) \<Rightarrow> 'r list \<Rightarrow> bool" where
  "unique_keys key rows \<longleftrightarrow> distinct (map key rows)"

definition update_rows :: "('r \<Rightarrow> bool) \<Rightarrow> ('r \<Rightarrow> 'r) \<Rightarrow> 'r list \<Rightarrow> 'r list" where
  "update_rows p f rows = map (\<lambda>r. if p r then f r else r) rows"

lemma row_of_Nil [simp]: "row_of key [] k = None"
  by (simp add: row_of_def)

lemma row_of_Cons [simp]: "row_of key (r # rs) k = (if key r = k then Some r else row_of key rs k)"
  by (simp add: row_of_def)

lemma row_of_append: "row_of key (rs @ qs) k =
    (case row_of key rs k of None \<Rightarrow> row_of key qs k | Some r \<Rightarrow> Some r)"
  by (induction rs) auto

lemma row_of_None_iff: "row_of key rs k = None \<longleftrightarrow> k \<notin> key ` set rs"
  by (induction rs) auto

lemma row_of_SomeD: "row_of key rs k = Some r \<Longrightarrow> key r = k \<and> r \<in> set rs"
  by (induction rs) (auto split: if_splits)

lemma row_of_Some_iff:
  "unique_keys key rs \<Longrightarrow> row_of key rs k = Some r \<longleftrightarrow> r \<in> set rs \<and> key r = k"
  by (induction rs) (auto simp: unique_keys_def dest: row_of_SomeD)

lemma unique_keys_Nil [simp]: "unique_keys key []"
  by (simp add: unique_keys_def)

lemma unique_keys_snoc [simp]:
  "unique_keys key (rs @ [r]) \<longleftrightarrow> unique_keys key rs \<and> row_of key rs (key r) = None"
  by (auto simp: unique_keys_def row_of_None_iff)

lemma unique_keys_cong_set:
  assumes "unique_keys key rs" and "unique_keys key qs" and "set rs = set qs"
  shows "row_of key rs = row_of key qs"
proof
  fix k
  show "row_of key rs k = row_of key qs k"
  proof (cases "row_of key rs k")
    case None
    then show ?thesis using assms(3) by (metis row_of_None_iff)
  next
    case (Some r)
    then have "row_of key qs k = Some r" using assms by (simp add: row_of_Some_iff)
    with Some show ?thesis by simp
  qed
qed

lemma unique_keys_sort_key [simp]: "unique_keys key (sort_key f rs) = unique_keys key rs"
  by (metis (mono_tags) distinct_map distinct_sort set_sort unique_keys_def)

lemma row_of_sort_key [simp]: "unique_keys key rs \<Longrightarrow> row_of key (sort_key f rs) = row_of key rs"
  by (rule unique_keys_cong_set) simp_all

lemma row_of_update_rows:
  assumes "\<And>r. key (f r) = key r"
  shows "row_of key (update_rows (\<lambda>r. key r = j) f rs) k =
    (if k = j then map_option f (row_of key rs k) else row_of key rs k)"
  by (induction rs) (auto simp: update_rows_def assms)

lemma map_key_update_rows:
  "(\<And>r. p r \<Longrightarrow> key (f r) = key r) \<Longrightarrow> map key (update_rows p f rs) = map key rs"
  by (induction rs) (auto simp: update_rows_def)

lemma unique_keys_update_rows [simp]:
  "(\<And>r. p r \<Longrightarrow> key (f r) = key r) \<Longrightarrow> unique_keys key (update_rows p f rs) = unique_keys key rs"
  by (simp add: unique_keys_def map_key_update_rows)

lemma row_of_filter:
  "row_of key (filter (\<lambda>r. q (key r)) rs) k = (if q k then row_of key rs k else None)"
  by (induction rs) auto

lemma unique_keys_filter [simp]: "unique_keys key rs \<Longrightarrow> unique_keys key (filter p rs)"
  by (simp add: unique_keys_def distinct_map_filter)

text \<open>A Go map filled by a loop over rows: later rows overwrite, absent keys read as zero.\<close>

lemma map_of_rows: "unique_keys key rs \<Longrightarrow>
    map_of (map (\<lambda>r. (key r, f r)) rs) k = map_option f (row_of key rs k)"
  by (induction rs) (auto simp: unique_keys_def)

section \<open>Signed 64-bit integers\<close>

lemma sint_of_int64: "- (2 ^ 63) \<le> i \<Longrightarrow> i < 2 ^ 63 \<Longrightarrow> sint (word_of_int i :: int64) = i"
  by (transfer) (simp add: signed_take_bit_int_eq_self)

lemma sint_bounds: "- (2 ^ 63) \<le> sint (w :: int64) \<and> sint w < 2 ^ 63"
  using sint_range_size [of w] by (simp add: word_size)

definition wrap64 :: "int \<Rightarrow> int" where
  "wrap64 d = (if d < - (2 ^ 63) then d + 2 ^ 64 else if d < 2 ^ 63 then d else d - 2 ^ 64)"

lemma signed_take_bit_wrap64:
  assumes "- (2 ^ 64) < d" and "d < 2 ^ 64"
  shows "signed_take_bit 63 d = wrap64 d"
proof -
  have "d < - (2 ^ 63) \<Longrightarrow> (d + 2 ^ 63) mod 2 ^ 64 = d + 2 ^ 63 + 2 ^ 64"
    using assms by (intro int_mod_pos_eq [where q = "- 1"]) simp_all
  moreover have "\<not> d < 2 ^ 63 \<Longrightarrow> (d + 2 ^ 63) mod 2 ^ 64 = d + 2 ^ 63 - 2 ^ 64"
    using assms by (intro int_mod_pos_eq [where q = 1]) simp_all
  ultimately show ?thesis
    by (simp add: signed_take_bit_eq_take_bit_shift take_bit_eq_mod wrap64_def)
qed

lemma sint_int64_diff: "sint (a - b :: int64) = wrap64 (sint a - sint b)"
  using signed_take_bit_wrap64 [of "sint a - sint b"] sint_bounds [of a] sint_bounds [of b]
  by (simp add: sint_word_diff)

end
