(* ===== verification/Go_Errors.thy ===== *)
theory Go_Errors
  imports Prelude
begin

text \<open>
  Go error values as the program builds them. \<open>Sentinel\<close> holds the package-level
  \<^verbatim>\<open>errors.New\<close> values that callers compare with \<^verbatim>\<open>errors.Is\<close>;
  \<open>InvalidCredentialFields\<close> is the one error struct, found with
  \<^verbatim>\<open>errors.As\<close>; \<open>ErrorString\<close> is any other leaf error (a driver, network or
  one-off message); \<open>Wrap p e\<close> is \<^verbatim>\<open>fmt.Errorf("p: %w", e)\<close>.
\<close>

datatype sentinel =
    ErrNotFound
  | ErrFetcherNotFound
  | ErrAuth
  | ErrProviderDisabled
  | ErrProviderUncredentialed
  | ErrInvalidKeyLength
  | ErrInvalidBlob
  | ErrDecryptionFailed

datatype goerr =
    Sentinel sentinel
  | InvalidCredentialFields "string list" "string list"
  | ErrorString string
  | Wrap string goerr

type_synonym 'a result = "goerr + 'a"

fun errors_is :: "goerr \<Rightarrow> sentinel \<Rightarrow> bool" where
  "errors_is (Sentinel x) y \<longleftrightarrow> x = y"
| "errors_is (InvalidCredentialFields ms us) y \<longleftrightarrow> False"
| "errors_is (ErrorString m) y \<longleftrightarrow> False"
| "errors_is (Wrap p e) y \<longleftrightarrow> errors_is e y"

fun errors_as_fields :: "goerr \<Rightarrow> (string list \<times> string list) option" where
  "errors_as_fields (InvalidCredentialFields ms us) = Some (ms, us)"
| "errors_as_fields (Wrap p e) = errors_as_fields e"
| "errors_as_fields (Sentinel x) = None"
| "errors_as_fields (ErrorString m) = None"

fun sentinel_text :: "sentinel \<Rightarrow> string" where
  "sentinel_text ErrNotFound = ''store: not found''"
| "sentinel_text ErrFetcherNotFound = ''provider: no Fetcher registered''"
| "sentinel_text ErrAuth = ''provider: authentication failed''"
| "sentinel_text ErrProviderDisabled = ''scheduler: provider is disabled''"
| "sentinel_text ErrProviderUncredentialed = ''scheduler: provider is missing required credentials''"
| "sentinel_text ErrInvalidKeyLength = ''secret: invalid key length''"
| "sentinel_text ErrInvalidBlob = ''secret: invalid blob''"
| "sentinel_text ErrDecryptionFailed = ''secret: decryption failed''"

definition invalid_fields_text :: string where
  "invalid_fields_text =
     ''credentials: submitted fields do not match the provider's declared credential fields''"

fun error_text :: "goerr \<Rightarrow> string" where
  "error_text (Sentinel x) = sentinel_text x"
| "error_text (InvalidCredentialFields ms us) = invalid_fields_text"
| "error_text (ErrorString m) = m"
| "error_text (Wrap p e) = p @ '': '' @ error_text e"

text \<open>
  An opaque error carries none of the program's own errors: every caller sends it to its
  last, generic branch.
\<close>

definition opaque :: "goerr \<Rightarrow> bool" where
  "opaque e \<longleftrightarrow> (\<forall>x. \<not> errors_is e x) \<and> errors_as_fields e = None"

lemma opaque_ErrorString [simp]: "opaque (ErrorString m)"
  by (simp add: opaque_def)

lemma opaque_Wrap [simp]: "opaque (Wrap p e) = opaque e"
  by (simp add: opaque_def)

lemma opaque_Sentinel [simp]: "\<not> opaque (Sentinel x)"
  by (simp add: opaque_def)

lemma opaque_not_is [dest]: "opaque e \<Longrightarrow> \<not> errors_is e x"
  by (simp add: opaque_def)

lemma errors_is_unique: "errors_is e x \<Longrightarrow> errors_is e y \<Longrightarrow> x = y"
  by (induction e) auto

lemma errors_is_as_fields: "errors_is e x \<Longrightarrow> errors_as_fields e = None"
  by (induction e) auto

end
