(* ===== verification/Go_Runtime.thy ===== *)
theory Go_Runtime
  imports Go_Errors
begin

text \<open>
  The part of the world that Go's standard library gives the program: time values, the clock,
  the random generator, the HTTP transport, the cancellation signal of a context and the
  structured log. Each source of answers is an infinite supply that the record \<open>runtime\<close>
  holds; the later components extend this record with the program's own memory and with the
  database.
\<close>

section \<open>Time\<close>

text \<open>
  A \<^verbatim>\<open>time.Time\<close> is an instant (nanoseconds since the Unix epoch) together with
  the offset of its location (seconds east of UTC); a \<^verbatim>\<open>time.Duration\<close> is a
  signed 64-bit count of nanoseconds.
\<close>

record gotime =
  instant :: int
  zone :: int

definition time_UTC :: "gotime \<Rightarrow> gotime" where
  "time_UTC t = t\<lparr>zone := 0\<rparr>"

definition time_After :: "gotime \<Rightarrow> gotime \<Rightarrow> bool" where
  "time_After t u \<longleftrightarrow> instant t > instant u"

definition time_Before :: "gotime \<Rightarrow> gotime \<Rightarrow> bool" where
  "time_Before t u \<longleftrightarrow> instant t < instant u"

definition time_Add :: "gotime \<Rightarrow> int64 \<Rightarrow> gotime" where
  "time_Add t d = t\<lparr>instant := instant t + sint d\<rparr>"

lemma time_UTC_simps [simp]:
  "instant (time_UTC t) = instant t"
  "zone (time_UTC t) = 0"
  "time_UTC (time_UTC t) = time_UTC t"
  by (simp_all add: time_UTC_def)

lemma time_UTC_id_iff: "time_UTC t = t \<longleftrightarrow> zone t = 0"
  by (cases t) (auto simp: time_UTC_def)

section \<open>The runtime\<close>

datatype log_level = Info | Warn | Error

record log_entry =
  log_lvl :: log_level
  log_msg :: string
  log_attrs :: "(string \<times> string) list"

record http_request =
  req_method :: string
  req_url :: string
  req_headers :: "(string \<times> string) list"

text \<open>The body of a response is what reading it to the end gives: bytes or a read error.\<close>

record http_response =
  resp_status :: int
  resp_body :: "string + bytes"

record runtime =
  rt_clock :: "nat \<Rightarrow> gotime"
  rt_rand :: "nat \<Rightarrow> string + (nat \<Rightarrow> byte)"
  rt_net :: "nat \<Rightarrow> http_request \<Rightarrow> string + http_response"
  rt_ctx :: "nat \<Rightarrow> bool"
  rt_log :: "log_entry list"

definition time_Now :: "'z runtime_scheme \<Rightarrow> gotime \<times> 'z runtime_scheme" where
  "time_Now s = (rt_clock s 0, s\<lparr>rt_clock := advance (rt_clock s)\<rparr>)"

definition rand_Read :: "nat \<Rightarrow> 'z runtime_scheme \<Rightarrow> bytes result \<times> 'z runtime_scheme" where
  "rand_Read n s =
     ((case rt_rand s 0 of Inl m \<Rightarrow> Inl (ErrorString m) | Inr f \<Rightarrow> Inr (map f [0..<n])),
      s\<lparr>rt_rand := advance (rt_rand s)\<rparr>)"

definition http_Do ::
    "http_request \<Rightarrow> 'z runtime_scheme \<Rightarrow> http_response result \<times> 'z runtime_scheme" where
  "http_Do req s =
     ((case rt_net s 0 req of Inl m \<Rightarrow> Inl (ErrorString m) | Inr r \<Rightarrow> Inr r),
      s\<lparr>rt_net := advance (rt_net s)\<rparr>)"

text \<open>\<^verbatim>\<open>ctx.Err() != nil\<close>: one poll of the cancellation signal.\<close>

definition ctx_Err :: "'z runtime_scheme \<Rightarrow> bool \<times> 'z runtime_scheme" where
  "ctx_Err s = (rt_ctx s 0, s\<lparr>rt_ctx := advance (rt_ctx s)\<rparr>)"

definition slog ::
    "log_level \<Rightarrow> string \<Rightarrow> (string \<times> string) list \<Rightarrow> 'z runtime_scheme \<Rightarrow> 'z runtime_scheme" where
  "slog l m as s = s\<lparr>rt_log := rt_log s @ [\<lparr>log_lvl = l, log_msg = m, log_attrs = as\<rparr>]\<rparr>"

text \<open>
  A computation on the plain runtime, run inside a larger state: it reads and writes the
  runtime fields only. This is how code behind an interface that is handed no repository
  (a \<^verbatim>\<open>Fetcher\<close>) is called.
\<close>

definition within_runtime ::
    "(runtime \<Rightarrow> 'a \<times> runtime) \<Rightarrow> 'z runtime_scheme \<Rightarrow> 'a \<times> 'z runtime_scheme" where
  "within_runtime f s =
     (case f (runtime.truncate s) of (x, rt) \<Rightarrow>
        (x, s\<lparr>rt_clock := rt_clock rt, rt_rand := rt_rand rt, rt_net := rt_net rt,
              rt_ctx := rt_ctx rt, rt_log := rt_log rt\<rparr>))"

lemma runtime_more_frame [frame_simps]:
  "runtime.more (snd (time_Now s)) = runtime.more s"
  "runtime.more (snd (rand_Read n s)) = runtime.more s"
  "runtime.more (snd (http_Do req s)) = runtime.more s"
  "runtime.more (snd (ctx_Err s)) = runtime.more s"
  "runtime.more (slog l m as s) = runtime.more s"
  "runtime.more (snd (within_runtime f s)) = runtime.more s"
  by (simp_all add: time_Now_def rand_Read_def http_Do_def ctx_Err_def slog_def
      within_runtime_def split: prod.splits)

lemma rand_Read_length: "rand_Read n s = (Inr bs, s') \<Longrightarrow> length bs = n"
  by (auto simp: rand_Read_def split: sum.splits)

lemma rand_Read_opaque: "rand_Read n s = (Inl e, s') \<Longrightarrow> opaque e"
  by (auto simp: rand_Read_def split: sum.splits)

text \<open>
  A runtime in which nothing goes wrong, for the concrete instances of the properties: the
  clock always reads the epoch in UTC, every random byte is zero, the network refuses every
  connection, and no context is cancelled.
\<close>

definition calm_runtime :: runtime where
  "calm_runtime =
     \<lparr>rt_clock = (\<lambda>i. \<lparr>instant = 0, zone = 0\<rparr>), rt_rand = (\<lambda>i. Inr (\<lambda>j. 0)),
      rt_net = (\<lambda>i req. Inl ''connection refused''), rt_ctx = (\<lambda>i. False), rt_log = []\<rparr>"

end
