(* ===== verification/Http.thy ===== *)
theory Http
  imports Go_Runtime
begin

text \<open>
  What the program uses of \<^verbatim>\<open>net/http\<close>: requests, response writers, handlers and
  the routing of \<^verbatim>\<open>ServeMux\<close> (method and path patterns, wildcards, path cleaning,
  trailing-slash redirects, and its own 404 and 405 answers).

  A handler runs over a state that extends the runtime; it returns the value it panicked with, if
  it did, the response writer and the state. A response is what the handler wrote: which of it
  the server then puts on the wire (no body for HEAD, the computed headers) is not modelled, nor
  is the \<^verbatim>\<open>Location\<close> of a redirect.
\<close>

section \<open>Requests and responses\<close>

text \<open>
  \<open>wq_path\<close> is \<^verbatim>\<open>r.URL.EscapedPath()\<close>; \<open>wq_body\<close> is what can be read of the
  body before it ends or fails; the last two fields hold the path values that the mux sets and
  the request id in the context.
\<close>

record web_request =
  wq_method :: string
  wq_path :: string
  wq_content_type :: string
  wq_body :: string
  wq_path_values :: "(string \<times> string) list"
  wq_request_id :: "string option"

type_synonym headers = "(string \<times> string) list"

text \<open>
  \<open>rw_sent\<close> is the status and the headers as they were when the status was written;
  \<open>rw_recorders\<close> are the recorders the writer is wrapped in, innermost first; \<open>rw_broken\<close>
  tells whether the connection fails.
\<close>

record response_writer =
  rw_header :: headers
  rw_sent :: "(int \<times> headers) option"
  rw_body :: string
  rw_recorders :: "int list"
  rw_broken :: bool

type_synonym 's http_handler =
  "web_request \<Rightarrow> response_writer \<Rightarrow> 's \<Rightarrow> string option \<times> response_writer \<times> 's"

definition header_Set :: "string \<Rightarrow> string \<Rightarrow> response_writer \<Rightarrow> response_writer" where
  "header_Set k v w = w\<lparr>rw_header := filter (\<lambda>(j, _). j \<noteq> k) (rw_header w) @ [(k, v)]\<rparr>"

text \<open>Only the first call has an effect on the response.\<close>

definition WriteHeader :: "int \<Rightarrow> response_writer \<Rightarrow> response_writer" where
  "WriteHeader status w =
     w\<lparr>rw_recorders := map (\<lambda>_. status) (rw_recorders w),
       rw_sent := (case rw_sent w of None \<Rightarrow> Some (status, rw_header w) | Some r \<Rightarrow> Some r)\<rparr>"

definition body_allowed :: "int \<Rightarrow> bool" where
  "body_allowed status \<longleftrightarrow> \<not> (100 \<le> status \<and> status \<le> 199) \<and> status \<noteq> 204 \<and> status \<noteq> 304"

text \<open>Whether it succeeded. An unwritten status is 200, without the recorders learning of it.\<close>

definition Write :: "string \<Rightarrow> response_writer \<Rightarrow> bool \<times> response_writer" where
  "Write text w =
     (let (status, hs) = (case rw_sent w of None \<Rightarrow> (200, rw_header w) | Some r \<Rightarrow> r);
          w1 = w\<lparr>rw_sent := Some (status, hs)\<rparr>
      in if rw_broken w \<or> \<not> body_allowed status then (False, w1)
         else (True, w1\<lparr>rw_body := rw_body w @ text\<rparr>))"

definition new_writer :: response_writer where
  "new_writer =
     \<lparr>rw_header = [], rw_sent = None, rw_body = [], rw_recorders = [], rw_broken = False\<rparr>"

definition sent_status :: "response_writer \<Rightarrow> int option" where
  "sent_status w = map_option fst (rw_sent w)"

text \<open>\<^verbatim>\<open>http.Error\<close>.\<close>

definition http_Error :: "string \<Rightarrow> int \<Rightarrow> response_writer \<Rightarrow> response_writer" where
  "http_Error msg status w =
     snd (Write (msg @ [CHR 0x0A])
       (WriteHeader status
         (header_Set ''X-Content-Type-Options'' ''nosniff''
           (header_Set ''Content-Type'' ''text/plain; charset=utf-8'' w))))"

section \<open>Paths\<close>

fun split_at :: "char \<Rightarrow> string \<Rightarrow> string list" where
  "split_at c [] = [[]]"
| "split_at c (x # s) =
     (if x = c then [] # split_at c s
      else case split_at c s of [] \<Rightarrow> [[x]] | y # ys \<Rightarrow> (x # y) # ys)"

definition rooted :: "string list \<Rightarrow> string" where
  "rooted segs = concat (map (\<lambda>s. ''/'' @ s) segs)"

text \<open>\<^verbatim>\<open>path.Clean\<close> of a rooted path, element by element.\<close>

fun clean_elems :: "string list \<Rightarrow> string list \<Rightarrow> string list" where
  "clean_elems acc [] = rev acc"
| "clean_elems acc (e # es) =
     (if e = [] \<or> e = ''.'' then clean_elems acc es
      else if e = ''..'' then clean_elems (tl acc) es
      else clean_elems (e # acc) es)"

definition cleanPath :: "string \<Rightarrow> string" where
  "cleanPath p =
     (let p = (if p = [] then ''/'' else if hd p \<noteq> CHR ''/'' then ''/'' @ p else p);
          segs = clean_elems [] (split_at (CHR ''/'') p)
      in if segs = [] then ''/''
         else if last p = CHR ''/'' then rooted segs @ ''/'' else rooted segs)"

definition nibble :: "char \<Rightarrow> nat option" where
  "nibble c =
     (let n = of_char c :: nat
      in if 48 \<le> n \<and> n \<le> 57 then Some (n - 48)
         else if 97 \<le> n \<and> n \<le> 102 then Some (n - 87)
         else if 65 \<le> n \<and> n \<le> 70 then Some (n - 55) else None)"

fun unescape :: "string \<Rightarrow> string option" where
  "unescape [] = Some []"
| "unescape (c # s) =
     (if c = CHR ''%'' then
        (case s of
           a # b # t \<Rightarrow>
             (case (nibble a, nibble b) of
                (Some h, Some l) \<Rightarrow> map_option (Cons (char_of (16 * h + l))) (unescape t)
              | _ \<Rightarrow> None)
         | _ \<Rightarrow> None)
      else map_option (Cons c) (unescape s))"

definition pathUnescape :: "string \<Rightarrow> string" where
  "pathUnescape p = (case unescape p of None \<Rightarrow> p | Some s \<Rightarrow> s)"

text \<open>The segments that routing looks at; a final slash is the segment \<open>''/''\<close>.\<close>

definition segments :: "string \<Rightarrow> string list" where
  "segments p =
     (if p = [] then []
      else let es = tl (split_at (CHR ''/'') p)
           in if last es = [] then map pathUnescape (butlast es) @ [''/'']
              else map pathUnescape es)"

definition url_path :: "web_request \<Rightarrow> string" where
  "url_path r = pathUnescape (wq_path r)"

definition PathValue :: "string \<Rightarrow> web_request \<Rightarrow> string" where
  "PathValue name r = (case map_of (wq_path_values r) name of None \<Rightarrow> [] | Some v \<Rightarrow> v)"

section \<open>The mux\<close>

datatype pattern_segment = Lit string | Wild string | Multi

record 's route =
  rt_method :: "string option"
  rt_segments :: "pattern_segment list"
  rt_handler :: "'s http_handler"

definition below :: "pattern_segment \<Rightarrow> (pattern_segment list \<times> 'a) list \<Rightarrow> (pattern_segment list \<times> 'a) list"
where
  "below seg ps = map (apfst tl) (filter (\<lambda>(q, _). q \<noteq> [] \<and> hd q = seg) ps)"

definition below_wild :: "(pattern_segment list \<times> 'a) list \<Rightarrow> (pattern_segment list \<times> 'a) list" where
  "below_wild ps =
     map (apfst tl) (filter (\<lambda>(q, _). q \<noteq> [] \<and> (case hd q of Wild _ \<Rightarrow> True | _ \<Rightarrow> False)) ps)"

definition leaf :: "pattern_segment list \<Rightarrow> (pattern_segment list \<times> 'a) list \<Rightarrow> 'a option" where
  "leaf q ps = map_option snd (find (\<lambda>(r, _). r = q) ps)"

text \<open>
  A literal segment wins over a wildcard, which wins over a final slash that matches any rest;
  each is tried with backtracking. The result holds what the wildcards matched.
\<close>

fun match_path :: "(pattern_segment list \<times> 'a) list \<Rightarrow> string list \<Rightarrow> ('a \<times> string list) option" where
  "match_path ps [] = map_option (\<lambda>a. (a, [])) (leaf [] ps)"
| "match_path ps (seg # rest) =
     (case match_path (below (Lit seg) ps) rest of
        Some m \<Rightarrow> Some m
      | None \<Rightarrow>
          (case (if seg = ''/'' then None else match_path (below_wild ps) rest) of
             Some (a, vs) \<Rightarrow> Some (a, seg # vs)
           | None \<Rightarrow> map_option (\<lambda>a. (a, [])) (leaf [Multi] ps)))"

definition routes_for :: "string option \<Rightarrow> 's route list \<Rightarrow> (pattern_segment list \<times> 's route) list" where
  "routes_for m routes = map (\<lambda>r. (rt_segments r, r)) (filter (\<lambda>r. rt_method r = m) routes)"

definition mux_match ::
    "'s route list \<Rightarrow> string \<Rightarrow> string \<Rightarrow> ('s route \<times> string list) option" where
  "mux_match routes m path =
     (case match_path (routes_for (Some m) routes) (segments path) of
        Some r \<Rightarrow> Some r
      | None \<Rightarrow>
          (case (if m = ''HEAD'' then match_path (routes_for (Some ''GET'') routes) (segments path)
                 else None) of
             Some r \<Rightarrow> Some r
           | None \<Rightarrow> match_path (routes_for None routes) (segments path)))"

definition exactMatch :: "('s route \<times> string list) option \<Rightarrow> string \<Rightarrow> bool" where
  "exactMatch found path =
     (case found of
        None \<Rightarrow> False
      | Some (r, _) \<Rightarrow>
          if rt_segments r = [] \<or> last (rt_segments r) \<noteq> Multi then True
          else path \<noteq> [] \<and> last path = CHR ''/'' \<and>
            length (rt_segments r) = length (filter (\<lambda>c. c = CHR ''/'') path))"

definition ends_in_slash :: "string \<Rightarrow> bool" where
  "ends_in_slash path \<longleftrightarrow> path \<noteq> [] \<and> last path = CHR ''/''"

text \<open>\<^verbatim>\<open>matchOrRedirect\<close>: the match, and whether a slash must be added instead.\<close>

definition matchOrRedirect ::
    "'s route list \<Rightarrow> string \<Rightarrow> string \<Rightarrow> ('s route \<times> string list) option \<times> bool" where
  "matchOrRedirect routes m path =
     (let found = mux_match routes m path
      in (found, \<not> exactMatch found path \<and> \<not> ends_in_slash path \<and>
            exactMatch (mux_match routes m (path @ ''/'')) (path @ ''/'')))"

definition matchingMethods :: "'s route list \<Rightarrow> string \<Rightarrow> string list" where
  "matchingMethods routes path =
     (let paths = (if ends_in_slash path then [path] else [path, path @ ''/'']);
          hits = (\<lambda>m. list_ex (\<lambda>p. match_path (routes_for (Some m) routes) (segments p) \<noteq> None) paths);
          ms = filter hits (map the (filter (\<lambda>m. m \<noteq> None) (map rt_method routes)))
      in sort (remdups (if ''GET'' \<in> set ms then ''HEAD'' # ms else ms)))"

datatype 's routed =
    Handle "'s route" "string list"
  | Redirect
  | MethodNotAllowed "string list"
  | NotFound

definition findHandler :: "'s route list \<Rightarrow> web_request \<Rightarrow> 's routed" where
  "findHandler routes r =
     (let connect = (wq_method r = ''CONNECT'');
          path = (if connect then wq_path r else cleanPath (wq_path r))
      in case matchOrRedirect routes (wq_method r) path of
           (found, add_slash) \<Rightarrow>
             if add_slash \<or> \<not> connect \<and> path \<noteq> wq_path r then Redirect
             else (case found of
                     Some (rt, vs) \<Rightarrow> Handle rt vs
                   | None \<Rightarrow>
                       (let ms = matchingMethods routes path
                        in if ms \<noteq> [] then MethodNotAllowed ms else NotFound)))"

fun wild_names :: "pattern_segment list \<Rightarrow> string list" where
  "wild_names [] = []"
| "wild_names (Wild n # q) = n # wild_names q"
| "wild_names (_ # q) = wild_names q"

fun joined :: "string \<Rightarrow> string list \<Rightarrow> string" where
  "joined sep [] = []"
| "joined sep [x] = x"
| "joined sep (x # y # zs) = x @ sep @ joined sep (y # zs)"

definition ServeMux :: "'s route list \<Rightarrow> 's http_handler" where
  "ServeMux routes r w s =
     (if wq_path r = ''*'' then (None, WriteHeader 400 (header_Set ''Connection'' ''close'' w), s)
      else case findHandler routes r of
        Handle rt vs \<Rightarrow>
          rt_handler rt (r\<lparr>wq_path_values := zip (wild_names (rt_segments rt)) vs\<rparr>) w s
      | Redirect \<Rightarrow> (None, WriteHeader 301 w, s)
      | MethodNotAllowed ms \<Rightarrow>
          (None, http_Error ''Method Not Allowed'' 405 (header_Set ''Allow'' (joined '', '' ms) w), s)
      | NotFound \<Rightarrow> (None, http_Error ''404 page not found'' 404 w, s))"

section \<open>Facts on paths\<close>

definition plain_segment :: "string \<Rightarrow> bool" where
  "plain_segment s \<longleftrightarrow>
     s \<noteq> [] \<and> CHR ''/'' \<notin> set s \<and> CHR ''%'' \<notin> set s \<and> s \<noteq> ''.'' \<and> s \<noteq> ''..''"

lemma split_at_plain: "c \<notin> set s \<Longrightarrow> split_at c s = [s]"
  by (induction s) auto

lemma split_at_append: "c \<notin> set s \<Longrightarrow> split_at c (s @ c # t) = s # split_at c t"
  by (induction s) auto

lemma split_at_rooted:
  "list_all plain_segment segs \<Longrightarrow> CHR ''/'' \<notin> set s \<Longrightarrow>
   split_at (CHR ''/'') (s @ rooted segs) = s # segs"
proof (induction segs arbitrary: s)
  case (Cons x segs)
  moreover have "rooted (x # segs) = CHR ''/'' # x @ rooted segs" by (simp add: rooted_def)
  ultimately show ?case by (simp add: split_at_append plain_segment_def)
qed (simp add: rooted_def split_at_plain)

lemma split_at_rooted_Nil [simp]:
  "list_all plain_segment segs \<Longrightarrow> split_at (CHR ''/'') (rooted segs) = [] # segs"
  using split_at_rooted [of segs "[]"] by simp

lemma unescape_plain: "CHR ''%'' \<notin> set s \<Longrightarrow> unescape s = Some s"
  by (induction s rule: unescape.induct) auto

lemma pathUnescape_plain [simp]: "CHR ''%'' \<notin> set s \<Longrightarrow> pathUnescape s = s"
  by (simp add: pathUnescape_def unescape_plain)

lemma clean_elems_plain: "list_all plain_segment es \<Longrightarrow> clean_elems acc es = rev acc @ es"
  by (induction es arbitrary: acc) (auto simp: plain_segment_def)

lemma rooted_Cons: "rooted (x # segs) = CHR ''/'' # x @ rooted segs"
  by (simp add: rooted_def)

lemma last_rooted:
  "list_all plain_segment segs \<Longrightarrow> segs \<noteq> [] \<Longrightarrow> last (rooted segs) \<noteq> CHR ''/''"
proof (induction segs)
  case (Cons x segs)
  show ?case
  proof (cases "segs = []")
    case True
    from Cons.prems have "x \<noteq> []" and "CHR ''/'' \<notin> set x" by (simp_all add: plain_segment_def)
    then have "last x \<noteq> CHR ''/''" by (cases x rule: rev_cases) auto
    with True \<open>x \<noteq> []\<close> show ?thesis by (simp add: rooted_def)
  next
    case False
    with Cons show ?thesis by (cases segs) (auto simp: rooted_Cons)
  qed
qed simp

lemma cleanPath_rooted:
  assumes "list_all plain_segment segs" and "segs \<noteq> []"
  shows "cleanPath (rooted segs) = rooted segs"
proof -
  have "rooted segs \<noteq> []" and "hd (rooted segs) = CHR ''/''"
    using assms(2) by (cases segs; simp add: rooted_def)+
  with assms show ?thesis
    by (simp add: cleanPath_def clean_elems_plain last_rooted)
qed

lemma map_pathUnescape_plain: "list_all plain_segment segs \<Longrightarrow> map pathUnescape segs = segs"
  by (induction segs) (auto simp: plain_segment_def)

lemma segments_rooted:
  assumes "list_all plain_segment segs" and "segs \<noteq> []"
  shows "segments (rooted segs) = segs"
proof -
  have "last segs \<noteq> []"
    using assms by (auto simp: list_all_iff plain_segment_def)
  moreover have "rooted segs \<noteq> []" using assms(2) by (cases segs) (simp_all add: rooted_def)
  ultimately show ?thesis using assms by (simp add: segments_def map_pathUnescape_plain)
qed

lemma segments_rooted_slash:
  assumes "list_all plain_segment segs" and "segs \<noteq> []"
  shows "segments (rooted segs @ ''/'') = segs @ [''/'']"
proof -
  have "split_at (CHR ''/'') (s @ rooted segs @ ''/'') = s # segs @ [[]]"
    if "CHR ''/'' \<notin> set s" and "list_all plain_segment segs" for s segs
    using that
  proof (induction segs arbitrary: s)
    case Nil
    then show ?case using split_at_append [of "CHR ''/''" s "[]"] by (simp add: rooted_def)
  next
    case (Cons x segs)
    then show ?case by (simp add: rooted_Cons split_at_append plain_segment_def)
  qed
  from this [of "[]"] assms show ?thesis
    by (simp add: segments_def map_pathUnescape_plain)
qed

lemma match_path_no_patterns [simp]: "match_path [] segs = None"
  by (induction segs) (simp_all add: below_def below_wild_def leaf_def)

section \<open>Facts on writers\<close>

lemma header_Set_simps [simp]:
  "rw_sent (header_Set k v w) = rw_sent w" "rw_body (header_Set k v w) = rw_body w"
  "rw_recorders (header_Set k v w) = rw_recorders w" "rw_broken (header_Set k v w) = rw_broken w"
  "map_of (rw_header (header_Set k v w)) k = Some v"
  "j \<noteq> k \<Longrightarrow> map_of (rw_header (header_Set k v w)) j = map_of (rw_header w) j"
proof -
  show "map_of (rw_header (header_Set k v w)) k = Some v"
    by (auto simp: header_Set_def map_add_def map_of_eq_None_iff split: option.split dest: map_of_SomeD)
  have "j \<noteq> k \<Longrightarrow> map_of (filter (\<lambda>(j, _). j \<noteq> k) hs) j = map_of hs j" for hs :: headers
    by (induction hs) auto
  then show "j \<noteq> k \<Longrightarrow> map_of (rw_header (header_Set k v w)) j = map_of (rw_header w) j"
    by (auto simp: header_Set_def map_add_def split: option.split)
qed (simp_all add: header_Set_def)

lemma WriteHeader_simps [simp]:
  "rw_header (WriteHeader n w) = rw_header w" "rw_body (WriteHeader n w) = rw_body w"
  "rw_recorders (WriteHeader n w) = map (\<lambda>_. n) (rw_recorders w)"
  "rw_broken (WriteHeader n w) = rw_broken w"
  "rw_sent w = None \<Longrightarrow> rw_sent (WriteHeader n w) = Some (n, rw_header w)"
  "rw_sent w = Some r \<Longrightarrow> rw_sent (WriteHeader n w) = Some r"
  by (simp_all add: WriteHeader_def)

lemma Write_simps [simp]:
  "rw_header (snd (Write t w)) = rw_header w"
  "rw_recorders (snd (Write t w)) = rw_recorders w" "rw_broken (snd (Write t w)) = rw_broken w"
  "rw_sent w = Some r \<Longrightarrow> rw_sent (snd (Write t w)) = Some r"
  by (auto simp: Write_def Let_def split: option.split prod.split)

end
