(* ===== verification/Mime.thy ===== *)
theory Mime
  imports Prelude
begin

text \<open>
  What the program uses of \<^verbatim>\<open>mime.ParseMediaType\<close>: the media type of a
  Content-Type value in lower case, or \<open>None\<close> for any of its errors. The parameters are
  checked as the library does, and dropped as the caller does. Letters outside ASCII are left
  as they are except for the two whose lower case is ASCII (U+0130 and U+212A); no other can be
  part of a media type that is accepted.
\<close>

section \<open>White space, case and tokens\<close>

definition space_runes :: "string list" where
  "space_runes =
     [[CHR 0x20], [CHR 0x09], [CHR 0x0A], [CHR 0x0B], [CHR 0x0C], [CHR 0x0D],
      [CHR 0xC2, CHR 0x85], [CHR 0xC2, CHR 0xA0], [CHR 0xE1, CHR 0x9A, CHR 0x80],
      [CHR 0xE2, CHR 0x80, CHR 0x80], [CHR 0xE2, CHR 0x80, CHR 0x81],
      [CHR 0xE2, CHR 0x80, CHR 0x82], [CHR 0xE2, CHR 0x80, CHR 0x83],
      [CHR 0xE2, CHR 0x80, CHR 0x84], [CHR 0xE2, CHR 0x80, CHR 0x85],
      [CHR 0xE2, CHR 0x80, CHR 0x86], [CHR 0xE2, CHR 0x80, CHR 0x87],
      [CHR 0xE2, CHR 0x80, CHR 0x88], [CHR 0xE2, CHR 0x80, CHR 0x89],
      [CHR 0xE2, CHR 0x80, CHR 0x8A], [CHR 0xE2, CHR 0x80, CHR 0xA8],
      [CHR 0xE2, CHR 0x80, CHR 0xA9], [CHR 0xE2, CHR 0x80, CHR 0xAF],
      [CHR 0xE2, CHR 0x81, CHR 0x9F], [CHR 0xE3, CHR 0x80, CHR 0x80]]"

function strip_runes :: "string list \<Rightarrow> string \<Rightarrow> string" where
  "strip_runes runes s =
     (case find (\<lambda>r. r \<noteq> [] \<and> take (length r) s = r) runes of
        None \<Rightarrow> s | Some r \<Rightarrow> strip_runes runes (drop (length r) s))"
  by pat_completeness auto
termination
proof (relation "measure (\<lambda>(runes, s). length s)")
  fix runes s r
  assume "find (\<lambda>r. r \<noteq> [] \<and> take (length r) s = r) runes = Some r"
  then have "r \<noteq> []" and "take (length r) s = r" by (auto simp: find_Some_iff)
  then have "s \<noteq> []" and "0 < length r" by auto
  then show "((runes, drop (length r) s), (runes, s)) \<in> measure (\<lambda>(runes, s). length s)" by simp
qed simp

declare strip_runes.simps [simp del]

definition trim_left :: "string \<Rightarrow> string" where
  "trim_left s = strip_runes space_runes s"

definition TrimSpace :: "string \<Rightarrow> string" where
  "TrimSpace s = rev (strip_runes (map rev space_runes) (rev (trim_left s)))"

fun ToLower :: "string \<Rightarrow> string" where
  "ToLower [] = []"
| "ToLower (c # s) =
     (if take 2 (c # s) = [CHR 0xC4, CHR 0xB0] then CHR ''i'' # ToLower (drop 1 s)
      else if take 3 (c # s) = [CHR 0xE2, CHR 0x84, CHR 0xAA] then CHR ''k'' # ToLower (drop 2 s)
      else (let n = of_char c :: nat in if 65 \<le> n \<and> n \<le> 90 then char_of (n + 32) else c) # ToLower s)"

definition isTSpecial :: "char \<Rightarrow> bool" where
  "isTSpecial c \<longleftrightarrow> c \<in> set ''()<>@,;:/[]?='' \<or> c = CHR 0x5C \<or> c = CHR 0x22"

definition isTokenChar :: "char \<Rightarrow> bool" where
  "isTokenChar c \<longleftrightarrow> (of_char c :: nat) > 32 \<and> (of_char c :: nat) < 127 \<and> \<not> isTSpecial c"

definition consumeToken :: "string \<Rightarrow> string \<times> string" where
  "consumeToken v = (takeWhile isTokenChar v, dropWhile isTokenChar v)"

section \<open>The media type\<close>

definition checkMediaTypeDisposition :: "string \<Rightarrow> bool" where
  "checkMediaTypeDisposition s =
     (case consumeToken s of
        (typ, rest) \<Rightarrow>
          if typ = [] then False
          else if rest = [] then True
          else if hd rest \<noteq> CHR ''/'' then False
          else (case consumeToken (tl rest) of (subtype, rest) \<Rightarrow> subtype \<noteq> [] \<and> rest = []))"

text \<open>The text after an opening quote: its value and what follows the closing quote.\<close>

fun consume_quoted :: "string \<Rightarrow> (string \<times> string) option" where
  "consume_quoted [] = None"
| "consume_quoted (r # t) =
     (if r = CHR 0x22 then Some ([], t)
      else if r = CHR 0x5C \<and> t \<noteq> [] \<and> isTSpecial (hd t)
      then map_option (apfst (Cons (hd t))) (consume_quoted (tl t))
      else if r = CHR 0x0D \<or> r = CHR 0x0A then None
      else map_option (apfst (Cons r)) (consume_quoted t))"

definition consumeValue :: "string \<Rightarrow> (string \<times> string) option" where
  "consumeValue v =
     (if v \<noteq> [] \<and> hd v = CHR 0x22 then consume_quoted (tl v)
      else case consumeToken v of (token, rest) \<Rightarrow> if token = [] then None else Some (token, rest))"

definition cut_prefix :: "char \<Rightarrow> string \<Rightarrow> string option" where
  "cut_prefix c v = (if v \<noteq> [] \<and> hd v = c then Some (tl v) else None)"

definition consumeMediaParam :: "string \<Rightarrow> (string \<times> string \<times> string) option" where
  "consumeMediaParam v =
     (case cut_prefix (CHR '';'') (trim_left v) of
        None \<Rightarrow> None
      | Some rest \<Rightarrow>
          (case consumeToken (trim_left rest) of
             (param, rest) \<Rightarrow>
               if param = [] then None
               else case cut_prefix (CHR ''='') (trim_left rest) of
                 None \<Rightarrow> None
               | Some rest \<Rightarrow>
                   map_option (\<lambda>(value, rest). (ToLower param, value, rest))
                     (consumeValue (trim_left rest))))"

text \<open>
  The parameter loop; \<open>seen\<close> holds the values so far (a repeated name must repeat its value).
  The length test holds whenever it is reached and makes the recursion visibly well-founded.
\<close>

function params_ok :: "(string \<Rightarrow> string option) \<Rightarrow> string \<Rightarrow> bool" where
  "params_ok seen v =
     (let v1 = trim_left v
      in if v1 = [] then True
         else case consumeMediaParam v1 of
           None \<Rightarrow> TrimSpace v1 = '';''
         | Some (key, value, rest) \<Rightarrow>
             if length rest < length v
             then (case seen key of Some old \<Rightarrow> old = value | None \<Rightarrow> True) \<and>
               params_ok (seen(key \<mapsto> value)) rest
             else False)"
  by pat_completeness auto
termination by (relation "measure (\<lambda>(seen, v). length v)") auto

declare params_ok.simps [simp del]

definition ParseMediaType :: "string \<Rightarrow> string option" where
  "ParseMediaType v =
     (let base = takeWhile (\<lambda>c. c \<noteq> CHR '';'') v;
          mediatype = TrimSpace (ToLower base)
      in if checkMediaTypeDisposition mediatype \<and> params_ok (\<lambda>_. None) (drop (length base) v)
         then Some mediatype else None)"

section \<open>The length test holds\<close>

lemma length_strip_runes: "length (strip_runes runes s) \<le> length s"
proof (induction runes s rule: strip_runes.induct)
  case (1 runes s)
  show ?case
  proof (cases "find (\<lambda>r. r \<noteq> [] \<and> take (length r) s = r) runes")
    case None
    then show ?thesis by (simp add: strip_runes.simps)
  next
    case (Some r)
    have "length (strip_runes runes (drop (length r) s)) \<le> length s"
      using 1 [OF Some] by simp
    with Some show ?thesis by (simp add: strip_runes.simps [of runes s])
  qed
qed

lemma length_trim_left: "length (trim_left s) \<le> length s"
  by (simp add: trim_left_def length_strip_runes)

lemma cut_prefix_shorter: "cut_prefix c v = Some r \<Longrightarrow> length r < length v"
  by (cases v) (auto simp: cut_prefix_def split: if_splits)

lemma consumeToken_shorter: "consumeToken v = (t, r) \<Longrightarrow> length r \<le> length v"
  by (auto simp: consumeToken_def length_dropWhile_le)

lemma consume_quoted_shorter: "consume_quoted v = Some (x, r) \<Longrightarrow> length r \<le> length v"
proof (induction v arbitrary: x r rule: consume_quoted.induct)
  case (2 c t)
  show ?case using 2
    by (fastforce split: if_splits)
qed simp

lemma consumeValue_shorter: "consumeValue v = Some (x, r) \<Longrightarrow> length r \<le> length v"
  by (cases v) (auto simp: consumeValue_def split: if_splits prod.splits
      dest: consume_quoted_shorter consumeToken_shorter)

lemma consumeMediaParam_shorter:
  assumes "consumeMediaParam v = Some (k, x, r)"
  shows "length r < length v"
proof -
  from assms obtain a p b c where a: "cut_prefix (CHR '';'') (trim_left v) = Some a"
    and p: "consumeToken (trim_left a) = (p, b)"
    and c: "cut_prefix (CHR ''='') (trim_left b) = Some c"
    and x: "consumeValue (trim_left c) = Some (x, r)"
    by (auto simp: consumeMediaParam_def split: option.splits prod.splits if_splits)
  have "length r \<le> length c"
    using consumeValue_shorter [OF x] length_trim_left [of c] by simp
  also have "\<dots> < length b" using cut_prefix_shorter [OF c] length_trim_left [of b] by simp
  also have "\<dots> \<le> length a" using consumeToken_shorter [OF p] length_trim_left [of a] by simp
  also have "\<dots> < length v" using cut_prefix_shorter [OF a] length_trim_left [of v] by simp
  finally show ?thesis .
qed

lemma params_ok_eq:
  "params_ok seen v =
     (let v1 = trim_left v
      in if v1 = [] then True
         else case consumeMediaParam v1 of
           None \<Rightarrow> TrimSpace v1 = '';''
         | Some (key, value, rest) \<Rightarrow>
             (case seen key of Some old \<Rightarrow> old = value | None \<Rightarrow> True) \<and>
             params_ok (seen(key \<mapsto> value)) rest)"
  by (subst params_ok.simps)
    (auto simp: Let_def split: option.split prod.split
      dest: consumeMediaParam_shorter intro: less_le_trans [OF _ length_trim_left])

text \<open>The usual spellings of the JSON media type are accepted, and near misses are not.\<close>

lemma json_media_types:
  "ParseMediaType ''application/json'' = Some ''application/json''"
  "ParseMediaType '' Application/JSON ; charset=utf-8;'' = Some ''application/json''"
  "ParseMediaType ''application/json; charset'' = None"
  "ParseMediaType ''application/json, text/plain'' = None"
  "ParseMediaType [] = None"
  by code_simp+

end
