(* ===== verification/Store.thy ===== *)
theory Store
  imports Go_Runtime
begin

text \<open>
  \<^verbatim>\<open>internal/store/store.go\<close>: the rows, and the repository interfaces that the
  services depend on. An interface value is a record of operations over a state \<open>'s\<close>; the
  contract that its doc comments promise is a locale over an abstract content, a well-formedness
  invariant, and \<open>rest\<close>, whatever else of the state the operations must leave alone.
\<close>

section \<open>Rows\<close>

record provider_row =
  row_id :: string
  row_enabled :: bool
  row_created_at :: gotime
  row_updated_at :: gotime

record metric =
  m_name :: string
  m_window :: string
  m_unit :: string
  m_used :: int64
  m_limit :: "int64 option"
  m_remaining :: "int64 option"
  m_reset_at :: "gotime option"

record snapshot =
  snap_provider_id :: string
  snap_metrics :: "metric list"
  snap_collected_at :: gotime
  snap_last_error :: "string option"

section \<open>Repository interfaces\<close>

record 's provider_repository =
  prov_List :: "'s \<Rightarrow> provider_row list result \<times> 's"
  prov_Get :: "string \<Rightarrow> 's \<Rightarrow> provider_row result \<times> 's"
  prov_Create :: "string \<Rightarrow> bool \<Rightarrow> 's \<Rightarrow> provider_row result \<times> 's"
  prov_SetEnabled :: "string \<Rightarrow> bool \<Rightarrow> 's \<Rightarrow> unit result \<times> 's"

text \<open>\<^verbatim>\<open>Presence\<close> returns a Go map to bool, which callers only index: absent is false.\<close>

record 's credential_repository =
  cred_Upsert :: "string \<Rightarrow> string \<Rightarrow> bytes \<Rightarrow> 's \<Rightarrow> unit result \<times> 's"
  cred_Presence :: "string \<Rightarrow> 's \<Rightarrow> (string \<Rightarrow> bool) result \<times> 's"
  cred_GetSecret :: "string \<Rightarrow> string \<Rightarrow> 's \<Rightarrow> bytes result \<times> 's"
  cred_Delete :: "string \<Rightarrow> 's \<Rightarrow> unit result \<times> 's"

record 's snapshot_repository =
  snap_Replace :: "string \<Rightarrow> metric list \<Rightarrow> gotime \<Rightarrow> 's \<Rightarrow> unit result \<times> 's"
  snap_GetSnapshot :: "string \<Rightarrow> 's \<Rightarrow> snapshot result \<times> 's"

text \<open>The handle that boot opens, serves from and closes.\<close>

record 's store =
  st_providers :: "'s provider_repository"
  st_credentials :: "'s credential_repository"
  st_snapshots :: "'s snapshot_repository"
  st_Close :: "'s \<Rightarrow> unit result \<times> 's"

section \<open>The contract of a provider repository\<close>

locale provider_repo =
  fixes repo :: "'s provider_repository"
    and wf :: "'s \<Rightarrow> bool"
    and content :: "'s \<Rightarrow> string \<Rightarrow> bool option"
    and rest :: "'s \<Rightarrow> 'r"
  assumes List_law:
    "wf s \<Longrightarrow> prov_List repo s = (rows_r, s') \<Longrightarrow>
       wf s' \<and> content s' = content s \<and> rest s' = rest s \<and>
       (case rows_r of Inl e \<Rightarrow> opaque e
        | Inr rows \<Rightarrow> unique_keys row_id rows \<and>
            content s = (\<lambda>p. map_option row_enabled (row_of row_id rows p)))"
    and Get_law:
    "wf s \<Longrightarrow> prov_Get repo p s = (row_r, s') \<Longrightarrow>
       wf s' \<and> content s' = content s \<and> rest s' = rest s \<and>
       (case row_r of Inl e \<Rightarrow> e = Sentinel ErrNotFound \<and> content s p = None \<or> opaque e
        | Inr row \<Rightarrow> row_id row = p \<and> content s p = Some (row_enabled row))"
    and Create_law:
    "wf s \<Longrightarrow> content s p = None \<Longrightarrow> prov_Create repo p b s = (new_r, s') \<Longrightarrow>
       wf s' \<and> rest s' = rest s \<and>
       (case new_r of Inl e \<Rightarrow> opaque e \<and> content s' = content s
        | Inr row \<Rightarrow> content s' = (content s)(p \<mapsto> b))"
    and SetEnabled_law:
    "wf s \<Longrightarrow> prov_SetEnabled repo p b s = (set_r, s') \<Longrightarrow>
       wf s' \<and> rest s' = rest s \<and>
       (case set_r of
          Inl e \<Rightarrow> e = Sentinel ErrNotFound \<and> content s p = None \<and> content s' = content s
            \<or> opaque e \<and> (content s' = content s
                \<or> content s p \<noteq> None \<and> content s' = (content s)(p \<mapsto> b))
        | Inr _ \<Rightarrow> content s p \<noteq> None \<and> content s' = (content s)(p \<mapsto> b))"

text \<open>A repository whose operations, from the states in \<open>healthy\<close>, never fail by accident.\<close>

locale reliable_provider_repo = provider_repo repo wf content rest
  for repo :: "'s provider_repository" and wf content and rest :: "'s \<Rightarrow> 'r" +
  fixes healthy :: "'s \<Rightarrow> bool"
  assumes List_healthy:
    "wf s \<Longrightarrow> healthy s \<Longrightarrow> \<exists>rows s'. prov_List repo s = (Inr rows, s') \<and> healthy s'"
    and Get_healthy:
    "wf s \<Longrightarrow> healthy s \<Longrightarrow> content s p \<noteq> None \<Longrightarrow>
       \<exists>row s'. prov_Get repo p s = (Inr row, s') \<and> healthy s'"
    and Get_absent:
    "wf s \<Longrightarrow> healthy s \<Longrightarrow> content s p = None \<Longrightarrow>
       \<exists>s'. prov_Get repo p s = (Inl (Sentinel ErrNotFound), s') \<and> healthy s'"
    and Create_healthy:
    "wf s \<Longrightarrow> healthy s \<Longrightarrow> content s p = None \<Longrightarrow>
       \<exists>row s'. prov_Create repo p b s = (Inr row, s') \<and> healthy s'"
    and SetEnabled_healthy:
    "wf s \<Longrightarrow> healthy s \<Longrightarrow> content s p \<noteq> None \<Longrightarrow>
       \<exists>s'. prov_SetEnabled repo p b s = (Inr (), s') \<and> healthy s'"

text \<open>A repository that a service logs beside: appending to the log disturbs nothing.\<close>

locale logged_provider_repo = provider_repo repo wf content rest
  for repo :: "'z runtime_scheme provider_repository" and wf content
    and rest :: "'z runtime_scheme \<Rightarrow> 'r" +
  assumes slog_law: "wf (slog l m as s) = wf s" "content (slog l m as s) = content s"
    "rest (slog l m as s) = rest s"

locale reliable_logged_provider_repo =
  reliable_provider_repo repo wf content rest healthy +
  logged_provider_repo repo wf content rest
  for repo :: "'z runtime_scheme provider_repository" and wf content
    and rest :: "'z runtime_scheme \<Rightarrow> 'r" and healthy +
  assumes slog_healthy: "healthy (slog l m as s) = healthy s"

section \<open>The contract of a credential repository\<close>

locale credential_repo =
  fixes repo :: "'s credential_repository"
    and wf :: "'s \<Rightarrow> bool"
    and secrets :: "'s \<Rightarrow> string \<Rightarrow> string \<Rightarrow> bytes option"
    and rest :: "'s \<Rightarrow> 'r"
  assumes Upsert_law:
    "wf s \<Longrightarrow> cred_Upsert repo p f c s = (up_r, s') \<Longrightarrow>
       wf s' \<and> rest s' = rest s \<and>
       (case up_r of Inl e \<Rightarrow> opaque e \<and> secrets s' = secrets s
        | Inr _ \<Rightarrow> secrets s' = (secrets s)(p := (secrets s p)(f \<mapsto> c)))"
    and Presence_law:
    "wf s \<Longrightarrow> cred_Presence repo p s = (pres_r, s') \<Longrightarrow>
       wf s' \<and> rest s' = rest s \<and> secrets s' = secrets s \<and>
       (case pres_r of Inl e \<Rightarrow> opaque e | Inr m \<Rightarrow> m = (\<lambda>f. secrets s p f \<noteq> None))"
    and GetSecret_law:
    "wf s \<Longrightarrow> cred_GetSecret repo p f s = (get_r, s') \<Longrightarrow>
       wf s' \<and> rest s' = rest s \<and> secrets s' = secrets s \<and>
       (case get_r of Inl e \<Rightarrow> e = Sentinel ErrNotFound \<and> secrets s p f = None \<or> opaque e
        | Inr c \<Rightarrow> secrets s p f = Some c)"
    and Delete_law:
    "wf s \<Longrightarrow> cred_Delete repo p s = (del_r, s') \<Longrightarrow>
       wf s' \<and> rest s' = rest s \<and>
       (case del_r of Inl e \<Rightarrow> opaque e \<and> secrets s' = secrets s
        | Inr _ \<Rightarrow> secrets s' = (secrets s)(p := (\<lambda>_. None)))"

locale reliable_credential_repo = credential_repo repo wf secrets rest
  for repo :: "'s credential_repository" and wf secrets and rest :: "'s \<Rightarrow> 'r" +
  fixes healthy :: "'s \<Rightarrow> bool"
  assumes Upsert_healthy:
    "wf s \<Longrightarrow> healthy s \<Longrightarrow> \<exists>s'. cred_Upsert repo p f c s = (Inr (), s') \<and> healthy s'"
    and Presence_healthy:
    "wf s \<Longrightarrow> healthy s \<Longrightarrow> \<exists>m s'. cred_Presence repo p s = (Inr m, s') \<and> healthy s'"
    and GetSecret_healthy:
    "wf s \<Longrightarrow> healthy s \<Longrightarrow> secrets s p f \<noteq> None \<Longrightarrow>
       \<exists>c s'. cred_GetSecret repo p f s = (Inr c, s') \<and> healthy s'"
    and GetSecret_absent:
    "wf s \<Longrightarrow> healthy s \<Longrightarrow> secrets s p f = None \<Longrightarrow>
       \<exists>s'. cred_GetSecret repo p f s = (Inl (Sentinel ErrNotFound), s') \<and> healthy s'"
    and Delete_healthy:
    "wf s \<Longrightarrow> healthy s \<Longrightarrow> \<exists>s'. cred_Delete repo p s = (Inr (), s') \<and> healthy s'"


section \<open>The contract of a snapshot repository\<close>

text \<open>
  What a row reads back as is a snapshot or, for a row that does not decode, an error.
  \<open>kept p ms t\<close> is what \<open>Replace\<close> leaves to be read back; for the \<open>storable\<close> metrics it is
  those metrics themselves.
\<close>

locale snapshot_repo =
  fixes repo :: "'s snapshot_repository"
    and wf :: "'s \<Rightarrow> bool"
    and latest :: "'s \<Rightarrow> string \<Rightarrow> snapshot result option"
    and rest :: "'s \<Rightarrow> 'r"
    and kept :: "string \<Rightarrow> metric list \<Rightarrow> gotime \<Rightarrow> snapshot result"
    and storable :: "metric list \<Rightarrow> bool"
  assumes Replace_law:
    "wf s \<Longrightarrow> snap_Replace repo p ms t s = (rep_r, s') \<Longrightarrow>
       wf s' \<and> rest s' = rest s \<and>
       (case rep_r of Inl e \<Rightarrow> opaque e \<and> latest s' = latest s
        | Inr _ \<Rightarrow> latest s' = (latest s)(p \<mapsto> kept p ms t))"
    and GetSnapshot_law:
    "wf s \<Longrightarrow> snap_GetSnapshot repo p s = (snap_r, s') \<Longrightarrow>
       wf s' \<and> rest s' = rest s \<and> latest s' = latest s \<and>
       (case snap_r of Inl e \<Rightarrow> e = Sentinel ErrNotFound \<and> latest s p = None \<or> opaque e
        | Inr snap \<Rightarrow> latest s p = Some (Inr snap))"
    and kept_law:
    "storable ms \<Longrightarrow> kept p ms t =
       Inr \<lparr>snap_provider_id = p, snap_metrics = ms, snap_collected_at = time_UTC t,
            snap_last_error = None\<rparr>"

locale reliable_snapshot_repo = snapshot_repo repo wf latest rest kept storable
  for repo :: "'s snapshot_repository" and wf latest and rest :: "'s \<Rightarrow> 'r" and kept storable +
  fixes healthy :: "'s \<Rightarrow> bool"
  assumes Replace_healthy:
    "wf s \<Longrightarrow> healthy s \<Longrightarrow> storable ms \<Longrightarrow>
       \<exists>s'. snap_Replace repo p ms t s = (Inr (), s') \<and> healthy s'"
    and GetSnapshot_healthy:
    "wf s \<Longrightarrow> healthy s \<Longrightarrow> latest s p = Some (Inr snap) \<Longrightarrow>
       \<exists>s'. snap_GetSnapshot repo p s = (Inr snap, s') \<and> healthy s'"
    and GetSnapshot_absent:
    "wf s \<Longrightarrow> healthy s \<Longrightarrow> latest s p = None \<Longrightarrow>
       \<exists>s'. snap_GetSnapshot repo p s = (Inl (Sentinel ErrNotFound), s') \<and> healthy s'"

section \<open>The whole store\<close>

text \<open>
  \<^verbatim>\<open>store.Store\<close>: the three repositories over one state. What one repository
  leaves alone includes the contents of the others, the network and the cancellation signal;
  \<open>rest\<close> is what none of them touches, and none of them depends on the runtime's supplies.
\<close>

locale store_repos =
  prov: logged_provider_repo prov_repo wf enabled prest +
  cred: credential_repo cred_repo wf secrets crest +
  snap: snapshot_repo snap_repo wf latest srest kept storable
  for prov_repo :: "('z runtime_scheme) provider_repository"
    and cred_repo :: "('z runtime_scheme) credential_repository"
    and snap_repo :: "('z runtime_scheme) snapshot_repository"
    and wf enabled secrets latest
    and prest :: "'z runtime_scheme \<Rightarrow> 'p" and crest :: "'z runtime_scheme \<Rightarrow> 'c"
    and srest :: "'z runtime_scheme \<Rightarrow> 'd" and kept storable +
  fixes rest :: "'z runtime_scheme \<Rightarrow> 'q"
  assumes prest_law: "prest s' = prest s \<Longrightarrow>
      secrets s' = secrets s \<and> latest s' = latest s \<and> rest s' = rest s \<and> rt_net s' = rt_net s \<and>
      rt_ctx s' = rt_ctx s"
    and crest_law: "crest s' = crest s \<Longrightarrow>
      enabled s' = enabled s \<and> latest s' = latest s \<and> rest s' = rest s \<and> rt_net s' = rt_net s \<and>
      rt_ctx s' = rt_ctx s"
    and srest_law: "srest s' = srest s \<Longrightarrow>
      enabled s' = enabled s \<and> secrets s' = secrets s \<and> rest s' = rest s \<and> rt_net s' = rt_net s \<and>
      rt_ctx s' = rt_ctx s"
    and runtime_law: "runtime.more s' = runtime.more s \<Longrightarrow>
      wf s' = wf s \<and> enabled s' = enabled s \<and> secrets s' = secrets s \<and> latest s' = latest s \<and>
      rest s' = rest s"

locale reliable_store_repos =
  store_repos prov_repo cred_repo snap_repo wf enabled secrets latest prest crest srest kept
    storable rest +
  rprov: reliable_logged_provider_repo prov_repo wf enabled prest healthy +
  rcred: reliable_credential_repo cred_repo wf secrets crest healthy +
  rsnap: reliable_snapshot_repo snap_repo wf latest srest kept storable healthy
  for prov_repo :: "('z runtime_scheme) provider_repository"
    and cred_repo :: "('z runtime_scheme) credential_repository"
    and snap_repo :: "('z runtime_scheme) snapshot_repository"
    and wf enabled secrets latest
    and prest :: "'z runtime_scheme \<Rightarrow> 'p" and crest :: "'z runtime_scheme \<Rightarrow> 'c"
    and srest :: "'z runtime_scheme \<Rightarrow> 'd" and kept storable
    and rest :: "'z runtime_scheme \<Rightarrow> 'q" and healthy +
  assumes runtime_healthy: "runtime.more s' = runtime.more s \<Longrightarrow> healthy s' = healthy s"

end
