(* ===== verification/Cooldown.thy ===== *)
theory Cooldown
  imports Go_Runtime
begin

text \<open>
  \<^verbatim>\<open>AuthCooldownRegistry\<close> of \<^verbatim>\<open>internal/scheduler/scheduler.go\<close>: the
  in-memory, per-provider authentication-failure backoff. The registry object is created once
  and shared by pointer (the scheduler gates on it, the credential service clears it), so its
  entries are a field of the process state and its two immutable settings are a value of type
  \<open>cooldown_registry\<close>. Durations are signed 64-bit nanosecond counts, and the left shift is
  the machine's.
\<close>

unbundle bit_operations_syntax

section \<open>State and operations\<close>

record cooldown_entry =
  failures :: nat
  until :: gotime

record cooldown_registry =
  base :: int64
  maxCooldown :: int64

record process = runtime +
  entries :: "string \<Rightarrow> cooldown_entry option"

definition time_Zero :: gotime where
  "time_Zero = \<lparr>instant = - 62135596800 * 10 ^ 9, zone = 0\<rparr>"

definition NewAuthCooldownRegistry :: "int64 \<Rightarrow> int64 \<Rightarrow> cooldown_registry" where
  "NewAuthCooldownRegistry b m = \<lparr>base = b, maxCooldown = m\<rparr>"

definition active :: "string \<Rightarrow> 'z process_scheme \<Rightarrow> bool \<times> 'z process_scheme" where
  "active providerID s =
     (case entries s providerID of
        None \<Rightarrow> (False, s)
      | Some e \<Rightarrow> (case time_Now s of (now, s1) \<Rightarrow> (time_Before now (until e), s1)))"

definition backoff :: "cooldown_registry \<Rightarrow> nat \<Rightarrow> int64" where
  "backoff r n =
     (let b = push_bit (n - 1) (base r)
      in if 32 < n \<or> sint b \<le> 0 \<or> sint (maxCooldown r) < sint b then maxCooldown r else b)"

definition recordFailure ::
    "cooldown_registry \<Rightarrow> string \<Rightarrow> 'z process_scheme \<Rightarrow> 'z process_scheme" where
  "recordFailure r providerID s =
     (let e = (case entries s providerID of
                 None \<Rightarrow> \<lparr>failures = 0, until = time_Zero\<rparr> | Some e \<Rightarrow> e);
          n = failures e + 1
      in case time_Now s of (now, s1) \<Rightarrow>
           s1\<lparr>entries := (entries s1)
               (providerID \<mapsto> \<lparr>failures = n, until = time_Add now (backoff r n)\<rparr>)\<rparr>)"

definition Clear :: "string \<Rightarrow> 'z process_scheme \<Rightarrow> 'z process_scheme" where
  "Clear providerID s = s\<lparr>entries := (entries s)(providerID := None)\<rparr>"

section \<open>What the operations read and write\<close>

lemma entries_runtime_update [simp]:
  "entries (s\<lparr>rt_clock := c\<rparr>) = entries s"
  "entries (s\<lparr>rt_rand := r\<rparr>) = entries s"
  "entries (s\<lparr>rt_net := n\<rparr>) = entries s"
  "entries (s\<lparr>rt_ctx := x\<rparr>) = entries s"
  "entries (s\<lparr>rt_log := l\<rparr>) = entries s"
  by simp_all

lemma active_frame [frame_simps]:
  "runtime.more (snd (active p s)) = runtime.more s"
  by (simp add: active_def time_Now_def split: option.split)

lemma active_eq:
  "active p s =
     (case entries s p of None \<Rightarrow> (False, s)
      | Some e \<Rightarrow> (instant (rt_clock s 0) < instant (until e), s\<lparr>rt_clock := advance (rt_clock s)\<rparr>))"
  by (simp add: active_def time_Now_def time_Before_def split: option.split)

lemma recordFailure_eq:
  "recordFailure r p s =
     (let n = (case entries s p of None \<Rightarrow> 1 | Some e \<Rightarrow> failures e + 1)
      in s\<lparr>rt_clock := advance (rt_clock s),
           entries := (entries s)
             (p \<mapsto> \<lparr>failures = n, until = time_Add (rt_clock s 0) (backoff r n)\<rparr>)\<rparr>)"
  by (simp add: recordFailure_def time_Now_def Let_def split: option.split)

lemma entries_recordFailure_other [simp]:
  "q \<noteq> p \<Longrightarrow> entries (recordFailure r p s) q = entries s q"
  by (simp add: recordFailure_eq Let_def)

lemma entries_Clear [simp]: "entries (Clear p s) q = (if q = p then None else entries s q)"
  by (simp add: Clear_def)

section \<open>The backoff\<close>

lemma sint_push_bit:
  fixes w :: int64
  assumes "0 < sint w" and "sint w * 2 ^ k < 2 ^ 63"
  shows "sint (push_bit k w) = sint w * 2 ^ k"
proof -
  have eq: "push_bit k w = word_of_int (sint w * 2 ^ k)"
    by (simp add: push_bit_eq_mult)
  have "0 < sint w * 2 ^ k" using assms(1) by simp
  then have "signed_take_bit 63 (sint w * 2 ^ k) = sint w * 2 ^ k"
    using assms(2) by (intro signed_take_bit_int_eq_self) linarith+
  then show ?thesis unfolding eq sint_sbintrunc' by simp
qed

text \<open>
  Whatever the settings and the number of failures, and also when the shift overflows 64
  bits, the cooldown is positive and at most the cap (for a positive cap).
\<close>
theorem backoff_bounds:
  assumes "0 < sint (maxCooldown r)"
  shows "0 < sint (backoff r n) \<and> sint (backoff r n) \<le> sint (maxCooldown r)"
  using assms by (auto simp: backoff_def Let_def)

theorem backoff_bounds_witness:
  "0 < sint (backoff \<lparr>base = 300000000000, maxCooldown = 3600000000000\<rparr> 26)"
  using backoff_bounds [of "\<lparr>base = 300000000000, maxCooldown = 3600000000000\<rparr>" 26] by simp

text \<open>
  As long as the doubling stays inside 64 bits, the n-th consecutive failure waits
  \<open>base * 2 ^ (n - 1)\<close>, capped at the maximum; from the 33rd failure on it waits the maximum.
\<close>
theorem backoff_exponential:
  assumes "0 < sint (base r)" and "0 < n" and "n \<le> 32 \<longrightarrow> sint (base r) * 2 ^ (n - 1) < 2 ^ 63"
  shows "sint (backoff r n) =
    (if n \<le> 32 then min (sint (base r) * 2 ^ (n - 1)) (sint (maxCooldown r))
     else sint (maxCooldown r))"
proof (cases "n \<le> 32")
  case True
  with assms have "sint (push_bit (n - 1) (base r)) = sint (base r) * 2 ^ (n - 1)"
    by (intro sint_push_bit) auto
  moreover have "0 < sint (base r) * 2 ^ (n - 1)" using assms(1) by simp
  ultimately show ?thesis using True by (simp add: backoff_def Let_def min_def)
next
  case False
  then show ?thesis by (simp add: backoff_def Let_def)
qed

theorem backoff_exponential_witness:
  "sint (backoff \<lparr>base = 60, maxCooldown = 3600\<rparr> 3) = 240"
  using backoff_exponential [of "\<lparr>base = 60, maxCooldown = 3600\<rparr>" 3] by simp

text \<open>
  C11: With the settings \<^verbatim>\<open>cmd/aud\<close> uses by default (poll interval 5 minutes, cap 1
  hour) no shift that overflows ever shows: the n-th consecutive failure waits exactly
  \<open>min (5 min * 2 ^ (n - 1)) (1 h)\<close>, for every n.
\<close>
theorem backoff_default_settings:
  assumes "0 < n"
  shows "sint (backoff (NewAuthCooldownRegistry 300000000000 3600000000000) n) =
    min (300000000000 * 2 ^ (n - 1)) 3600000000000"
proof -
  let ?r = "NewAuthCooldownRegistry 300000000000 3600000000000"
  have base: "sint (base ?r) = 300000000000" and cap: "sint (maxCooldown ?r) = 3600000000000"
    by (simp_all add: NewAuthCooldownRegistry_def)
  have capped: "min (300000000000 * 2 ^ (n - 1)) 3600000000000 = (3600000000000 :: int)"
    if "5 \<le> n"
  proof -
    have "(2 :: int) ^ 4 \<le> 2 ^ (n - 1)" using that by (intro power_increasing) simp_all
    then show ?thesis by simp
  qed
  consider "n \<le> 25" | "n \<in> {26, 27, 28, 29, 30, 31, 32}" | "32 < n" by fastforce
  then show ?thesis
  proof cases
    case 1
    then have "(2 :: int) ^ (n - 1) \<le> 2 ^ 24" by (intro power_increasing) simp_all
    with 1 assms show ?thesis by (subst backoff_exponential) (simp_all add: base cap)
  next
    case 2
    then have "sint (backoff ?r n) = 3600000000000"
      by (elim insertE emptyE) (simp_all add: backoff_def NewAuthCooldownRegistry_def)
    with 2 capped show ?thesis by auto
  next
    case 3
    then show ?thesis using capped by (simp add: backoff_def cap)
  qed
qed

theorem backoff_default_settings_witness:
  "sint (backoff (NewAuthCooldownRegistry 300000000000 3600000000000) 4) = 2400000000000"
  using backoff_default_settings [of 4] by simp

text \<open>
  The exponential growth is not a property of the code for every setting: the shift is not
  checked for wrap-around, so with a poll interval of 8.589934593 s and a cap of one hour the
  31st failure waits one hour and the 32nd only 2.1 s, less than one poll interval.
\<close>
theorem backoff_overflow_shrinks:
  "let r = NewAuthCooldownRegistry 8589934593 3600000000000
   in sint (backoff r 31) = 3600000000000 \<and> sint (backoff r 32) = 2147483648 \<and>
      sint (backoff r 32) < sint (base r)"
  by (simp add: backoff_def NewAuthCooldownRegistry_def)

section \<open>The gate\<close>

definition failure_count :: "'z process_scheme \<Rightarrow> string \<Rightarrow> nat" where
  "failure_count s p = (case entries s p of None \<Rightarrow> 0 | Some e \<Rightarrow> failures e)"

text \<open>
  An authentication failure of \<open>p\<close> at clock reading 0 gates exactly \<open>p\<close>, exactly until
  the backoff of its new failure count has passed at the next reading; every other provider
  is gated as before, and clearing \<open>p\<close> un-gates it at once and forgets its failures.
\<close>
theorem cooldown_gate:
  "fst (active q (recordFailure r p s)) =
     (if q = p
      then instant (rt_clock s 1) < instant (rt_clock s 0) + sint (backoff r (failure_count s p + 1))
      else (case entries s q of None \<Rightarrow> False | Some e \<Rightarrow> instant (rt_clock s 1) < instant (until e)))
   \<and> failure_count (recordFailure r p s) p = failure_count s p + 1
   \<and> active p (Clear p s) = (False, Clear p s)
   \<and> failure_count (Clear p s) p = 0
   \<and> (q \<noteq> p \<longrightarrow> entries (Clear p s) q = entries s q)"
  by (auto simp: active_eq recordFailure_eq failure_count_def time_Add_def Let_def
      split: option.splits)

theorem cooldown_gate_witness:
  "\<exists>s :: process. fst (active ''p'' (recordFailure (NewAuthCooldownRegistry 60 3600) ''p'' s)) \<and>
     \<not> fst (active ''q'' (recordFailure (NewAuthCooldownRegistry 60 3600) ''p'' s))"
proof -
  define s :: process where "s =
    \<lparr>rt_clock = rt_clock calm_runtime, rt_rand = rt_rand calm_runtime,
     rt_net = rt_net calm_runtime, rt_ctx = rt_ctx calm_runtime, rt_log = [], entries = (\<lambda>_. None)\<rparr>"
  have "sint (backoff (NewAuthCooldownRegistry 60 3600) 1) = 60"
    by (simp add: backoff_def NewAuthCooldownRegistry_def)
  with cooldown_gate [of "''p''" "NewAuthCooldownRegistry 60 3600" "''p''" s, THEN conjunct1]
    cooldown_gate [of "''q''" "NewAuthCooldownRegistry 60 3600" "''p''" s, THEN conjunct1]
  show ?thesis by (intro exI [of _ s]) (simp add: s_def failure_count_def calm_runtime_def)
qed

section \<open>The interface the credential service sees\<close>

text \<open>
  \<^verbatim>\<open>credential.CooldownClearer\<close>: whatever else a clearer does, the provider it is
  called for is no longer gated and the others are gated as before.
\<close>

locale cooldown_clearer =
  fixes clear :: "string \<Rightarrow> 's \<Rightarrow> 's" and gated :: "'s \<Rightarrow> string \<Rightarrow> bool"
  assumes clear_ungates: "\<not> gated (clear p s) p"
    and clear_others: "q \<noteq> p \<Longrightarrow> gated (clear p s) q = gated s q"
begin

lemma gated_clear: "gated (clear p s) q \<longleftrightarrow> q \<noteq> p \<and> gated s q"
  using clear_ungates clear_others by metis

end

definition gated_in :: "'z process_scheme \<Rightarrow> string \<Rightarrow> bool" where
  "gated_in s p = fst (active p s)"

interpretation auth_cooldown: cooldown_clearer Clear gated_in
  by unfold_locales (simp_all add: gated_in_def active_eq Clear_def split: option.split)

end
