(* ===== verification/Sqlite.thy ===== *)
theory Sqlite
  imports Store Cooldown
begin

text \<open>
  \<^verbatim>\<open>internal/store/sqlite\<close>: the repositories over one SQLite connection. The
  database file is three tables (the migrations under \<^verbatim>\<open>internal/store/migrations\<close>),
  held as lists of rows in insertion order; each SQL statement of the source is a table
  operation. The driver itself is outside the repository: \<open>db_faults\<close> supplies, for each
  statement, whether it fails and at which of the calls the source checks. A statement that
  fails when it is executed has no effect; a failing \<^verbatim>\<open>RowsAffected\<close> comes after it.
\<close>

section \<open>The database\<close>

record cred_row =
  cr_provider_id :: string
  cr_field :: string
  cr_ciphertext :: bytes
  cr_created_at :: gotime
  cr_updated_at :: gotime

record snap_row =
  sr_provider_id :: string
  sr_metrics :: string
  sr_collected_at :: gotime
  sr_last_error :: "string option"

datatype driver_fault =
    StmtFault string
  | ScanFault string
  | RowsFault string
  | AffectedFault string

record host = process +
  db_providers :: "provider_row list"
  db_credentials :: "cred_row list"
  db_snapshots :: "snap_row list"
  db_faults :: "nat \<Rightarrow> driver_fault option"

abbreviation cred_key :: "cred_row \<Rightarrow> string \<times> string" where
  "cred_key r \<equiv> (cr_provider_id r, cr_field r)"

text \<open>The primary keys of the three tables.\<close>

definition wf_db :: "'z host_scheme \<Rightarrow> bool" where
  "wf_db s \<longleftrightarrow> unique_keys row_id (db_providers s) \<and> unique_keys cred_key (db_credentials s) \<and>
     unique_keys sr_provider_id (db_snapshots s)"

definition db_call :: "'z host_scheme \<Rightarrow> driver_fault option \<times> 'z host_scheme" where
  "db_call s = (db_faults s 0, s\<lparr>db_faults := advance (db_faults s)\<rparr>)"

text \<open>\<^verbatim>\<open>ExecContext\<close> reports only a failing statement.\<close>

fun exec_fault :: "driver_fault option \<Rightarrow> string option" where
  "exec_fault (Some (StmtFault m)) = Some m"
| "exec_fault _ = None"

text \<open>
  \<^verbatim>\<open>QueryRowContext(...).Scan(...)\<close> reports a failing statement or row iteration, and
  a failing scan if there is a row to scan.
\<close>

fun query_row_fault :: "driver_fault option \<Rightarrow> bool \<Rightarrow> string option" where
  "query_row_fault (Some (StmtFault m)) found = Some m"
| "query_row_fault (Some (RowsFault m)) found = Some m"
| "query_row_fault (Some (ScanFault m)) found = (if found then Some m else None)"
| "query_row_fault _ found = None"

section \<open>The providers table\<close>

definition sqlite_List :: "'z host_scheme \<Rightarrow> provider_row list result \<times> 'z host_scheme" where
  "sqlite_List s =
     (case db_call s of (fault, s1) \<Rightarrow>
        (let rows = sort_key row_id (db_providers s1);
             what = ''sqlite: list providers''
         in (case fault of
               Some (StmtFault m) \<Rightarrow> Inl (Wrap what (ErrorString m))
             | Some (ScanFault m) \<Rightarrow>
                 if rows = [] then Inr rows
                 else Inl (Wrap (what @ '': scan row'') (ErrorString m))
             | Some (RowsFault m) \<Rightarrow> Inl (Wrap what (ErrorString m))
             | _ \<Rightarrow> Inr rows,
             s1)))"

definition sqlite_Get ::
    "string \<Rightarrow> 'z host_scheme \<Rightarrow> provider_row result \<times> 'z host_scheme" where
  "sqlite_Get p s =
     (case db_call s of (fault, s1) \<Rightarrow>
        (let found = row_of row_id (db_providers s1) p
         in (case query_row_fault fault (found \<noteq> None) of
               Some m \<Rightarrow> Inl (Wrap (''sqlite: get provider '' @ p) (ErrorString m))
             | None \<Rightarrow>
                 (case found of None \<Rightarrow> Inl (Sentinel ErrNotFound) | Some row \<Rightarrow> Inr row),
             s1)))"

definition unique_violation :: goerr where
  "unique_violation = ErrorString ''constraint failed: UNIQUE constraint failed: providers.id''"

definition sqlite_Create ::
    "string \<Rightarrow> bool \<Rightarrow> 'z host_scheme \<Rightarrow> provider_row result \<times> 'z host_scheme" where
  "sqlite_Create p b s =
     (case time_Now s of (t, s1) \<Rightarrow>
        let now = time_UTC t;
            what = ''sqlite: create provider '' @ p;
            row = \<lparr>row_id = p, row_enabled = b, row_created_at = now, row_updated_at = now\<rparr>
        in case db_call s1 of (fault, s2) \<Rightarrow>
          (case exec_fault fault of
             Some m \<Rightarrow> (Inl (Wrap what (ErrorString m)), s2)
           | None \<Rightarrow>
               if row_of row_id (db_providers s2) p \<noteq> None
               then (Inl (Wrap what unique_violation), s2)
               else (Inr row, s2\<lparr>db_providers := db_providers s2 @ [row]\<rparr>)))"

definition sqlite_SetEnabled ::
    "string \<Rightarrow> bool \<Rightarrow> 'z host_scheme \<Rightarrow> unit result \<times> 'z host_scheme" where
  "sqlite_SetEnabled p b s =
     (case time_Now s of (t, s1) \<Rightarrow>
        let what = ''sqlite: set enabled for '' @ p
        in case db_call s1 of (fault, s2) \<Rightarrow>
          (case exec_fault fault of
             Some m \<Rightarrow> (Inl (Wrap what (ErrorString m)), s2)
           | None \<Rightarrow>
               let n = length (filter (\<lambda>r. row_id r = p) (db_providers s2));
                   s3 = s2\<lparr>db_providers := update_rows (\<lambda>r. row_id r = p)
                             (\<lambda>r. r\<lparr>row_enabled := b, row_updated_at := time_UTC t\<rparr>)
                             (db_providers s2)\<rparr>
               in case fault of
                    Some (AffectedFault m) \<Rightarrow> (Inl (Wrap what (ErrorString m)), s3)
                  | _ \<Rightarrow> (if n = 0 then Inl (Sentinel ErrNotFound) else Inr (), s3)))"

definition sqlite_providers :: "'z host_scheme provider_repository" where
  "sqlite_providers =
     \<lparr>prov_List = sqlite_List, prov_Get = sqlite_Get, prov_Create = sqlite_Create,
      prov_SetEnabled = sqlite_SetEnabled\<rparr>"

section \<open>The credentials table\<close>

definition sqlite_Upsert ::
    "string \<Rightarrow> string \<Rightarrow> bytes \<Rightarrow> 'z host_scheme \<Rightarrow> unit result \<times> 'z host_scheme" where
  "sqlite_Upsert p f c s =
     (case time_Now s of (t, s1) \<Rightarrow>
        let now = time_UTC t
        in case db_call s1 of (fault, s2) \<Rightarrow>
          (case exec_fault fault of
             Some m \<Rightarrow>
               (Inl (Wrap (''sqlite: upsert credential '' @ p @ ''/'' @ f) (ErrorString m)), s2)
           | None \<Rightarrow>
               (Inr (),
                s2\<lparr>db_credentials :=
                  (if row_of cred_key (db_credentials s2) (p, f) = None
                   then db_credentials s2 @
                     [\<lparr>cr_provider_id = p, cr_field = f, cr_ciphertext = c,
                       cr_created_at = now, cr_updated_at = now\<rparr>]
                   else update_rows (\<lambda>r. cred_key r = (p, f))
                     (\<lambda>r. r\<lparr>cr_ciphertext := c, cr_updated_at := now\<rparr>)
                     (db_credentials s2))\<rparr>)))"

definition sqlite_Presence ::
    "string \<Rightarrow> 'z host_scheme \<Rightarrow> (string \<Rightarrow> bool) result \<times> 'z host_scheme" where
  "sqlite_Presence p s =
     (case db_call s of (fault, s1) \<Rightarrow>
        (let fields = map cr_field (filter (\<lambda>r. cr_provider_id r = p) (db_credentials s1));
             what = ''sqlite: presence '' @ p;
             presence = foldl (\<lambda>m f. m(f := True)) (\<lambda>_. False) fields
         in (case fault of
               Some (StmtFault m) \<Rightarrow> Inl (Wrap what (ErrorString m))
             | Some (ScanFault m) \<Rightarrow>
                 if fields = [] then Inr presence
                 else Inl (Wrap (what @ '': scan row'') (ErrorString m))
             | Some (RowsFault m) \<Rightarrow> Inl (Wrap what (ErrorString m))
             | _ \<Rightarrow> Inr presence,
             s1)))"

definition sqlite_GetSecret ::
    "string \<Rightarrow> string \<Rightarrow> 'z host_scheme \<Rightarrow> bytes result \<times> 'z host_scheme" where
  "sqlite_GetSecret p f s =
     (case db_call s of (fault, s1) \<Rightarrow>
        (let found = row_of cred_key (db_credentials s1) (p, f)
         in (case query_row_fault fault (found \<noteq> None) of
               Some m \<Rightarrow> Inl (Wrap (''sqlite: get secret '' @ p @ ''/'' @ f) (ErrorString m))
             | None \<Rightarrow>
                 (case found of None \<Rightarrow> Inl (Sentinel ErrNotFound)
                  | Some row \<Rightarrow> Inr (cr_ciphertext row)),
             s1)))"

definition sqlite_Delete :: "string \<Rightarrow> 'z host_scheme \<Rightarrow> unit result \<times> 'z host_scheme" where
  "sqlite_Delete p s =
     (case db_call s of (fault, s1) \<Rightarrow>
        (case exec_fault fault of
           Some m \<Rightarrow> (Inl (Wrap (''sqlite: delete credentials '' @ p) (ErrorString m)), s1)
         | None \<Rightarrow>
             (Inr (),
              s1\<lparr>db_credentials :=
                filter (\<lambda>r. cr_provider_id r \<noteq> p) (db_credentials s1)\<rparr>)))"

definition sqlite_credentials :: "'z host_scheme credential_repository" where
  "sqlite_credentials =
     \<lparr>cred_Upsert = sqlite_Upsert, cred_Presence = sqlite_Presence,
      cred_GetSecret = sqlite_GetSecret, cred_Delete = sqlite_Delete\<rparr>"

section \<open>The contracts hold\<close>

definition enabled_in :: "'z host_scheme \<Rightarrow> string \<Rightarrow> bool option" where
  "enabled_in s p = map_option row_enabled (row_of row_id (db_providers s) p)"

definition secret_in :: "'z host_scheme \<Rightarrow> string \<Rightarrow> string \<Rightarrow> bytes option" where
  "secret_in s p f = map_option cr_ciphertext (row_of cred_key (db_credentials s) (p, f))"

definition reliable_db :: "'z host_scheme \<Rightarrow> bool" where
  "reliable_db s \<longleftrightarrow> (\<forall>i. db_faults s i = None)"

text \<open>
  All that an operation on one table must leave alone: the clock and the driver move on, and
  callers append to the log and draw random bytes.
\<close>

definition outside_tables where
  "outside_tables s = (rt_net s, rt_ctx s, entries s, host.more s)"

definition providers_rest where
  "providers_rest s = (outside_tables s, db_credentials s, db_snapshots s)"

definition credentials_rest where
  "credentials_rest s = (outside_tables s, db_providers s, db_snapshots s)"

lemmas sqlite_defs =
  time_Now_def db_call_def wf_db_def enabled_in_def secret_in_def outside_tables_def
  providers_rest_def credentials_rest_def reliable_db_def Let_def

lemma exec_fault_SomeD: "exec_fault f = Some m \<Longrightarrow> f = Some (StmtFault m)"
  by (induction f rule: exec_fault.induct) auto

lemma sort_key_Nil_iff [simp]: "sort_key f rs = [] \<longleftrightarrow> rs = []"
  by (metis length_0_conv length_sort)

lemma sqlite_List_law:
  "wf_db s \<Longrightarrow> sqlite_List s = (r, s') \<Longrightarrow>
     wf_db s' \<and> enabled_in s' = enabled_in s \<and> providers_rest s' = providers_rest s \<and>
     (case r of Inl e \<Rightarrow> opaque e
      | Inr rows \<Rightarrow> unique_keys row_id rows \<and>
          enabled_in s = (\<lambda>p. map_option row_enabled (row_of row_id rows p)))"
  by (auto simp: sqlite_List_def sqlite_defs fun_eq_iff
      split: option.splits driver_fault.splits if_splits)

lemma sqlite_Get_law:
  "wf_db s \<Longrightarrow> sqlite_Get p s = (r, s') \<Longrightarrow>
     wf_db s' \<and> enabled_in s' = enabled_in s \<and> providers_rest s' = providers_rest s \<and>
     (case r of Inl e \<Rightarrow> e = Sentinel ErrNotFound \<and> enabled_in s p = None \<or> opaque e
      | Inr row \<Rightarrow> row_id row = p \<and> enabled_in s p = Some (row_enabled row))"
  by (auto simp: sqlite_Get_def sqlite_defs fun_eq_iff dest: row_of_SomeD split: option.splits)

lemma sqlite_Create_law:
  "wf_db s \<Longrightarrow> enabled_in s p = None \<Longrightarrow> sqlite_Create p b s = (r, s') \<Longrightarrow>
     wf_db s' \<and> providers_rest s' = providers_rest s \<and>
     (case r of Inl e \<Rightarrow> opaque e \<and> enabled_in s' = enabled_in s
      | Inr row \<Rightarrow> enabled_in s' = (enabled_in s)(p \<mapsto> b))"
  by (auto simp: sqlite_Create_def sqlite_defs fun_eq_iff row_of_append unique_violation_def split: option.splits if_splits)

lemma filter_row_of_None: "filter (\<lambda>r. key r = k) rs = [] \<longleftrightarrow> row_of key rs k = None"
  by (auto simp: filter_empty_conv row_of_None_iff image_iff)

lemma sqlite_SetEnabled_law:
  "wf_db s \<Longrightarrow> sqlite_SetEnabled p b s = (r, s') \<Longrightarrow>
     wf_db s' \<and> providers_rest s' = providers_rest s \<and>
     (case r of
        Inl e \<Rightarrow> e = Sentinel ErrNotFound \<and> enabled_in s p = None \<and> enabled_in s' = enabled_in s
          \<or> opaque e \<and> (enabled_in s' = enabled_in s
              \<or> enabled_in s p \<noteq> None \<and> enabled_in s' = (enabled_in s)(p \<mapsto> b))
      | Inr _ \<Rightarrow> enabled_in s p \<noteq> None \<and> enabled_in s' = (enabled_in s)(p \<mapsto> b))"
  by (cases "db_faults s 0")
    (auto simp: sqlite_SetEnabled_def sqlite_defs fun_eq_iff row_of_update_rows filter_row_of_None
      option.map_comp o_def split: if_splits option.splits driver_fault.splits)

lemma row_of_upsert:
  "row_of cred_key (update_rows (\<lambda>r. cr_provider_id r = p \<and> cr_field r = f)
       (\<lambda>r. r\<lparr>cr_ciphertext := c, cr_updated_at := t\<rparr>) rs) k =
     (if k = (p, f)
      then map_option (\<lambda>r. r\<lparr>cr_ciphertext := c, cr_updated_at := t\<rparr>) (row_of cred_key rs k)
      else row_of cred_key rs k)"
  using row_of_update_rows [where key = cred_key and j = "(p, f)"
      and f = "\<lambda>r. r\<lparr>cr_ciphertext := c, cr_updated_at := t\<rparr>"]
  by simp

lemma sqlite_Upsert_law:
  "wf_db s \<Longrightarrow> sqlite_Upsert p f c s = (r, s') \<Longrightarrow>
     wf_db s' \<and> credentials_rest s' = credentials_rest s \<and>
     (case r of Inl e \<Rightarrow> opaque e \<and> secret_in s' = secret_in s
      | Inr _ \<Rightarrow> secret_in s' = (secret_in s)(p := (secret_in s p)(f \<mapsto> c)))"
  by (auto simp: sqlite_Upsert_def sqlite_defs fun_eq_iff row_of_append row_of_upsert
      option.map_comp o_def split: option.splits if_splits)

lemma foldl_presence:
  "foldl (\<lambda>m f. m(f := True)) m0 fs = (\<lambda>f. m0 f \<or> f \<in> set fs)"
  by (induction fs arbitrary: m0) auto

lemma sqlite_Presence_law:
  "wf_db s \<Longrightarrow> sqlite_Presence p s = (r, s') \<Longrightarrow>
     wf_db s' \<and> credentials_rest s' = credentials_rest s \<and> secret_in s' = secret_in s \<and>
     (case r of Inl e \<Rightarrow> opaque e | Inr m \<Rightarrow> m = (\<lambda>f. secret_in s p f \<noteq> None))"
  by (auto simp: sqlite_Presence_def sqlite_defs fun_eq_iff foldl_presence row_of_None_iff image_iff
      filter_empty_conv
      split: option.splits driver_fault.splits if_splits)

lemma sqlite_GetSecret_law:
  "wf_db s \<Longrightarrow> sqlite_GetSecret p f s = (r, s') \<Longrightarrow>
     wf_db s' \<and> credentials_rest s' = credentials_rest s \<and> secret_in s' = secret_in s \<and>
     (case r of Inl e \<Rightarrow> e = Sentinel ErrNotFound \<and> secret_in s p f = None \<or> opaque e
      | Inr c \<Rightarrow> secret_in s p f = Some c)"
  by (auto simp: sqlite_GetSecret_def sqlite_defs fun_eq_iff split: option.splits)

lemma sqlite_Delete_law:
  "wf_db s \<Longrightarrow> sqlite_Delete p s = (r, s') \<Longrightarrow>
     wf_db s' \<and> credentials_rest s' = credentials_rest s \<and>
     (case r of Inl e \<Rightarrow> opaque e \<and> secret_in s' = secret_in s
      | Inr _ \<Rightarrow> secret_in s' = (secret_in s)(p := (\<lambda>_. None)))"
  using row_of_filter [where key = cred_key and q = "\<lambda>k. fst k \<noteq> p"]
  by (auto simp: sqlite_Delete_def sqlite_defs fun_eq_iff split: option.splits)

lemma sqlite_reliable:
  assumes "reliable_db s"
  shows "\<exists>rows s'. sqlite_List s = (Inr rows, s') \<and> reliable_db s'"
    and "enabled_in s p \<noteq> None \<Longrightarrow> \<exists>row s'. sqlite_Get p s = (Inr row, s') \<and> reliable_db s'"
    and "enabled_in s p = None \<Longrightarrow>
      \<exists>s'. sqlite_Get p s = (Inl (Sentinel ErrNotFound), s') \<and> reliable_db s'"
    and "enabled_in s p = None \<Longrightarrow> \<exists>row s'. sqlite_Create p b s = (Inr row, s') \<and> reliable_db s'"
    and "enabled_in s p \<noteq> None \<Longrightarrow> \<exists>s'. sqlite_SetEnabled p b s = (Inr (), s') \<and> reliable_db s'"
  using assms
  by (auto simp: sqlite_List_def sqlite_Get_def sqlite_Create_def sqlite_SetEnabled_def sqlite_defs
      filter_row_of_None)

lemma sqlite_rand [simp]:
  "wf_db (s\<lparr>rt_rand := f\<rparr>) = wf_db s"
  "reliable_db (s\<lparr>rt_rand := f\<rparr>) = reliable_db s"
  "secret_in (s\<lparr>rt_rand := f\<rparr>) = secret_in s"
  "credentials_rest (s\<lparr>rt_rand := f\<rparr>) = credentials_rest s"
  by (simp_all add: sqlite_defs fun_eq_iff)

lemma sqlite_Clear [simp]:
  "wf_db (Clear p s) = wf_db s"
  "reliable_db (Clear p s) = reliable_db s"
  "secret_in (Clear p s) = secret_in s"
  by (simp_all add: Clear_def sqlite_defs fun_eq_iff)

lemma sqlite_slog [simp]:
  "wf_db (slog l m as s) = wf_db s"
  "enabled_in (slog l m as s) = enabled_in s"
  "secret_in (slog l m as s) = secret_in s"
  "providers_rest (slog l m as s) = providers_rest s"
  "credentials_rest (slog l m as s) = credentials_rest s"
  "reliable_db (slog l m as s) = reliable_db s"
  by (simp_all add: slog_def sqlite_defs fun_eq_iff)

interpretation sqlite_prov: reliable_logged_provider_repo
  sqlite_providers wf_db enabled_in providers_rest reliable_db
proof (unfold_locales, unfold sqlite_providers_def provider_repository.select_convs)
qed (rule sqlite_List_law sqlite_Get_law sqlite_Create_law sqlite_SetEnabled_law sqlite_reliable
      sqlite_slog, (assumption+)?)+

lemma sqlite_cred_reliable:
  assumes "reliable_db s"
  shows "\<exists>s'. sqlite_Upsert p f c s = (Inr (), s') \<and> reliable_db s'"
    and "\<exists>m s'. sqlite_Presence p s = (Inr m, s') \<and> reliable_db s'"
    and "secret_in s p f \<noteq> None \<Longrightarrow> \<exists>c s'. sqlite_GetSecret p f s = (Inr c, s') \<and> reliable_db s'"
    and "secret_in s p f = None \<Longrightarrow>
      \<exists>s'. sqlite_GetSecret p f s = (Inl (Sentinel ErrNotFound), s') \<and> reliable_db s'"
    and "\<exists>s'. sqlite_Delete p s = (Inr (), s') \<and> reliable_db s'"
  using assms
  by (auto simp: sqlite_Upsert_def sqlite_Presence_def sqlite_GetSecret_def sqlite_Delete_def
      sqlite_defs)

interpretation sqlite_cred: reliable_credential_repo
  sqlite_credentials wf_db secret_in credentials_rest reliable_db
proof (unfold_locales, unfold sqlite_credentials_def credential_repository.select_convs)
qed (rule sqlite_Upsert_law sqlite_Presence_law sqlite_GetSecret_law sqlite_Delete_law
      sqlite_cred_reliable, assumption+)+

text \<open>A freshly migrated database on a calm runtime, for the concrete instances.\<close>

definition empty_host :: host where
  "empty_host =
     \<lparr>rt_clock = rt_clock calm_runtime, rt_rand = rt_rand calm_runtime,
      rt_net = rt_net calm_runtime, rt_ctx = rt_ctx calm_runtime, rt_log = [],
      entries = (\<lambda>_. None), db_providers = [], db_credentials = [], db_snapshots = [],
      db_faults = (\<lambda>_. None)\<rparr>"

lemma empty_host_simps [simp]:
  "wf_db empty_host" "reliable_db empty_host"
  "enabled_in empty_host = (\<lambda>_. None)" "secret_in empty_host = (\<lambda>_ _. None)"
  by (simp_all add: empty_host_def wf_db_def reliable_db_def enabled_in_def secret_in_def fun_eq_iff)

end
