(* ===== verification/Provider.thy ===== *)
theory Provider
  imports Sqlite
begin

text \<open>
  \<^verbatim>\<open>internal/provider\<close>: the compiled-in catalog of providers, the runtime registry
  of fetchers, and the service that merges both with the persisted enabled state. The service
  is a value holding its repository (an interface value) and its fetcher registry; a Go panic is
  the left side of \<open>or_panic\<close>. A fetcher is behind an interface that is handed credentials
  and nothing else of the program, so it runs on the plain \<open>runtime\<close>.
\<close>

section \<open>The catalog\<close>

record credential_field =
  cf_name :: string
  cf_label :: string
  cf_secret :: bool

record metadata =
  md_id :: string
  md_name :: string
  md_fields :: "credential_field list"

text \<open>\<^verbatim>\<open>Provider\<close> embeds \<^verbatim>\<open>Metadata\<close>.\<close>

record provider = metadata +
  p_enabled :: bool
  p_live :: bool

definition with_state :: "metadata \<Rightarrow> bool \<Rightarrow> bool \<Rightarrow> provider" where
  "with_state m enabled live =
     \<lparr>md_id = md_id m, md_name = md_name m, md_fields = md_fields m,
      p_enabled = enabled, p_live = live\<rparr>"

definition Registry :: "metadata list" where
  "Registry =
     [\<lparr>md_id = ''openai'', md_name = ''OpenAI'',
       md_fields = [\<lparr>cf_name = ''api_key'', cf_label = ''API Key'', cf_secret = True\<rparr>]\<rparr>,
      \<lparr>md_id = ''anthropic'', md_name = ''Anthropic'',
       md_fields = [\<lparr>cf_name = ''api_key'', cf_label = ''API Key'', cf_secret = True\<rparr>]\<rparr>,
      \<lparr>md_id = ''minimax'', md_name = ''Minimax'',
       md_fields = [\<lparr>cf_name = ''subscription_key'', cf_label = ''Subscription Key'',
                     cf_secret = True\<rparr>]\<rparr>]"

section \<open>Fetchers\<close>

record usage_metric =
  um_name :: string
  um_window :: string
  um_unit :: string
  um_used :: int64
  um_limit :: "int64 option"
  um_remaining :: "int64 option"
  um_reset_at :: "gotime option"

type_synonym creds = "string \<Rightarrow> string option"

record fetcher =
  ft_Metadata :: metadata
  ft_FetchUsage :: "creds \<Rightarrow> runtime \<Rightarrow> usage_metric list result \<times> runtime"

type_synonym 'a or_panic = "string + 'a"

text \<open>A Go map to an interface: the inner option is the nil interface value.\<close>

type_synonym runtime_registry = "string \<Rightarrow> fetcher option option"

definition newRuntimeRegistry :: runtime_registry where
  "newRuntimeRegistry = (\<lambda>_. None)"

definition register ::
    "string \<Rightarrow> fetcher option \<Rightarrow> runtime_registry \<Rightarrow> runtime_registry or_panic" where
  "register i f reg =
     (if reg i \<noteq> None then Inl (''provider: Fetcher already registered for id '' @ quoted i)
      else Inr (reg(i \<mapsto> f)))"

definition lookup :: "string \<Rightarrow> runtime_registry \<Rightarrow> fetcher result" where
  "lookup i reg =
     (case reg i of
        Some (Some f) \<Rightarrow> Inr f
      | _ \<Rightarrow> Inl (Sentinel ErrFetcherNotFound))"

definition has :: "string \<Rightarrow> runtime_registry \<Rightarrow> bool" where
  "has i reg = (case reg i of Some (Some f) \<Rightarrow> True | _ \<Rightarrow> False)"

section \<open>The service\<close>

record 's provider_service =
  svc_registry :: "metadata list"
  svc_repo :: "'s provider_repository"
  svc_fetchers :: runtime_registry

definition NewService :: "'s provider_repository \<Rightarrow> metadata list \<Rightarrow> 's provider_service" where
  "NewService repo registry =
     \<lparr>svc_registry = registry, svc_repo = repo, svc_fetchers = newRuntimeRegistry\<rparr>"

definition service_metadata :: "'s provider_service \<Rightarrow> string \<Rightarrow> metadata option" where
  "service_metadata svc i = find (\<lambda>m. md_id m = i) (svc_registry svc)"

definition HasFetcher :: "'s provider_service \<Rightarrow> string \<Rightarrow> bool" where
  "HasFetcher svc i = has i (svc_fetchers svc)"

definition RegisterFetcher :: "fetcher \<Rightarrow> 's provider_service \<Rightarrow> 's provider_service or_panic" where
  "RegisterFetcher f svc =
     (let i = md_id (ft_Metadata f)
      in case service_metadata svc i of
           None \<Rightarrow> Inl (''provider: RegisterFetcher: id '' @ quoted i
                          @ '' is not present in the metadata registry'')
         | Some _ \<Rightarrow>
             (case register i (Some f) (svc_fetchers svc) of
                Inl msg \<Rightarrow> Inl msg
              | Inr reg \<Rightarrow> Inr (svc\<lparr>svc_fetchers := reg\<rparr>)))"

definition service_List :: "'s provider_service \<Rightarrow> 's \<Rightarrow> provider list result \<times> 's" where
  "service_List svc s =
     (case prov_List (svc_repo svc) s of
        (Inl e, s1) \<Rightarrow> (Inl (Wrap ''provider: list'' e), s1)
      | (Inr rows, s1) \<Rightarrow>
          let enabled = foldl (\<lambda>m row. m(row_id row := row_enabled row)) (\<lambda>_. False) rows
          in (Inr (map (\<lambda>m. with_state m (enabled (md_id m)) (HasFetcher svc (md_id m)))
                     (svc_registry svc)), s1))"

definition service_Get :: "'s provider_service \<Rightarrow> string \<Rightarrow> 's \<Rightarrow> provider result \<times> 's" where
  "service_Get svc i s =
     (case service_metadata svc i of
        None \<Rightarrow> (Inl (Sentinel ErrNotFound), s)
      | Some m \<Rightarrow>
          (case prov_Get (svc_repo svc) i s of
             (Inl e, s1) \<Rightarrow> (Inl e, s1)
           | (Inr row, s1) \<Rightarrow> (Inr (with_state m (row_enabled row) (HasFetcher svc i)), s1)))"

definition service_SetEnabled ::
    "'s provider_service \<Rightarrow> string \<Rightarrow> bool \<Rightarrow> 's \<Rightarrow> provider result \<times> 's" where
  "service_SetEnabled svc i enabled s =
     (case service_metadata svc i of
        None \<Rightarrow> (Inl (Sentinel ErrNotFound), s)
      | Some m \<Rightarrow>
          (case prov_SetEnabled (svc_repo svc) i enabled s of
             (Inl e, s1) \<Rightarrow> (Inl e, s1)
           | (Inr _, s1) \<Rightarrow> (Inr (with_state m enabled (HasFetcher svc i)), s1)))"

fun reconcile_create ::
    "'s provider_repository \<Rightarrow> (string \<Rightarrow> bool) \<Rightarrow> metadata list \<Rightarrow> 's \<Rightarrow> unit result \<times> 's" where
  "reconcile_create repo have_row [] s = (Inr (), s)"
| "reconcile_create repo have_row (m # ms) s =
     (if have_row (md_id m) then reconcile_create repo have_row ms s
      else case prov_Create repo (md_id m) False s of
        (Inl e, s1) \<Rightarrow> (Inl (Wrap (''provider: reconcile: create '' @ md_id m) e), s1)
      | (Inr _, s1) \<Rightarrow> reconcile_create repo have_row ms s1)"

fun reconcile_warn :: "(string \<Rightarrow> bool) \<Rightarrow> provider_row list \<Rightarrow> 'z runtime_scheme \<Rightarrow> 'z runtime_scheme"
where
  "reconcile_warn known [] s = s"
| "reconcile_warn known (row # rows) s =
     reconcile_warn known rows
       (if known (row_id row) then s
        else slog Warn
          ''provider: persisted row has no matching registry entry, leaving it in place''
          [(''id'', row_id row)] s)"

definition Reconcile ::
    "('z runtime_scheme) provider_service \<Rightarrow> 'z runtime_scheme \<Rightarrow> unit result \<times> 'z runtime_scheme"
where
  "Reconcile svc s =
     (case prov_List (svc_repo svc) s of
        (Inl e, s1) \<Rightarrow> (Inl (Wrap ''provider: reconcile: list existing'' e), s1)
      | (Inr existing, s1) \<Rightarrow>
          let have_row = foldl (\<lambda>h row. h(row_id row := True)) (\<lambda>_. False) existing;
              known = foldl (\<lambda>k m. k(md_id m := True)) (\<lambda>_. False) (svc_registry svc)
          in case reconcile_create (svc_repo svc) have_row (svc_registry svc) s1 of
               (Inl e, s2) \<Rightarrow> (Inl e, s2)
             | (Inr _, s2) \<Rightarrow> (Inr (), reconcile_warn known existing s2))"

definition FetchUsage ::
    "('z runtime_scheme) provider_service \<Rightarrow> string \<Rightarrow> creds \<Rightarrow> 'z runtime_scheme
       \<Rightarrow> usage_metric list result \<times> 'z runtime_scheme" where
  "FetchUsage svc i cr s =
     (case service_metadata svc i of
        None \<Rightarrow> (Inl (Sentinel ErrFetcherNotFound), s)
      | Some _ \<Rightarrow>
          (case lookup i (svc_fetchers svc) of
             Inl e \<Rightarrow> (Inl e, s)
           | Inr f \<Rightarrow>
               (case within_runtime (ft_FetchUsage f cr) s of
                  (Inl e, s1) \<Rightarrow> (Inl (Wrap (''provider: fetch '' @ i) e), s1)
                | (Inr metrics, s1) \<Rightarrow> (Inr metrics, s1))))"

section \<open>Lookups and loops\<close>

lemma service_metadata_SomeD:
  "service_metadata svc i = Some m \<Longrightarrow> m \<in> set (svc_registry svc) \<and> md_id m = i"
  by (auto simp: service_metadata_def find_Some_iff)

lemma service_metadata_None_iff:
  "service_metadata svc i = None \<longleftrightarrow> i \<notin> md_id ` set (svc_registry svc)"
  by (auto simp: service_metadata_def find_None_iff)

lemma with_state_simps [simp]:
  "md_id (with_state m b l) = md_id m"
  "md_name (with_state m b l) = md_name m"
  "md_fields (with_state m b l) = md_fields m"
  "p_enabled (with_state m b l) = b"
  "p_live (with_state m b l) = l"
  by (simp_all add: with_state_def)

lemma foldl_enabled:
  "unique_keys row_id rows \<Longrightarrow>
   foldl (\<lambda>m row. m(row_id row := row_enabled row)) m0 rows p =
     (case row_of row_id rows p of None \<Rightarrow> m0 p | Some r \<Rightarrow> row_enabled r)"
proof (induction rows arbitrary: m0)
  case (Cons row rows)
  then have "unique_keys row_id rows" and "row_of row_id rows (row_id row) = None"
    by (auto simp: unique_keys_def row_of_None_iff)
  with Cons.IH show ?case by (auto split: option.splits)
qed simp

lemma foldl_mark:
  "foldl (\<lambda>h x. h(key x := True)) h0 xs = (\<lambda>k. h0 k \<or> k \<in> key ` set xs)"
  by (induction xs arbitrary: h0) auto

definition ensure_rows :: "string set \<Rightarrow> (string \<Rightarrow> bool option) \<Rightarrow> string \<Rightarrow> bool option" where
  "ensure_rows ids c = (\<lambda>p. if c p = None \<and> p \<in> ids then Some False else c p)"

lemma ensure_rows_simps [simp]:
  "ensure_rows {} c = c"
  "ensure_rows ids (ensure_rows ids' c) = ensure_rows (ids \<union> ids') c"
  "c p \<noteq> None \<Longrightarrow> ensure_rows ids c p = c p"
  by (auto simp: ensure_rows_def fun_eq_iff)

lemma ensure_rows_insert:
  "c p = None \<Longrightarrow> ensure_rows ids (c(p \<mapsto> False)) = ensure_rows (insert p ids) c"
  "c p \<noteq> None \<Longrightarrow> ensure_rows (insert p ids) c = ensure_rows ids c"
  by (auto simp: ensure_rows_def fun_eq_iff)

section \<open>The service over any repository that keeps the contract\<close>

context provider_repo
begin

lemma service_List_client:
  assumes "wf s" and "svc_repo svc = repo" and "service_List svc s = (r, s')"
  shows "wf s' \<and> content s' = content s \<and> rest s' = rest s \<and>
    (case r of Inl e \<Rightarrow> opaque e
     | Inr ps \<Rightarrow> ps = map (\<lambda>m. with_state m (content s (md_id m) = Some True)
                        (HasFetcher svc (md_id m))) (svc_registry svc))"
proof -
  obtain rows s1 where list: "prov_List repo s = (rows, s1)" by fastforce
  note law = List_law [OF assms(1) list]
  show ?thesis
  proof (cases rows)
    case (Inl e)
    with law list assms show ?thesis by (auto simp: service_List_def)
  next
    case (Inr rs)
    with law have uk: "unique_keys row_id rs"
      and c: "content s = (\<lambda>p. map_option row_enabled (row_of row_id rs p))" by auto
    have "foldl (\<lambda>m row. m(row_id row := row_enabled row)) (\<lambda>_. False) rs p
        = (content s p = Some True)" for p
      by (auto simp: foldl_enabled [OF uk] c split: option.splits)
    with Inr law list assms show ?thesis by (auto simp: service_List_def Let_def)
  qed
qed

lemma service_Get_client:
  assumes "wf s" and "svc_repo svc = repo" and "service_Get svc p s = (r, s')"
  shows "wf s' \<and> content s' = content s \<and> rest s' = rest s \<and>
    (case r of
       Inl e \<Rightarrow> e = Sentinel ErrNotFound \<and> (service_metadata svc p = None \<or> content s p = None)
          \<or> service_metadata svc p \<noteq> None \<and> opaque e
     | Inr q \<Rightarrow> (\<exists>m b. service_metadata svc p = Some m \<and> content s p = Some b \<and>
                    q = with_state m b (HasFetcher svc p)))"
proof (cases "service_metadata svc p")
  case None
  with assms show ?thesis by (auto simp: service_Get_def)
next
  case (Some m)
  obtain row s1 where get: "prov_Get repo p s = (row, s1)" by fastforce
  from Get_law [OF assms(1) get] get Some assms(2,3) show ?thesis
    by (cases row) (auto simp: service_Get_def)
qed

lemma service_SetEnabled_client:
  assumes "wf s" and "svc_repo svc = repo" and "service_SetEnabled svc p b s = (r, s')"
  shows "wf s' \<and> rest s' = rest s \<and>
    (case r of
       Inl e \<Rightarrow> (e = Sentinel ErrNotFound \<and> content s' = content s \<and>
                    (service_metadata svc p = None \<or> content s p = None)
          \<or> opaque e \<and> (content s' = content s
                \<or> content s p \<noteq> None \<and> content s' = (content s)(p \<mapsto> b)))
     | Inr q \<Rightarrow> content s p \<noteq> None \<and> content s' = (content s)(p \<mapsto> b) \<and>
                (\<exists>m. service_metadata svc p = Some m \<and> q = with_state m b (HasFetcher svc p)))"
proof (cases "service_metadata svc p")
  case None
  with assms show ?thesis by (auto simp: service_SetEnabled_def)
next
  case (Some m)
  obtain row s1 where set: "prov_SetEnabled repo p b s = (row, s1)" by fastforce
  from SetEnabled_law [OF assms(1) set] set Some assms(2,3) show ?thesis
    by (cases row) (auto simp: service_SetEnabled_def)
qed

lemma reconcile_create_client:
  assumes "wf s" and "distinct (map md_id ms)"
    and "\<forall>m \<in> set ms. have_row (md_id m) \<longleftrightarrow> content s (md_id m) \<noteq> None"
    and "reconcile_create repo have_row ms s = (r, s')"
  shows "wf s' \<and> rest s' = rest s \<and>
    (\<exists>ids \<subseteq> md_id ` set ms. content s' = ensure_rows ids (content s) \<and>
       (case r of Inl e \<Rightarrow> opaque e | Inr _ \<Rightarrow> ids = md_id ` set ms))"
  using assms
proof (induction ms arbitrary: s)
  case Nil
  then show ?case by auto
next
  case (Cons m ms)
  show ?case
  proof (cases "have_row (md_id m)")
    case True
    with Cons.prems have "content s (md_id m) \<noteq> None" by simp
    moreover from True Cons.prems have "wf s' \<and> rest s' = rest s \<and>
      (\<exists>ids \<subseteq> md_id ` set ms. content s' = ensure_rows ids (content s) \<and>
         (case r of Inl e \<Rightarrow> opaque e | Inr _ \<Rightarrow> ids = md_id ` set ms))"
      by (intro Cons.IH) auto
    ultimately show ?thesis
      by (auto simp: ensure_rows_insert(2) split: sum.splits intro: exI [where x = "_ ` set ms"])
  next
    case False
    with Cons.prems have none: "content s (md_id m) = None" by simp
    obtain row s1 where create: "prov_Create repo (md_id m) False s = (row, s1)" by fastforce
    note law = Create_law [OF Cons.prems(1) none create]
    show ?thesis
    proof (cases row)
      case (Inl e)
      with False create law Cons.prems(4) show ?thesis
        by (auto intro: exI [where x = "{}"])
    next
      case (Inr a)
      with law have s1: "wf s1" "rest s1 = rest s" "content s1 = (content s)(md_id m \<mapsto> False)"
        by auto
      have "\<forall>x \<in> set ms. md_id x \<noteq> md_id m" using Cons.prems(2) by (auto simp: image_iff)
      with s1 Inr False create Cons.prems have "wf s' \<and> rest s' = rest s1 \<and>
        (\<exists>ids \<subseteq> md_id ` set ms. content s' = ensure_rows ids (content s1) \<and>
           (case r of Inl e \<Rightarrow> opaque e | Inr _ \<Rightarrow> ids = md_id ` set ms))"
        by (intro Cons.IH) auto
      then obtain ids where "ids \<subseteq> md_id ` set ms" "content s' = ensure_rows ids (content s1)"
        "case r of Inl e \<Rightarrow> opaque e | Inr _ \<Rightarrow> ids = md_id ` set ms" "wf s'" "rest s' = rest s1"
        by auto
      with s1 none show ?thesis
        by (intro conjI exI [where x = "insert (md_id m) ids"])
          (auto simp: ensure_rows_insert(1) split: sum.splits)
    qed
  qed
qed

end

context logged_provider_repo
begin

lemma reconcile_warn_frame:
  "wf (reconcile_warn known rows s) = wf s"
  "content (reconcile_warn known rows s) = content s"
  "rest (reconcile_warn known rows s) = rest s"
  by (induction rows arbitrary: s) (auto simp: slog_law)

lemma Reconcile_client:
  assumes "wf s" and "svc_repo svc = repo" and "distinct (map md_id (svc_registry svc))"
    and "Reconcile svc s = (r, s')"
  shows "wf s' \<and> rest s' = rest s \<and>
    (\<exists>ids \<subseteq> md_id ` set (svc_registry svc). content s' = ensure_rows ids (content s) \<and>
       (case r of Inl e \<Rightarrow> opaque e | Inr _ \<Rightarrow> ids = md_id ` set (svc_registry svc)))"
proof -
  obtain rows s1 where list: "prov_List repo s = (rows, s1)" by fastforce
  note law = List_law [OF assms(1) list]
  show ?thesis
  proof (cases rows)
    case (Inl e)
    with law list assms(2,4) show ?thesis
      by (auto simp: Reconcile_def intro: exI [where x = "{}"])
  next
    case (Inr rs)
    let ?have = "\<lambda>p. p \<in> row_id ` set rs"
    obtain q s2 where create: "reconcile_create repo ?have (svc_registry svc) s1 = (q, s2)"
      by fastforce
    have "\<forall>m \<in> set (svc_registry svc). ?have (md_id m) \<longleftrightarrow> content s1 (md_id m) \<noteq> None"
      using law Inr by (auto simp: row_of_None_iff)
    with law assms(3) create have "wf s2 \<and> rest s2 = rest s1 \<and>
      (\<exists>ids \<subseteq> md_id ` set (svc_registry svc). content s2 = ensure_rows ids (content s1) \<and>
         (case q of Inl e \<Rightarrow> opaque e | Inr _ \<Rightarrow> ids = md_id ` set (svc_registry svc)))"
      by (intro reconcile_create_client) auto
    with law Inr list create assms(2,4) show ?thesis
      by (cases q) (auto simp: Reconcile_def foldl_mark Let_def reconcile_warn_frame)
  qed
qed

end

context reliable_logged_provider_repo
begin

lemma reconcile_create_succeeds:
  assumes "wf s" and "healthy s" and "distinct (map md_id ms)"
    and "\<forall>m \<in> set ms. have_row (md_id m) \<longleftrightarrow> content s (md_id m) \<noteq> None"
  shows "\<exists>s'. reconcile_create repo have_row ms s = (Inr (), s') \<and> healthy s'"
  using assms
proof (induction ms arbitrary: s)
  case Nil
  then show ?case by simp
next
  case (Cons m ms)
  show ?case
  proof (cases "have_row (md_id m)")
    case True
    with Cons show ?thesis by simp
  next
    case False
    with Cons.prems have none: "content s (md_id m) = None" by simp
    with Cons.prems obtain row s1 where create: "prov_Create repo (md_id m) False s = (Inr row, s1)"
      and "healthy s1"
      using Create_healthy by blast
    moreover from Create_law [OF Cons.prems(1) none create]
    have "wf s1" and "content s1 = (content s)(md_id m \<mapsto> False)" by simp_all
    moreover have "\<forall>x \<in> set ms. md_id x \<noteq> md_id m"
      using Cons.prems(3) by (auto simp: image_iff)
    ultimately show ?thesis using False Cons.IH [of s1] Cons.prems by auto
  qed
qed

lemma reconcile_warn_healthy: "healthy (reconcile_warn known rows s) = healthy s"
  by (induction rows arbitrary: s) (auto simp: slog_healthy)

lemma Reconcile_succeeds:
  assumes "wf s" and "healthy s" and "svc_repo svc = repo"
    and "distinct (map md_id (svc_registry svc))"
  shows "\<exists>s'. Reconcile svc s = (Inr (), s') \<and> healthy s'"
proof -
  obtain rows s1 where list: "prov_List repo s = (Inr rows, s1)" and h: "healthy s1"
    using List_healthy [OF assms(1,2)] by blast
  from List_law [OF assms(1) list]
  have law: "wf s1" "content s1 = content s"
    "content s = (\<lambda>p. map_option row_enabled (row_of row_id rows p))" by simp_all
  have "\<forall>m \<in> set (svc_registry svc).
      md_id m \<in> row_id ` set rows \<longleftrightarrow> content s1 (md_id m) \<noteq> None"
    using law by (auto simp: row_of_None_iff)
  from reconcile_create_succeeds [OF law(1) h assms(4) this]
  show ?thesis
    using assms(3) list by (auto simp: Reconcile_def foldl_mark Let_def reconcile_warn_healthy)
qed

end

section \<open>The service over SQLite\<close>

lemma distinct_Registry: "distinct (map md_id Registry)"
  by (simp add: Registry_def)

lemma booted_host:
  obtains s where "Reconcile (NewService sqlite_providers Registry) empty_host = (Inr (), s :: host)"
    and "wf_db s" and "reliable_db s"
    and "enabled_in s =
      (\<lambda>p. if p \<in> {''openai'', ''anthropic'', ''minimax''} then Some False else None)"
proof -
  let ?svc = "NewService sqlite_providers Registry :: host provider_service"
  have svc: "svc_repo ?svc = sqlite_providers" "distinct (map md_id (svc_registry ?svc))"
    by (simp_all add: NewService_def distinct_Registry)
  obtain s where s: "Reconcile ?svc empty_host = (Inr (), s)" "reliable_db s"
    using sqlite_prov.Reconcile_succeeds [OF empty_host_simps(1,2) svc] by blast
  from sqlite_prov.Reconcile_client [OF empty_host_simps(1) svc s(1)]
  have "wf_db s" "enabled_in s = ensure_rows (md_id ` set (svc_registry ?svc)) (\<lambda>_. None)"
    by auto
  with s show ?thesis
    by (intro that) (auto simp: ensure_rows_def NewService_def Registry_def fun_eq_iff)
qed

text \<open>
  Listing returns every registered provider, once and in the registry's order, whatever the
  table holds: enabled iff its row says so (a provider without a row is disabled, a row without
  a registry entry is not shown) and live iff a fetcher is registered. Nothing is written, and
  the only failure is the database's.
\<close>
theorem service_List_correct:
  assumes "wf_db s" and "svc_repo svc = sqlite_providers" and "service_List svc s = (r, s')"
  shows "enabled_in s' = enabled_in s \<and> providers_rest s' = providers_rest s \<and>
    (case r of
       Inl e \<Rightarrow> opaque e \<and> \<not> reliable_db s
     | Inr ps \<Rightarrow> ps = map (\<lambda>m. with_state m (enabled_in s (md_id m) = Some True)
                        (HasFetcher svc (md_id m))) (svc_registry svc))"
proof -
  have "\<not> reliable_db s" if "r = Inl e" for e
    using that assms sqlite_prov.List_healthy [OF assms(1)]
    by (auto simp: service_List_def split: prod.splits sum.splits)
  with sqlite_prov.service_List_client [OF assms] show ?thesis by (auto split: sum.splits)
qed

theorem service_List_correct_witness:
  "\<exists>ps s'. service_List (NewService sqlite_providers Registry) empty_host = (Inr ps, s') \<and>
     map md_id ps = [''openai'', ''anthropic'', ''minimax''] \<and> \<not> (\<exists>q \<in> set ps. p_enabled q)"
proof -
  let ?svc = "NewService sqlite_providers Registry :: host provider_service"
  obtain r s' where list: "service_List ?svc empty_host = (r, s')" by fastforce
  have repo: "svc_repo ?svc = sqlite_providers" by (simp add: NewService_def)
  from service_List_correct [OF empty_host_simps(1) repo list]
  show ?thesis using list
    by (cases r) (auto simp: NewService_def Registry_def)
qed

text \<open>
  Read your writes: when enabling or disabling a provider succeeds, getting it afterwards
  returns the provider that was answered, with the flag that was set, and every other row
  keeps its flag. Setting the same flag again succeeds with the same answer.
\<close>
theorem SetEnabled_Get:
  assumes "wf_db s" and "svc_repo svc = sqlite_providers"
    and "service_SetEnabled svc p b s = (Inr q, s1)"
  shows "p_enabled q = b \<and> md_id q = p \<and>
    (\<forall>r s2. service_Get svc p s1 = (r, s2) \<longrightarrow> r = Inr q \<or> (\<exists>e. r = Inl e \<and> opaque e)) \<and>
    (\<forall>p'. p' \<noteq> p \<longrightarrow> enabled_in s1 p' = enabled_in s p') \<and>
    (\<forall>r s2. service_SetEnabled svc p b s1 = (r, s2) \<longrightarrow>
        (r = Inr q \<or> (\<exists>e. r = Inl e \<and> opaque e)) \<and> enabled_in s2 = enabled_in s1)"
proof -
  from sqlite_prov.service_SetEnabled_client [OF assms]
  obtain m where s1: "wf_db s1" "enabled_in s1 = (enabled_in s)(p \<mapsto> b)"
    and m: "service_metadata svc p = Some m" and q: "q = with_state m b (HasFetcher svc p)"
    by auto
  have "r = Inr q \<or> (\<exists>e. r = Inl e \<and> opaque e)" if "service_Get svc p s1 = (r, s2)" for r s2
    using sqlite_prov.service_Get_client [OF s1(1) assms(2) that] s1 m q by (auto split: sum.splits)
  moreover have "(r = Inr q \<or> (\<exists>e. r = Inl e \<and> opaque e)) \<and> enabled_in s2 = enabled_in s1"
    if "service_SetEnabled svc p b s1 = (r, s2)" for r s2
    using sqlite_prov.service_SetEnabled_client [OF s1(1) assms(2) that] s1 m q
    by (auto split: sum.splits)
  moreover from service_metadata_SomeD [OF m] have "md_id m = p" by simp
  ultimately show ?thesis using q s1 by simp
qed

theorem SetEnabled_Get_witness:
  "\<exists>(s :: host) q s1. wf_db s \<and>
     service_SetEnabled (NewService sqlite_providers Registry) ''minimax'' True s = (Inr q, s1) \<and>
     p_enabled q \<and> md_id q = ''minimax''"
proof -
  let ?svc = "NewService sqlite_providers Registry :: host provider_service"
  obtain s :: host where "wf_db s" "reliable_db s" and "enabled_in s =
      (\<lambda>p. if p \<in> {''openai'', ''anthropic'', ''minimax''} then Some False else None)"
    by (rule booted_host)
  then have s: "wf_db s" "reliable_db s" "enabled_in s ''minimax'' \<noteq> None" by simp_all
  obtain s1 where "prov_SetEnabled sqlite_providers ''minimax'' True s = (Inr (), s1)"
    using sqlite_prov.SetEnabled_healthy [OF s] by blast
  then obtain q where set: "service_SetEnabled ?svc ''minimax'' True s = (Inr q, s1)"
    by (simp add: service_SetEnabled_def service_metadata_def NewService_def Registry_def)
  have "svc_repo ?svc = sqlite_providers" by (simp add: NewService_def)
  from SetEnabled_Get [OF s(1) this set] have "p_enabled q = True" and "md_id q = ''minimax''"
    by iprover+
  with s(1) set show ?thesis by auto
qed

text \<open>
  C10: Reconciling on boot, over a working database and a registry without duplicate ids, always
  succeeds and leaves exactly one row for every registered provider; a row that was already
  there keeps its flag, a missing one is created disabled, and no row is ever removed, also
  not one whose provider left the registry. The credentials and snapshots are untouched.
\<close>
theorem Reconcile_correct:
  assumes "wf_db s" and "reliable_db s" and "svc_repo svc = sqlite_providers"
    and "distinct (map md_id (svc_registry svc))"
  shows "\<exists>s'. Reconcile svc s = (Inr (), s') \<and> wf_db s' \<and> reliable_db s' \<and>
    providers_rest s' = providers_rest s \<and>
    (\<forall>p. enabled_in s' p =
       (case enabled_in s p of
          Some b \<Rightarrow> Some b
        | None \<Rightarrow> if service_metadata svc p \<noteq> None then Some False else None))"
proof -
  obtain s' where s': "Reconcile svc s = (Inr (), s')" "reliable_db s'"
    using sqlite_prov.Reconcile_succeeds [OF assms] by blast
  from sqlite_prov.Reconcile_client [OF assms(1,3,4) s'(1)] s' show ?thesis
    by (auto simp: ensure_rows_def service_metadata_None_iff split: option.split)
qed

theorem Reconcile_correct_witness:
  "\<exists>s'. Reconcile (NewService sqlite_providers Registry) empty_host = (Inr (), s') \<and>
     enabled_in s' ''minimax'' = Some False"
proof -
  let ?svc = "NewService sqlite_providers Registry :: host provider_service"
  have "svc_repo ?svc = sqlite_providers" "distinct (map md_id (svc_registry ?svc))"
    by (simp_all add: NewService_def distinct_Registry)
  from Reconcile_correct [OF empty_host_simps(1,2) this] show ?thesis
    by (auto simp: service_metadata_def NewService_def Registry_def)
qed

text \<open>
  Also when the database fails half way, reconciling only adds disabled rows of registered
  providers: no flag changes and no row disappears. Reconciling again is harmless: after a
  success it changes nothing.
\<close>
theorem Reconcile_monotone:
  assumes "wf_db s" and "svc_repo svc = sqlite_providers"
    and "distinct (map md_id (svc_registry svc))" and "Reconcile svc s = (r, s')"
  shows "(\<forall>p b. enabled_in s p = Some b \<longrightarrow> enabled_in s' p = Some b) \<and>
    (\<forall>p b. enabled_in s p = None \<longrightarrow> enabled_in s' p = Some b \<longrightarrow>
       \<not> b \<and> service_metadata svc p \<noteq> None) \<and>
    (\<forall>r2 s2. r = Inr () \<longrightarrow> Reconcile svc s' = (r2, s2) \<longrightarrow> enabled_in s2 = enabled_in s')"
proof -
  from sqlite_prov.Reconcile_client [OF assms] obtain ids where
    ids: "ids \<subseteq> md_id ` set (svc_registry svc)" "enabled_in s' = ensure_rows ids (enabled_in s)"
    and all: "r = Inr () \<Longrightarrow> ids = md_id ` set (svc_registry svc)" and wf: "wf_db s'"
    by (cases r) auto
  have "enabled_in s2 = enabled_in s'" if "r = Inr ()" "Reconcile svc s' = (r2, s2)" for r2 s2
  proof -
    from sqlite_prov.Reconcile_client [OF wf assms(2,3) that(2)] obtain ids2 where
      "ids2 \<subseteq> md_id ` set (svc_registry svc)" "enabled_in s2 = ensure_rows ids2 (enabled_in s')"
      by auto
    with ids(2) all [OF that(1)] show ?thesis by (simp add: Un_absorb1)
  qed
  with ids show ?thesis
    by (auto simp: ensure_rows_def service_metadata_None_iff split: if_splits)
qed

theorem Reconcile_monotone_witness:
  "\<exists>s2. Reconcile (NewService sqlite_providers Registry) empty_host = (Inr (), s2) \<and>
     enabled_in s2 ''other'' \<noteq> Some True"
proof -
  let ?svc = "NewService sqlite_providers Registry :: host provider_service"
  obtain s where s: "Reconcile ?svc empty_host = (Inr (), s)" using booted_host by blast
  have "svc_repo ?svc = sqlite_providers" "distinct (map md_id (svc_registry ?svc))"
    by (simp_all add: NewService_def distinct_Registry)
  from Reconcile_monotone [OF empty_host_simps(1) this s] s show ?thesis by auto
qed

section \<open>The fetcher registry\<close>

text \<open>
  Registering a fetcher panics exactly when its id is not in the catalog or is taken; when
  it does not, that id and no other becomes live, the catalog and the repository stay, and
  registering the same id again panics.
\<close>
theorem RegisterFetcher_live:
  "((\<exists>svc'. RegisterFetcher f svc = Inr svc') \<longleftrightarrow>
      md_id (ft_Metadata f) \<in> md_id ` set (svc_registry svc) \<and>
      svc_fetchers svc (md_id (ft_Metadata f)) = None)
   \<and> (\<forall>svc'. RegisterFetcher f svc = Inr svc' \<longrightarrow>
        (\<forall>p. HasFetcher svc' p \<longleftrightarrow> p = md_id (ft_Metadata f) \<or> HasFetcher svc p) \<and>
        svc_registry svc' = svc_registry svc \<and> svc_repo svc' = svc_repo svc \<and>
        (\<forall>g. md_id (ft_Metadata g) = md_id (ft_Metadata f) \<longrightarrow>
           (\<exists>msg. RegisterFetcher g svc' = Inl msg)))"
proof -
  let ?i = "md_id (ft_Metadata f)"
  show ?thesis
  proof (cases "service_metadata svc ?i")
    case None
    then have "?i \<notin> md_id ` set (svc_registry svc)" by (simp add: service_metadata_None_iff)
    with None show ?thesis by (simp add: RegisterFetcher_def Let_def)
  next
    case (Some m)
    then have "?i \<in> md_id ` set (svc_registry svc)"
      by (metis option.discI service_metadata_None_iff)
    with Some show ?thesis
      by (auto simp: RegisterFetcher_def register_def Let_def HasFetcher_def has_def
          service_metadata_def split: option.splits)
  qed
qed

definition stub_fetcher :: "string \<Rightarrow> fetcher" where
  "stub_fetcher i =
     \<lparr>ft_Metadata = \<lparr>md_id = i, md_name = [], md_fields = []\<rparr>,
      ft_FetchUsage = (\<lambda>cr rt. (Inr [], rt))\<rparr>"

theorem RegisterFetcher_live_witness:
  "\<not> (\<exists>svc'. RegisterFetcher (stub_fetcher ''typo'')
       (NewService (sqlite_providers :: host provider_repository) Registry) = Inr svc')"
  using RegisterFetcher_live [of "stub_fetcher ''typo''"
      "NewService (sqlite_providers :: host provider_repository) Registry"]
  by (auto simp: NewService_def Registry_def stub_fetcher_def)

end
