(* ===== verification/Aes_Gcm.thy ===== *)
theory Aes_Gcm
  imports Go_Errors
begin

text \<open>
  The standard library's \<^verbatim>\<open>crypto/aes\<close> and GCM mode of
  \<^verbatim>\<open>crypto/cipher\<close>, as far as \<^verbatim>\<open>internal/secret\<close> uses them:
  the AES block function (FIPS 197, any of the three key sizes) and
  Galois/counter mode with a 12-byte nonce and a 16-byte tag (SP 800-38D). The interface
  \<^verbatim>\<open>cipher.AEAD\<close> is the record \<open>aead\<close>; the locale \<open>aead_cipher\<close> states what
  a client may rely on, and GCM over AES is shown to provide it for every key.
\<close>

unbundle bit_operations_syntax

section \<open>The AES block function\<close>

definition xtime :: "byte \<Rightarrow> byte" where
  "xtime b = push_bit 1 b XOR (if bit b 7 then 0x1b else 0)"

definition gf8_mul :: "byte \<Rightarrow> byte \<Rightarrow> byte" where
  "gf8_mul a b =
     snd (fold (\<lambda>i (p, acc). (xtime p, if bit b i then acc XOR p else acc)) [0..<8] (a, 0))"

text \<open>The inverse is the 254th power: exponent 127 by square-and-multiply, squared.\<close>

definition gf8_inv :: "byte \<Rightarrow> byte" where
  "gf8_inv a = (let r = fold (\<lambda>_ r. gf8_mul (gf8_mul r r) a) [0..<6] a in gf8_mul r r)"

definition sub_byte :: "byte \<Rightarrow> byte" where
  "sub_byte a =
     (let b = gf8_inv a
      in b XOR word_rotl 1 b XOR word_rotl 2 b XOR word_rotl 3 b XOR word_rotl 4 b XOR 0x63)"

definition xor_word :: "bytes \<Rightarrow> bytes \<Rightarrow> bytes" where
  "xor_word u v = map (\<lambda>i. u ! i XOR v ! i) [0..<4]"

fun rcon :: "nat \<Rightarrow> byte" where
  "rcon 0 = 0"
| "rcon (Suc 0) = 1"
| "rcon (Suc (Suc n)) = xtime (rcon (Suc n))"

definition schedule_word :: "nat \<Rightarrow> nat \<Rightarrow> bytes list \<Rightarrow> bytes list" where
  "schedule_word nk i ws =
     (let t = last ws;
          t' = (if i mod nk = 0
                then xor_word (map sub_byte (rotate1 t)) [rcon (i div nk), 0, 0, 0]
                else if 6 < nk \<and> i mod nk = 4 then map sub_byte t
                else t)
      in ws @ [xor_word (ws ! (i - nk)) t'])"

definition key_words :: "bytes \<Rightarrow> bytes list" where
  "key_words key = map (\<lambda>i. take 4 (drop (4 * i) key)) [0..<length key div 4]"

definition key_schedule :: "bytes \<Rightarrow> bytes list" where
  "key_schedule key =
     (let nk = length key div 4 in fold (schedule_word nk) [nk..<4 * (nk + 7)] (key_words key))"

definition add_round_key :: "bytes list \<Rightarrow> nat \<Rightarrow> bytes \<Rightarrow> bytes" where
  "add_round_key ws r st = map (\<lambda>i. st ! i XOR (ws ! (4 * r + i div 4)) ! (i mod 4)) [0..<16]"

definition shift_rows :: "bytes \<Rightarrow> bytes" where
  "shift_rows st = map (\<lambda>i. st ! ((i + 4 * (i mod 4)) mod 16)) [0..<16]"

definition mix_byte :: "bytes \<Rightarrow> nat \<Rightarrow> byte" where
  "mix_byte st i =
     (let c = 4 * (i div 4); a = (\<lambda>k. st ! (c + (i + k) mod 4))
      in gf8_mul (a 0) 2 XOR gf8_mul (a 1) 3 XOR a 2 XOR a 3)"

definition mix_columns :: "bytes \<Rightarrow> bytes" where
  "mix_columns st = map (mix_byte st) [0..<16]"

definition aes_rounds :: "bytes list \<Rightarrow> nat \<Rightarrow> bytes \<Rightarrow> bytes" where
  "aes_rounds ws n blk =
     add_round_key ws n (shift_rows (map sub_byte
       (fold (\<lambda>r st. add_round_key ws r (mix_columns (shift_rows (map sub_byte st))))
          [1..<n] (add_round_key ws 0 blk))))"

definition aes_encrypt :: "bytes \<Rightarrow> bytes \<Rightarrow> bytes" where
  "aes_encrypt key blk = aes_rounds (key_schedule key) (length key div 4 + 6) blk"

lemma length_aes_encrypt [simp]: "length (aes_encrypt key blk) = 16"
  by (simp add: aes_encrypt_def aes_rounds_def add_round_key_def)

text \<open>\<^verbatim>\<open>aes.NewCipher\<close>: a block function, or an error for a bad key size.\<close>

definition aes_NewCipher :: "bytes \<Rightarrow> (bytes \<Rightarrow> bytes) result" where
  "aes_NewCipher key =
     (if length key \<in> {16, 24, 32} then Inr (aes_encrypt key)
      else Inl (ErrorString (''crypto/aes: invalid key size '' @ string_of_nat (length key))))"

section \<open>Galois/counter mode\<close>

definition word_of_block :: "bytes \<Rightarrow> 128 word" where
  "word_of_block bs = foldl (\<lambda>acc b. push_bit 8 acc OR ucast b) 0 bs"

definition block_of_word :: "128 word \<Rightarrow> bytes" where
  "block_of_word w = map (\<lambda>i. ucast (drop_bit (8 * (15 - i)) w)) [0..<16]"

definition gf128_mul :: "128 word \<Rightarrow> 128 word \<Rightarrow> 128 word" where
  "gf128_mul x y =
     snd (fold (\<lambda>i (v, z).
            (drop_bit 1 v XOR (if bit v 0 then push_bit 120 0xe1 else 0),
             if bit x (127 - i) then z XOR v else z))
          [0..<128] (y, 0))"

definition pad_block :: "bytes \<Rightarrow> bytes" where
  "pad_block bs = bs @ replicate ((16 - length bs mod 16) mod 16) 0"

definition blocks_of :: "bytes \<Rightarrow> 128 word list" where
  "blocks_of bs =
     map (\<lambda>i. word_of_block (take 16 (drop (16 * i) bs))) [0..<length bs div 16]"

definition be64 :: "nat \<Rightarrow> bytes" where
  "be64 n = map (\<lambda>i. ucast (drop_bit (8 * (7 - i)) (of_nat n :: 64 word))) [0..<8]"

definition ghash :: "128 word \<Rightarrow> bytes \<Rightarrow> 128 word" where
  "ghash h bs = foldl (\<lambda>y x. gf128_mul (y XOR x) h) 0 (blocks_of bs)"

definition counter_block :: "bytes \<Rightarrow> nat \<Rightarrow> bytes" where
  "counter_block nonce i =
     nonce @ map (\<lambda>j. ucast (drop_bit (8 * (3 - j)) (of_nat i :: 32 word))) [0..<4]"

definition keystream :: "(bytes \<Rightarrow> bytes) \<Rightarrow> bytes \<Rightarrow> nat \<Rightarrow> bytes" where
  "keystream blk nonce n =
     take n (concat (map (\<lambda>i. blk (counter_block nonce (i + 2))) [0..<(n + 15) div 16]))"

definition gcm_tag :: "(bytes \<Rightarrow> bytes) \<Rightarrow> bytes \<Rightarrow> bytes \<Rightarrow> bytes \<Rightarrow> bytes" where
  "gcm_tag blk nonce ct aad =
     (let h = word_of_block (blk (replicate 16 0));
          s = ghash h (pad_block aad @ pad_block ct @ be64 (8 * length aad) @ be64 (8 * length ct))
      in block_of_word (s XOR word_of_block (blk (counter_block nonce 1))))"

definition gcm_Seal :: "(bytes \<Rightarrow> bytes) \<Rightarrow> bytes \<Rightarrow> bytes \<Rightarrow> bytes \<Rightarrow> bytes" where
  "gcm_Seal blk nonce pt aad =
     (let ct = map2 (XOR) pt (keystream blk nonce (length pt)) in ct @ gcm_tag blk nonce ct aad)"

definition gcm_Open :: "(bytes \<Rightarrow> bytes) \<Rightarrow> bytes \<Rightarrow> bytes \<Rightarrow> bytes \<Rightarrow> bytes result" where
  "gcm_Open blk nonce sealed aad =
     (if length sealed < 16 then Inl (ErrorString ''cipher: message authentication failed'')
      else
        let ct = take (length sealed - 16) sealed;
            tag = drop (length sealed - 16) sealed
        in if tag = gcm_tag blk nonce ct aad
           then Inr (map2 (XOR) ct (keystream blk nonce (length ct)))
           else Inl (ErrorString ''cipher: message authentication failed''))"

section \<open>The AEAD interface\<close>

record aead =
  aead_Seal :: "bytes \<Rightarrow> bytes \<Rightarrow> bytes \<Rightarrow> bytes"
  aead_Open :: "bytes \<Rightarrow> bytes \<Rightarrow> bytes \<Rightarrow> bytes result"
  aead_Overhead :: nat

definition cipher_NewGCM :: "(bytes \<Rightarrow> bytes) \<Rightarrow> aead result" where
  "cipher_NewGCM blk =
     Inr \<lparr>aead_Seal = gcm_Seal blk, aead_Open = gcm_Open blk, aead_Overhead = 16\<rparr>"

text \<open>
  What a client relies on: opening inverts sealing under the same nonce and associated data,
  only the sealed form opens, and sealing lengthens by the overhead. Nothing here says that a
  forgery is infeasible: that is a computational claim outside the model; what the code relies
  on is that a blob that is not the sealed form is rejected.
\<close>

locale aead_cipher =
  fixes gcm :: aead
  assumes open_seal: "aead_Open gcm nonce (aead_Seal gcm nonce pt aad) aad = Inr pt"
    and open_sound: "aead_Open gcm nonce c aad = Inr pt \<Longrightarrow> c = aead_Seal gcm nonce pt aad"
    and length_seal: "length (aead_Seal gcm nonce pt aad) = length pt + aead_Overhead gcm"
begin

lemma open_iff: "aead_Open gcm nonce c aad = Inr pt \<longleftrightarrow> c = aead_Seal gcm nonce pt aad"
  by (auto simp: open_seal dest: open_sound)

lemma seal_inject:
  "aead_Seal gcm nonce pt aad = aead_Seal gcm nonce pt' aad \<longleftrightarrow> pt = pt'"
  by (metis open_seal sum.inject(2))

end

section \<open>GCM over a 16-byte block function\<close>

lemma map2_xor_cancel:
  "length xs = length ys \<Longrightarrow> map2 (XOR) (map2 (XOR) xs ys) (ys :: bytes) = xs"
  by (induction xs ys rule: list_induct2) (simp_all add: xor.assoc)

lemma length_concat_blocks:
  "(\<And>b. length (blk b) = 16) \<Longrightarrow> length (concat (map (\<lambda>i. blk (f i)) is)) = 16 * length is"
  by (induction "is") simp_all

lemma length_keystream:
  assumes "\<And>b. length (blk b) = 16"
  shows "length (keystream blk nonce n) = n"
proof -
  have "length (concat (map (\<lambda>i. blk (counter_block nonce (i + 2))) [0..<(n + 15) div 16]))
      = 16 * ((n + 15) div 16)"
    using length_concat_blocks [of blk "\<lambda>i. counter_block nonce (i + 2)", OF assms] by simp
  moreover have "n \<le> 16 * ((n + 15) div 16)" by presburger
  ultimately show ?thesis by (simp add: keystream_def)
qed

lemma length_gcm_tag [simp]: "length (gcm_tag blk nonce ct aad) = 16"
  by (simp add: gcm_tag_def block_of_word_def)

lemma length_gcm_Seal:
  "(\<And>b. length (blk b) = 16) \<Longrightarrow> length (gcm_Seal blk nonce pt aad) = length pt + 16"
  by (simp add: gcm_Seal_def Let_def length_keystream)

lemma gcm_Open_Seal:
  assumes "\<And>b. length (blk b) = 16"
  shows "gcm_Open blk nonce (gcm_Seal blk nonce pt aad) aad = Inr pt"
  by (simp add: gcm_Open_def gcm_Seal_def Let_def length_keystream [OF assms] map2_xor_cancel)

lemma gcm_Open_sound:
  assumes "\<And>b. length (blk b) = 16" and "gcm_Open blk nonce c aad = Inr pt"
  shows "c = gcm_Seal blk nonce pt aad"
proof -
  define ct where "ct = take (length c - 16) c"
  from assms(2) have tag: "drop (length c - 16) c = gcm_tag blk nonce ct aad"
    and pt: "pt = map2 (XOR) ct (keystream blk nonce (length ct))"
    by (auto simp: gcm_Open_def Let_def ct_def split: if_splits)
  have "map2 (XOR) pt (keystream blk nonce (length pt)) = ct"
    by (simp add: pt length_keystream [OF assms(1)] map2_xor_cancel)
  moreover have "c = ct @ drop (length c - 16) c" by (simp add: ct_def)
  ultimately show ?thesis by (simp add: gcm_Seal_def tag)
qed

abbreviation aes_aead :: "bytes \<Rightarrow> aead" where
  "aes_aead key \<equiv>
     \<lparr>aead_Seal = gcm_Seal (aes_encrypt key), aead_Open = gcm_Open (aes_encrypt key),
      aead_Overhead = 16\<rparr>"

interpretation aes_gcm: aead_cipher "aes_aead key" for key
  by unfold_locales (auto simp: gcm_Open_Seal length_gcm_Seal dest: gcm_Open_sound [rotated])

end
