(* ===== verification/Secret.thy ===== *)
theory Secret
  imports Aes_Gcm Go_Runtime
begin

text \<open>
  \<^verbatim>\<open>internal/secret/secret.go\<close>: the credential crypto core. A sealed blob is
  \<open>version # nonce @ ciphertext @ tag\<close>; the associated data binds it to one provider and
  one field.
\<close>

section \<open>Constants and associated data\<close>

definition KeySize :: nat where
  "KeySize = 32"

definition NonceSize :: nat where
  "NonceSize = 12"

definition version :: byte where
  "version = 0x01"

definition aadDomain :: string where
  "aadDomain = ''aud/cred/v1''"

definition AAD :: "string \<Rightarrow> string \<Rightarrow> bytes" where
  "AAD providerID fieldName =
     bytes_of_string aadDomain @ [0x00] @ bytes_of_string providerID @ [0x00]
       @ bytes_of_string fieldName"

section \<open>Sealing and opening\<close>

definition newGCM :: "bytes \<Rightarrow> aead result" where
  "newGCM key =
     (if length key \<noteq> KeySize then Inl (Sentinel ErrInvalidKeyLength)
      else case aes_NewCipher key of
        Inl e \<Rightarrow> Inl (Wrap ''secret: new cipher'' e)
      | Inr block \<Rightarrow>
          (case cipher_NewGCM block of
             Inl e \<Rightarrow> Inl (Wrap ''secret: new gcm'' e)
           | Inr gcm \<Rightarrow> Inr gcm))"

definition Seal ::
    "bytes \<Rightarrow> bytes \<Rightarrow> bytes \<Rightarrow> 'z runtime_scheme \<Rightarrow> bytes result \<times> 'z runtime_scheme" where
  "Seal key plaintext aad s =
     (case newGCM key of
        Inl e \<Rightarrow> (Inl e, s)
      | Inr gcm \<Rightarrow>
          (case rand_Read NonceSize s of
             (Inl e, s1) \<Rightarrow> (Inl (Wrap ''secret: generate nonce'' e), s1)
           | (Inr nonce, s1) \<Rightarrow>
               (Inr ([version] @ nonce @ aead_Seal gcm nonce plaintext aad), s1)))"

definition Open :: "bytes \<Rightarrow> bytes \<Rightarrow> bytes \<Rightarrow> bytes result" where
  "Open key blob aad =
     (case newGCM key of
        Inl e \<Rightarrow> Inl e
      | Inr gcm \<Rightarrow>
          if length blob < 1 + NonceSize then Inl (Sentinel ErrInvalidBlob)
          else if blob ! 0 \<noteq> version then Inl (Sentinel ErrInvalidBlob)
          else
            let nonce = take NonceSize (drop 1 blob);
                ciphertext = drop (1 + NonceSize) blob
            in case aead_Open gcm nonce ciphertext aad of
                 Inl _ \<Rightarrow> Inl (Sentinel ErrDecryptionFailed)
               | Inr plaintext \<Rightarrow> Inr plaintext)"

section \<open>The layout of a blob, for any AEAD\<close>

context aead_cipher
begin

lemma framed_open:
  "length nonce = NonceSize \<Longrightarrow>
   aead_Open gcm (take NonceSize (drop 1 ([version] @ nonce @ aead_Seal gcm nonce pt aad)))
     (drop (1 + NonceSize) ([version] @ nonce @ aead_Seal gcm nonce pt aad)) aad = Inr pt"
  by (simp add: open_seal)

lemma framed_sound:
  assumes "1 + NonceSize \<le> length blob" and "blob ! 0 = version"
    and "aead_Open gcm (take NonceSize (drop 1 blob)) (drop (1 + NonceSize) blob) aad = Inr pt"
  shows "\<exists>nonce. length nonce = NonceSize \<and>
    blob = version # nonce @ aead_Seal gcm nonce pt aad"
proof -
  let ?nonce = "take NonceSize (drop 1 blob)"
  have "drop (1 + NonceSize) blob = aead_Seal gcm ?nonce pt aad"
    using assms(3) by (rule open_sound)
  moreover have "blob = blob ! 0 # ?nonce @ drop (1 + NonceSize) blob"
    using assms(1) by (cases blob) (simp_all add: drop_Cons')
  moreover have "length ?nonce = NonceSize" using assms(1) by simp
  ultimately show ?thesis using assms(2) by metis
qed

end

section \<open>Correctness of sealing and opening\<close>

lemma newGCM_cases:
  "newGCM key =
     (if length key = KeySize then Inr (aes_aead key) else Inl (Sentinel ErrInvalidKeyLength))"
  by (simp add: newGCM_def aes_NewCipher_def cipher_NewGCM_def KeySize_def)

lemma Seal_good_key:
  "length key = KeySize \<Longrightarrow> rt_rand s 0 = Inr f \<Longrightarrow>
   Seal key pt aad s =
     (let nonce = map f [0..<NonceSize]
      in (Inr (version # nonce @ gcm_Seal (aes_encrypt key) nonce pt aad),
          s\<lparr>rt_rand := advance (rt_rand s)\<rparr>))"
  by (simp add: Seal_def newGCM_cases rand_Read_def Let_def)

lemma Seal_InrE:
  assumes "Seal key pt aad s = (Inr blob, s')"
  obtains nonce where "length key = KeySize" and "length nonce = NonceSize"
    and "blob = version # nonce @ gcm_Seal (aes_encrypt key) nonce pt aad"
    and "s' = s\<lparr>rt_rand := advance (rt_rand s)\<rparr>"
  using assms
  by (auto simp: Seal_def newGCM_cases rand_Read_def split: if_splits sum.splits)

lemma Seal_InlE:
  assumes "Seal key pt aad s = (Inl e, s')"
  obtains "length key \<noteq> KeySize" and "e = Sentinel ErrInvalidKeyLength" and "s' = s"
  | e' where "length key = KeySize" and "e = Wrap ''secret: generate nonce'' e'" and "opaque e'"
      and "s' = s\<lparr>rt_rand := advance (rt_rand s)\<rparr>"
  using assms
  by (auto simp: Seal_def newGCM_cases rand_Read_def split: if_splits sum.splits)

lemma Seal_state:
  "Seal key pt aad s = (r, s') \<Longrightarrow> s' = s \<or> s' = s\<lparr>rt_rand := advance (rt_rand s)\<rparr>"
  by (cases r) (auto elim: Seal_InrE Seal_InlE)

lemma Seal_frame [frame_simps]: "runtime.more (snd (Seal key pt aad s)) = runtime.more s"
  by (simp add: Seal_def rand_Read_def split: sum.splits prod.splits)

lemma Open_framed:
  "length key = KeySize \<Longrightarrow> length nonce = NonceSize \<Longrightarrow>
   Open key (version # nonce @ gcm_Seal (aes_encrypt key) nonce pt aad) aad = Inr pt"
  using aes_gcm.framed_open [of nonce key pt aad] by (simp add: Open_def newGCM_cases Let_def)

text \<open>
  Opening a sealed credential under the same key and associated data gives back the
  plaintext, for AES-256-GCM itself and whatever nonce was drawn.
\<close>
theorem Open_Seal:
  assumes "Seal key plaintext aad s = (Inr blob, s')"
  shows "Open key blob aad = Inr plaintext"
  using assms by (elim Seal_InrE) (simp add: Open_framed)

theorem Open_Seal_witness:
  "\<exists>blob s'. Seal (replicate 32 7) [1, 2, 3] (AAD ''a'' ''b'') calm_runtime = (Inr blob, s') \<and>
     Open (replicate 32 7) blob (AAD ''a'' ''b'') = Inr [1, 2, 3]"
proof -
  obtain blob s' where
    "Seal (replicate 32 7) [1, 2, 3] (AAD ''a'' ''b'') calm_runtime = (Inr blob, s')"
    by (simp add: Seal_good_key KeySize_def calm_runtime_def Let_def)
  with Open_Seal [OF this] show ?thesis by blast
qed

lemma Open_InrE:
  assumes "Open key blob aad = Inr plaintext"
  obtains nonce where "length key = 32" and "length nonce = 12"
    and "blob = 1 # nonce @ gcm_Seal (aes_encrypt key) nonce plaintext aad"
proof -
  from assms have "length key = KeySize" "1 + NonceSize \<le> length blob" "blob ! 0 = version"
    and "aead_Open (aes_aead key) (take NonceSize (drop 1 blob)) (drop (1 + NonceSize) blob) aad
      = Inr plaintext"
    by (auto simp: Open_def newGCM_cases Let_def split: if_splits sum.splits)
  then show ?thesis
    using that aes_gcm.framed_sound [of blob key aad plaintext]
    by (auto simp: KeySize_def NonceSize_def version_def)
qed

text \<open>
  C8: \<open>Open\<close> succeeds exactly on the blobs \<open>Seal\<close> writes: a 32-byte key, version byte 1, a
  12-byte nonce and the GCM sealing of the result under that nonce and this associated data.
  Any other bytes (a changed nonce, ciphertext, tag or version, or another field's associated
  data) give an error instead of a plaintext.
\<close>
theorem Open_iff_sealed:
  "Open key blob aad = Inr plaintext \<longleftrightarrow>
     length key = 32 \<and>
     (\<exists>nonce. length nonce = 12 \<and>
        blob = 1 # nonce @ gcm_Seal (aes_encrypt key) nonce plaintext aad)"
  using Open_framed [of key] Open_InrE
  by (auto simp: KeySize_def NonceSize_def version_def elim: Open_InrE)

text \<open>
  \<open>Open\<close> is total with exactly three failures, tried in this order: a key that is not 32
  bytes, a blob shorter than 13 bytes or with another version byte, and a failed
  authentication. In particular the errors of the cipher library never escape.
\<close>
theorem Open_errors:
  "Open key blob aad = Inl e \<longleftrightarrow>
     (if length key \<noteq> 32 then e = Sentinel ErrInvalidKeyLength
      else if length blob < 13 \<or> hd blob \<noteq> 1 then e = Sentinel ErrInvalidBlob
      else e = Sentinel ErrDecryptionFailed \<and>
        (\<forall>pt. drop 13 blob \<noteq> gcm_Seal (aes_encrypt key) (take 12 (tl blob)) pt aad))"
proof -
  have "(\<exists>e'. gcm_Open (aes_encrypt key) nonce c aad = Inl e') \<longleftrightarrow>
      (\<forall>pt. c \<noteq> gcm_Seal (aes_encrypt key) nonce pt aad)" for nonce c
    using aes_gcm.open_iff [of key nonce c aad, simplified]
    by (metis Inl_Inr_False sum.exhaust)
  then show ?thesis
    by (cases blob)
      (auto simp: Open_def newGCM_cases KeySize_def NonceSize_def version_def Let_def
        aes_gcm.open_iff [simplified] split: sum.splits)
qed

theorem Open_errors_witness:
  "Open (replicate 32 0) [1, 2] [] = Inl (Sentinel ErrInvalidBlob)"
  using Open_errors [of "replicate 32 0" "[1, 2]" "[]" "Sentinel ErrInvalidBlob"] by simp

text \<open>
  \<open>Seal\<close> rejects a key of the wrong length before it touches the random source, and with a
  good key it fails only if the random source does; the blob has the documented layout and
  length \<open>1 + 12 + n + 16\<close>.
\<close>
theorem Seal_cases:
  "Seal key plaintext aad s =
     (if length key \<noteq> 32 then (Inl (Sentinel ErrInvalidKeyLength), s)
      else (case rt_rand s 0 of
              Inl m \<Rightarrow> Inl (Wrap ''secret: generate nonce'' (ErrorString m))
            | Inr f \<Rightarrow> Inr (1 # map f [0..<12]
                 @ gcm_Seal (aes_encrypt key) (map f [0..<12]) plaintext aad),
            s\<lparr>rt_rand := advance (rt_rand s)\<rparr>))
   \<and> (\<forall>f. length key = 32 \<longrightarrow> rt_rand s 0 = Inr f \<longrightarrow>
        map_sum id length (fst (Seal key plaintext aad s)) = Inr (1 + 12 + length plaintext + 16))"
  by (simp add: Seal_def newGCM_cases rand_Read_def KeySize_def NonceSize_def version_def
      length_gcm_Seal split: sum.split)

theorem Seal_cases_witness:
  "map_sum id length (fst (Seal (replicate 32 0) [1, 2] [] calm_runtime)) = Inr 31"
  using Seal_cases [of "replicate 32 0" "[1, 2]" "[]" calm_runtime, THEN conjunct2, rule_format,
      of "\<lambda>j. 0"]
  by (simp add: calm_runtime_def)

section \<open>Domain separation of the associated data\<close>

lemma append_zero_inject:
  assumes "0 \<notin> set xs" and "0 \<notin> set xs'" and "xs @ 0 # ys = xs' @ 0 # (ys' :: bytes)"
  shows "xs = xs' \<and> ys = ys'"
  using assms by (induction xs arbitrary: xs') (auto simp: Cons_eq_append_conv append_eq_Cons_conv)

text \<open>
  The associated data identifies the provider and the field: for provider ids without a NUL
  byte, two pairs with the same associated data are the same pair, so
  \<open>(''a'', ''bc'')\<close> and \<open>(''ab'', ''c'')\<close> are kept apart.
\<close>
theorem AAD_inject:
  assumes "CHR 0x00 \<notin> set p" and "CHR 0x00 \<notin> set p'"
  shows "AAD p f = AAD p' f' \<longleftrightarrow> p = p' \<and> f = f'"
proof
  assume "AAD p f = AAD p' f'"
  then have "bytes_of_string p @ 0 # bytes_of_string f
      = bytes_of_string p' @ 0 # bytes_of_string f'"
    by (simp add: AAD_def)
  from append_zero_inject [OF _ _ this] show "p = p' \<and> f = f'"
    using assms by (simp add: zero_in_bytes_of_string)
qed simp

theorem AAD_inject_witness:
  "CHR 0x00 \<notin> set ''a'' \<and> AAD ''a'' ''bc'' \<noteq> AAD ''ab'' ''c''"
  using AAD_inject [of "''a''" "''ab''" "''bc''" "''c''"] by simp

text \<open>Without the hypothesis the separation fails: a NUL inside an id moves the boundary.\<close>

lemma AAD_nul_collision: "AAD (''a'' @ [CHR 0x00] @ ''b'') ''c'' = AAD ''a'' (''b'' @ [CHR 0x00] @ ''c'')"
  by (simp add: AAD_def bytes_of_string_def)

end
