(* ===== verification/Credential.thy ===== *)
theory Credential
  imports Sqlite Secret
begin

text \<open>
  \<^verbatim>\<open>internal/credential/credential.go\<close>: sealing credential values before they reach
  the repository, and opening them for the fetch path. The master key is fixed when the service
  is built, and the cooldown clearer is optional, as in the source. A Go map that the code
  ranges over is the list of its entries in the order the runtime iterates them (keys distinct),
  so every statement about all such lists is a statement about every iteration order.
\<close>

section \<open>The service\<close>

record 's credential_service =
  cs_repo :: "'s credential_repository"
  cs_masterKey :: bytes
  cs_cooldown :: "(string \<Rightarrow> 's \<Rightarrow> 's) option"

definition NewCredentialService ::
    "'s credential_repository \<Rightarrow> bytes \<Rightarrow> (string \<Rightarrow> 's \<Rightarrow> 's) option \<Rightarrow> 's credential_service" where
  "NewCredentialService repo key cooldown =
     \<lparr>cs_repo = repo, cs_masterKey = key, cs_cooldown = cooldown\<rparr>"

fun set_values ::
    "('z runtime_scheme) credential_service \<Rightarrow> string \<Rightarrow> (string \<times> string) list
       \<Rightarrow> 'z runtime_scheme \<Rightarrow> unit result \<times> 'z runtime_scheme" where
  "set_values svc p [] s = (Inr (), s)"
| "set_values svc p ((field, v) # vs) s =
     (case Seal (cs_masterKey svc) (bytes_of_string v) (AAD p field) s of
        (Inl e, s1) \<Rightarrow> (Inl (Wrap (''credential: seal '' @ p @ ''/'' @ field) e), s1)
      | (Inr blob, s1) \<Rightarrow>
          (case cred_Upsert (cs_repo svc) p field blob s1 of
             (Inl e, s2) \<Rightarrow> (Inl (Wrap (''credential: upsert '' @ p @ ''/'' @ field) e), s2)
           | (Inr _, s2) \<Rightarrow> set_values svc p vs s2))"

definition SetValues ::
    "('z runtime_scheme) credential_service \<Rightarrow> string \<Rightarrow> (string \<times> string) list
       \<Rightarrow> 'z runtime_scheme \<Rightarrow> unit result \<times> 'z runtime_scheme" where
  "SetValues svc p vs s =
     (case set_values svc p vs s of
        (Inl e, s1) \<Rightarrow> (Inl e, s1)
      | (Inr _, s1) \<Rightarrow>
          (Inr (), (case cs_cooldown svc of None \<Rightarrow> s1 | Some clear \<Rightarrow> clear p s1)))"

definition Presence ::
    "'s credential_service \<Rightarrow> string \<Rightarrow> 's \<Rightarrow> (string \<Rightarrow> bool) result \<times> 's" where
  "Presence svc p s =
     (case cred_Presence (cs_repo svc) p s of
        (Inl e, s1) \<Rightarrow> (Inl (Wrap (''credential: presence '' @ p) e), s1)
      | (Inr m, s1) \<Rightarrow> (Inr m, s1))"

definition Delete :: "'s credential_service \<Rightarrow> string \<Rightarrow> 's \<Rightarrow> unit result \<times> 's" where
  "Delete svc p s =
     (case cred_Delete (cs_repo svc) p s of
        (Inl e, s1) \<Rightarrow> (Inl (Wrap (''credential: delete '' @ p) e), s1)
      | (Inr _, s1) \<Rightarrow> (Inr (), s1))"

definition Reveal ::
    "'s credential_service \<Rightarrow> string \<Rightarrow> string \<Rightarrow> 's \<Rightarrow> string result \<times> 's" where
  "Reveal svc p field s =
     (case cred_GetSecret (cs_repo svc) p field s of
        (Inl e, s1) \<Rightarrow> (Inl (Wrap (''credential: get secret '' @ p @ ''/'' @ field) e), s1)
      | (Inr blob, s1) \<Rightarrow>
          (case Open (cs_masterKey svc) blob (AAD p field) of
             Inl e \<Rightarrow> (Inl (Wrap (''credential: open '' @ p @ ''/'' @ field) e), s1)
           | Inr plaintext \<Rightarrow> (Inr (string_of_bytes plaintext), s1)))"

section \<open>What the stored blobs reveal\<close>

definition opens_to :: "bytes \<Rightarrow> string \<Rightarrow> string \<Rightarrow> bytes option \<Rightarrow> string option" where
  "opens_to key p field stored =
     (case stored of None \<Rightarrow> None
      | Some blob \<Rightarrow>
          (case Open key blob (AAD p field) of
             Inl _ \<Rightarrow> None | Inr pt \<Rightarrow> Some (string_of_bytes pt)))"

lemma opens_to_sealed:
  "Seal key (bytes_of_string v) (AAD p field) s = (Inr blob, s') \<Longrightarrow>
   opens_to key p field (Some blob) = Some v"
  by (elim Seal_InrE) (simp add: opens_to_def Open_framed)

text \<open>
  A credential repository over a state with a runtime: drawing random bytes leaves it alone.
\<close>

locale runtime_credential_repo = credential_repo repo wf secrets rest
  for repo :: "('z runtime_scheme) credential_repository" and wf secrets
    and rest :: "'z runtime_scheme \<Rightarrow> 'r" +
  assumes rand_law: "wf (s\<lparr>rt_rand := f\<rparr>) = wf s" "secrets (s\<lparr>rt_rand := f\<rparr>) = secrets s"
    "rest (s\<lparr>rt_rand := f\<rparr>) = rest s"
begin

lemma Seal_keeps:
  assumes "Seal key pt aad s = (r, s')"
  shows "wf s' = wf s" and "secrets s' = secrets s" and "rest s' = rest s"
  using Seal_state [OF assms] by (auto simp: rand_law)

lemma set_values_client:
  assumes "wf s" and "cs_repo svc = repo" and "distinct (map fst vs)"
    and "set_values svc p vs s = (r, s')"
  shows "wf s' \<and> rest s' = rest s \<and>
    (\<forall>q f. q \<noteq> p \<or> f \<notin> fst ` set vs \<longrightarrow> secrets s' q f = secrets s q f) \<and>
    (\<forall>(f, v) \<in> set vs. secrets s' p f = secrets s p f
        \<or> opens_to (cs_masterKey svc) p f (secrets s' p f) = Some v) \<and>
    (case r of
       Inl e \<Rightarrow> opaque e \<or> errors_is e ErrInvalidKeyLength \<and> length (cs_masterKey svc) \<noteq> KeySize
     | Inr _ \<Rightarrow> \<forall>(f, v) \<in> set vs. opens_to (cs_masterKey svc) p f (secrets s' p f) = Some v)"
  using assms
proof (induction vs arbitrary: s)
  case Nil
  then show ?case by auto
next
  case (Cons fv vs)
  obtain f v where fv: "fv = (f, v)" by fastforce
  obtain sealed s1 where seal:
    "Seal (cs_masterKey svc) (bytes_of_string v) (AAD p f) s = (sealed, s1)" by fastforce
  note s1 = Seal_keeps [OF seal]
  show ?case
  proof (cases sealed)
    case (Inl e)
    with seal have "opaque e \<or> e = Sentinel ErrInvalidKeyLength \<and> length (cs_masterKey svc) \<noteq> KeySize"
      by (auto elim: Seal_InlE)
    with Inl seal fv s1 Cons.prems show ?thesis by auto
  next
    case (Inr blob)
    obtain u s2 where upsert: "cred_Upsert repo p f blob s1 = (u, s2)" by fastforce
    note law = Upsert_law [OF s1(1) [THEN iffD2, OF Cons.prems(1)] upsert]
    show ?thesis
    proof (cases u)
      case (Inl e)
      with Inr seal fv s1 upsert law Cons.prems show ?thesis by auto
    next
      case Done: (Inr x)
      have rest: "set_values svc p vs s2 = (r, s')" "wf s2" "distinct (map fst vs)"
        using Cons.prems(2-4) fv seal Inr upsert Done law by simp_all
      note IH = Cons.IH [OF rest(2) Cons.prems(2) rest(3,1)]
      have notin: "f \<notin> fst ` set vs" using Cons.prems(3) fv by auto
      have mine: "opens_to (cs_masterKey svc) p f (secrets s' p f) = Some v"
        using IH law Done notin opens_to_sealed [OF seal [unfolded Inr]] by simp
      have other: "secrets s2 q g = secrets s q g" if "q \<noteq> p \<or> g \<noteq> f" for q g
        using law Done s1 that by auto
      have "wf s' \<and> rest s' = rest s" using IH law s1 by simp
      moreover have "secrets s' q g = secrets s q g" if "q \<noteq> p \<or> g \<notin> fst ` set (fv # vs)" for q g
        using that IH other [of q g] fv by auto
      moreover have "secrets s' p g = secrets s p g
          \<or> opens_to (cs_masterKey svc) p g (secrets s' p g) = Some w" if "(g, w) \<in> set (fv # vs)" for g w
        using that IH other [of p g] mine fv notin by (cases "(g, w) = fv") force+
      ultimately show ?thesis using IH mine fv by (auto split: sum.splits)
    qed
  qed
qed

end

lemma Open_error_kinds:
  "Open key blob aad = Inl e \<Longrightarrow>
     e \<in> Sentinel ` {ErrInvalidKeyLength, ErrInvalidBlob, ErrDecryptionFailed}"
  by (auto simp: Open_def newGCM_cases Let_def split: if_splits sum.splits)

context credential_repo
begin

lemma Reveal_client:
  assumes "wf s" and "cs_repo svc = repo" and "Reveal svc p f s = (r, s')"
  shows "wf s' \<and> secrets s' = secrets s \<and> rest s' = rest s \<and>
    (case r of
       Inr v \<Rightarrow> opens_to (cs_masterKey svc) p f (secrets s p f) = Some v
     | Inl e \<Rightarrow> errors_is e ErrNotFound \<and> secrets s p f = None
         \<or> opaque e
         \<or> (\<exists>x \<in> {ErrInvalidKeyLength, ErrInvalidBlob, ErrDecryptionFailed}. errors_is e x) \<and>
           secrets s p f \<noteq> None \<and> opens_to (cs_masterKey svc) p f (secrets s p f) = None)"
proof -
  obtain g s1 where get: "cred_GetSecret repo p f s = (g, s1)" by fastforce
  note law = GetSecret_law [OF assms(1) get]
  show ?thesis
  proof (cases g)
    case (Inl e)
    with law get assms(2,3) show ?thesis by (auto simp: Reveal_def)
  next
    case (Inr blob)
    with law get assms(2,3) show ?thesis
      by (auto simp: Reveal_def opens_to_def dest: Open_error_kinds split: sum.splits)
  qed
qed

lemma Presence_client:
  assumes "wf s" and "cs_repo svc = repo" and "Presence svc p s = (r, s')"
  shows "wf s' \<and> secrets s' = secrets s \<and> rest s' = rest s \<and>
    (case r of Inl e \<Rightarrow> opaque e | Inr m \<Rightarrow> m = (\<lambda>f. secrets s p f \<noteq> None))"
proof -
  obtain m s1 where "cred_Presence repo p s = (m, s1)" by fastforce
  with Presence_law [OF assms(1) this] assms(2,3) show ?thesis
    by (cases m) (auto simp: Presence_def)
qed

lemma Delete_client:
  assumes "wf s" and "cs_repo svc = repo" and "Delete svc p s = (r, s')"
  shows "wf s' \<and> rest s' = rest s \<and>
    (case r of Inl e \<Rightarrow> opaque e \<and> secrets s' = secrets s
     | Inr _ \<Rightarrow> secrets s' = (secrets s)(p := (\<lambda>_. None)))"
proof -
  obtain d s1 where "cred_Delete repo p s = (d, s1)" by fastforce
  with Delete_law [OF assms(1) this] assms(2,3) show ?thesis
    by (cases d) (auto simp: Delete_def)
qed

end

text \<open>With a clearer wired in, as \<^verbatim>\<open>cmd/aud\<close> does.\<close>

locale gated_credential_repo =
  runtime_credential_repo repo wf secrets rest + cooldown_clearer clear gated
  for repo :: "('z runtime_scheme) credential_repository" and wf secrets
    and rest :: "'z runtime_scheme \<Rightarrow> 'r" and clear and gated +
  assumes clear_law: "wf (clear p s) = wf s" "secrets (clear p s) = secrets s"
begin

lemma SetValues_client:
  assumes "wf s" and "cs_repo svc = repo" and "distinct (map fst vs)"
    and "cs_cooldown svc = Some clear" and "SetValues svc p vs s = (r, s')"
  shows "wf s' \<and>
    (\<forall>q f. q \<noteq> p \<or> f \<notin> fst ` set vs \<longrightarrow> secrets s' q f = secrets s q f) \<and>
    (\<forall>(f, v) \<in> set vs. secrets s' p f = secrets s p f
        \<or> opens_to (cs_masterKey svc) p f (secrets s' p f) = Some v) \<and>
    (case r of
       Inl e \<Rightarrow> opaque e \<or> errors_is e ErrInvalidKeyLength \<and> length (cs_masterKey svc) \<noteq> KeySize
     | Inr _ \<Rightarrow> \<not> gated s' p \<and>
         (\<forall>(f, v) \<in> set vs. opens_to (cs_masterKey svc) p f (secrets s' p f) = Some v))"
proof -
  obtain u s1 where set: "set_values svc p vs s = (u, s1)" by fastforce
  from set_values_client [OF assms(1-3) set] set assms(4,5) show ?thesis
    by (cases u) (auto simp: SetValues_def clear_law gated_clear)
qed

end

text \<open>
  A working repository over a random source that answers: every set with a key of the right
  length succeeds. Storing a blob draws no randomness.
\<close>

definition entropy :: "'z runtime_scheme \<Rightarrow> bool" where
  "entropy s \<longleftrightarrow> (\<forall>i. \<exists>f. rt_rand s i = Inr f)"

locale working_credential_repo =
  runtime_credential_repo repo wf secrets rest + reliable_credential_repo repo wf secrets rest healthy
  for repo :: "('z runtime_scheme) credential_repository" and wf secrets
    and rest :: "'z runtime_scheme \<Rightarrow> 'r" and healthy +
  assumes rand_healthy: "healthy (s\<lparr>rt_rand := f\<rparr>) = healthy s"
    and Upsert_rand: "cred_Upsert repo p n c s = (up_r, s') \<Longrightarrow> rt_rand s' = rt_rand s"
begin

lemma set_values_works:
  assumes "cs_repo svc = repo" and "length (cs_masterKey svc) = KeySize"
  shows "wf s \<Longrightarrow> healthy s \<Longrightarrow> entropy s \<Longrightarrow> \<exists>t. set_values svc p vs s = (Inr (), t) \<and> healthy t"
proof (induction vs arbitrary: s)
  case (Cons fv vs)
  obtain f v where fv: "fv = (f, v)" by fastforce
  obtain g where g: "rt_rand s 0 = Inr g" using Cons.prems(3) by (auto simp: entropy_def)
  obtain blob s1 where seal: "Seal (cs_masterKey svc) (bytes_of_string v) (AAD p f) s = (Inr blob, s1)"
    using Seal_good_key [OF assms(2) g] by (simp add: Let_def)
  note Seal_keeps [OF seal]
  moreover have "healthy s1" "entropy s1"
    using Seal_state [OF seal] Cons.prems(2,3) rand_healthy by (auto simp: entropy_def advance_def)
  ultimately obtain s2 where up: "cred_Upsert repo p f blob s1 = (Inr (), s2)" "healthy s2"
    using Upsert_healthy Cons.prems(1) by blast
  have "wf s2" "entropy s2"
    using Upsert_law [OF _ up(1)] \<open>wf s1 = wf s\<close> Cons.prems(1) Upsert_rand [OF up(1)] \<open>entropy s1\<close>
    by (auto simp: entropy_def)
  with Cons.IH [of s2] up seal assms(1) show ?case by (simp add: fv)
qed simp

end

section \<open>The service over SQLite\<close>

interpretation sqlite_gated: gated_credential_repo
  sqlite_credentials wf_db secret_in credentials_rest Clear gated_in
  by unfold_locales simp_all

interpretation sqlite_working: working_credential_repo
  sqlite_credentials wf_db secret_in credentials_rest reliable_db
  by unfold_locales
    (auto simp: sqlite_credentials_def sqlite_Upsert_def time_Now_def db_call_def Let_def split: option.splits)

text \<open>
  C1: Round trip: after a credential set succeeds, whatever order the map was iterated in,
  revealing any submitted field returns its value; only the database itself can prevent it.
  On a working database it always does. In between the value went through AES-256-GCM and the
  credentials table.
\<close>
theorem SetValues_Reveal:
  assumes "wf_db s" and "cs_repo svc = sqlite_credentials" and "cs_cooldown svc = Some Clear"
    and "distinct (map fst vs)" and "(field, v) \<in> set vs"
    and "SetValues svc p vs s = (Inr (), s1)" and "Reveal svc p field s1 = (r, s2)"
  shows "(r = Inr v \<or> (\<exists>e. r = Inl e \<and> opaque e)) \<and> (reliable_db s1 \<longrightarrow> r = Inr v)"
proof -
  from sqlite_gated.SetValues_client [OF assms(1,2,4,3,6)] assms(5)
  have wf: "wf_db s1" and v: "opens_to (cs_masterKey svc) p field (secret_in s1 p field) = Some v"
    by auto
  from sqlite_cred.Reveal_client [OF wf assms(2,7)] v
  have "r = Inr v \<or> (\<exists>e. r = Inl e \<and> opaque e)"
    by (cases r) (auto simp: opens_to_def)
  moreover have "\<not> opaque e" if "reliable_db s1" "r = Inl e" for e
  proof -
    from v obtain blob where "secret_in s1 p field \<noteq> None" by (auto simp: opens_to_def split: option.splits)
    with sqlite_cred.GetSecret_healthy [OF wf that(1)] obtain c s'
      where "cred_GetSecret sqlite_credentials p field s1 = (Inr c, s')" by blast
    with assms(2,7) that(2) show ?thesis
      by (auto simp: Reveal_def opaque_def dest!: Open_error_kinds split: sum.splits)
  qed
  ultimately show ?thesis by auto
qed

text \<open>
  C27: A credential set, also one that fails half way, touches nothing but the submitted fields of
  its provider: the other two tables and every other stored value are as they were, and each
  submitted field either keeps its old blob or holds a sealing of its new value, never anything in
  between. It un-gates exactly that provider exactly when it succeeds: a failing set leaves every
  cooldown as it was.
\<close>
theorem SetValues_frame:
  assumes "wf_db s" and "cs_repo svc = sqlite_credentials" and "cs_cooldown svc = Some Clear"
    and "distinct (map fst vs)" and "SetValues svc p vs s = (r, s1)"
  shows "wf_db s1 \<and> db_providers s1 = db_providers s \<and> db_snapshots s1 = db_snapshots s \<and>
    (\<forall>q f. q \<noteq> p \<or> f \<notin> fst ` set vs \<longrightarrow> secret_in s1 q f = secret_in s q f) \<and>
    (\<forall>(f, v) \<in> set vs. secret_in s1 p f = secret_in s p f
        \<or> opens_to (cs_masterKey svc) p f (secret_in s1 p f) = Some v) \<and>
    entries s1 = (case r of Inl e \<Rightarrow> entries s | Inr _ \<Rightarrow> (entries s)(p := None))"
proof -
  obtain u t where set: "set_values svc p vs s = (u, t)" by fastforce
  from sqlite_gated.set_values_client [OF assms(1,2,4) set]
  have rest: "credentials_rest t = credentials_rest s" by simp
  then have tables: "db_providers t = db_providers s" "db_snapshots t = db_snapshots s" "entries t = entries s"
    by (simp_all add: credentials_rest_def outside_tables_def)
  have "db_providers s1 = db_providers s" "db_snapshots s1 = db_snapshots s"
    "entries s1 = (case r of Inl e \<Rightarrow> entries s | Inr _ \<Rightarrow> (entries s)(p := None))"
    using set assms(3,5) tables by (auto simp: SetValues_def Clear_def split: sum.splits)
  then show ?thesis
    using sqlite_gated.SetValues_client [OF assms(1,2,4,3,5)] by (cases r) auto
qed

text \<open>
  Deleting a provider's credentials clears all of them and no one else's: afterwards its
  presence is all false, revealing any field is not found, and every other provider's blobs are
  as they were; deleting again succeeds likewise.
\<close>
theorem Delete_clears:
  assumes "wf_db s" and "cs_repo svc = sqlite_credentials" and "Delete svc p s = (Inr (), s1)"
  shows "(\<forall>m s2. Presence svc p s1 = (Inr m, s2) \<longrightarrow> m = (\<lambda>_. False)) \<and>
    (\<forall>f r s2. Reveal svc p f s1 = (r, s2) \<longrightarrow>
       (\<exists>e. r = Inl e \<and> (errors_is e ErrNotFound \<or> opaque e))) \<and>
    (\<forall>q f. q \<noteq> p \<longrightarrow> secret_in s1 q f = secret_in s q f) \<and>
    (\<forall>r s2. Delete svc p s1 = (r, s2) \<longrightarrow> secret_in s2 = secret_in s1)"
proof -
  from sqlite_cred.Delete_client [OF assms]
  have s1: "wf_db s1" "secret_in s1 = (secret_in s)(p := (\<lambda>_. None))" by auto
  have "m = (\<lambda>_. False)" if "Presence svc p s1 = (Inr m, s2)" for m s2
    using sqlite_cred.Presence_client [OF s1(1) assms(2) that] s1(2) by auto
  moreover have "\<exists>e. r = Inl e \<and> (errors_is e ErrNotFound \<or> opaque e)"
    if "Reveal svc p f s1 = (r, s2)" for f r s2
    using sqlite_cred.Reveal_client [OF s1(1) assms(2) that] s1(2)
    by (cases r) (auto simp: opens_to_def)
  moreover have "secret_in s2 = secret_in s1" if "Delete svc p s1 = (r, s2)" for r s2
    using sqlite_cred.Delete_client [OF s1(1) assms(2) that] s1(2) by (cases r) auto
  ultimately show ?thesis using s1(2) by (auto simp: fun_eq_iff)
qed

text \<open>The blobs that are a sealing of a value for a row under a key.\<close>

definition sealing_of :: "bytes \<Rightarrow> string \<Rightarrow> string \<Rightarrow> string \<Rightarrow> bytes \<Rightarrow> bool" where
  "sealing_of key p f v blob \<longleftrightarrow>
     length key = 32 \<and> (\<exists>nonce. length nonce = 12 \<and>
       blob = 1 # nonce @ gcm_Seal (aes_encrypt key) nonce (bytes_of_string v) (AAD p f))"

lemma Open_sealing: "Open key blob (AAD p f) = Inr pt \<longleftrightarrow> sealing_of key p f (string_of_bytes pt) blob"
  using Open_framed [of key _ pt "AAD p f"]
  by (auto simp: sealing_of_def KeySize_def NonceSize_def version_def elim: Open_InrE)

text \<open>
  C28: What a read of a stored credential answers is decided by the row alone, unless the database
  fails: without a row it is not found; with one, it is a value exactly when the row is a sealing
  of that value for this provider and this field under the master key, and a decryption error
  otherwise, so a blob copied from another row passes only if it is itself a sealing under this
  row's associated data.
\<close>
theorem Reveal_cases:
  assumes "wf_db s" and "cs_repo svc = sqlite_credentials" and "Reveal svc p f s = (r, s')"
  shows "secret_in s' = secret_in s \<and>
    (\<not> reliable_db s \<and> (\<exists>e. r = Inl e \<and> opaque e) \<or>
     (case secret_in s p f of
        None \<Rightarrow> \<exists>e. r = Inl e \<and> errors_is e ErrNotFound
      | Some blob \<Rightarrow>
          (\<forall>v. r = Inr v \<longleftrightarrow> sealing_of (cs_masterKey svc) p f v blob) \<and>
          (case r of Inr v \<Rightarrow> True
           | Inl e \<Rightarrow> \<exists>x \<in> {ErrInvalidKeyLength, ErrInvalidBlob, ErrDecryptionFailed}. errors_is e x)))"
proof -
  obtain g t where get: "cred_GetSecret sqlite_credentials p f s = (g, t)" by fastforce
  have r: "(r, s') = (case g of
      Inl e \<Rightarrow> (Inl (Wrap (''credential: get secret '' @ p @ ''/'' @ f) e), t)
    | Inr blob \<Rightarrow> (case Open (cs_masterKey svc) blob (AAD p f) of
        Inl e \<Rightarrow> (Inl (Wrap (''credential: open '' @ p @ ''/'' @ f) e), t)
      | Inr pt \<Rightarrow> (Inr (string_of_bytes pt), t)))"
    using assms(2,3) get by (auto simp: Reveal_def split: sum.splits)
  note law = sqlite_cred.GetSecret_law [OF assms(1) get]
  show ?thesis
  proof (cases g)
    case (Inl e)
    have "\<not> reliable_db s" if "e \<noteq> Sentinel ErrNotFound"
      using that Inl get law sqlite_cred.GetSecret_healthy [OF assms(1), of p f]
        sqlite_cred.GetSecret_absent [OF assms(1), of p f] by (cases "secret_in s p f") auto
    moreover have s': "secret_in s' = secret_in s" "\<exists>m. r = Inl (Wrap m e)" using r law Inl by auto
    ultimately show ?thesis using law Inl by (cases "e = Sentinel ErrNotFound") auto
  next
    case (Inr blob)
    with law have blob: "secret_in s p f = Some blob" "secret_in t = secret_in s" by auto
    show ?thesis
    proof (cases "Open (cs_masterKey svc) blob (AAD p f)")
      case err: (Inl e)
      then have "\<not> sealing_of (cs_masterKey svc) p f v blob" for v
        using Open_sealing [of "cs_masterKey svc" blob p f "bytes_of_string v"] by auto
      with Inr r blob err Open_error_kinds [OF err] show ?thesis by auto
    next
      case ok: (Inr pt)
      have "sealing_of (cs_masterKey svc) p f v blob \<longleftrightarrow> v = string_of_bytes pt" for v
        using Open_sealing [of "cs_masterKey svc" blob p f "bytes_of_string v"] ok
        by auto
      with Inr r blob ok show ?thesis by auto
    qed
  qed
qed

text \<open>A concrete set, for the instances of the properties.\<close>

definition demo_credentials :: "host credential_service" where
  "demo_credentials = NewCredentialService sqlite_credentials (replicate 32 7) (Some Clear)"

lemma demo_credentials_simps [simp]:
  "cs_repo demo_credentials = sqlite_credentials" "cs_cooldown demo_credentials = Some Clear"
  "cs_masterKey demo_credentials = replicate 32 7"
  by (simp_all add: demo_credentials_def NewCredentialService_def)

lemma demo_SetValues:
  obtains s1 where "SetValues demo_credentials ''minimax'' [(''subscription_key'', ''k'')] empty_host
      = (Inr (), s1)" and "reliable_db s1"
proof -
  let ?key = "replicate 32 7 :: bytes"
  have len: "length ?key = KeySize" by (simp add: KeySize_def)
  have rand: "rt_rand empty_host 0 = Inr (\<lambda>j. 0)"
    by (simp add: empty_host_def calm_runtime_def)
  obtain blob s1 where seal: "Seal ?key (bytes_of_string ''k'')
      (AAD ''minimax'' ''subscription_key'') empty_host = (Inr blob, s1)"
    using Seal_good_key [OF len rand] by (simp add: Let_def)
  have "wf_db s1" "reliable_db s1"
    using Seal_state [OF seal] by auto
  with sqlite_cred.Upsert_healthy obtain s2 where
    "cred_Upsert sqlite_credentials ''minimax'' ''subscription_key'' blob s1 = (Inr (), s2)"
    "reliable_db s2" by blast
  with seal show ?thesis
    by (intro that [of "Clear ''minimax'' s2"]) (simp_all add: SetValues_def)
qed

theorem SetValues_Reveal_witness:
  "\<exists>s1 s2. SetValues demo_credentials ''minimax'' [(''subscription_key'', ''k'')] empty_host
       = (Inr (), s1) \<and>
     Reveal demo_credentials ''minimax'' ''subscription_key'' s1 = (Inr ''k'', s2)"
proof -
  obtain s1 where s1: "SetValues demo_credentials ''minimax'' [(''subscription_key'', ''k'')]
      empty_host = (Inr (), s1)" "reliable_db s1" by (rule demo_SetValues)
  obtain r s2 where r: "Reveal demo_credentials ''minimax'' ''subscription_key'' s1 = (r, s2)"
    by fastforce
  have "r = Inr ''k''"
    using SetValues_Reveal [OF empty_host_simps(1) demo_credentials_simps(1,2) _ _ s1(1) r] s1(2)
    by simp
  with s1 r show ?thesis by blast
qed

theorem SetValues_frame_witness:
  "\<exists>s1. SetValues demo_credentials ''minimax'' [(''subscription_key'', ''k'')] empty_host
       = (Inr (), s1) \<and> secret_in s1 ''openai'' ''api_key'' = None \<and> entries s1 ''minimax'' = None"
proof -
  obtain s1 where s1: "SetValues demo_credentials ''minimax'' [(''subscription_key'', ''k'')]
      empty_host = (Inr (), s1)" by (rule demo_SetValues)
  with SetValues_frame [OF empty_host_simps(1) demo_credentials_simps(1,2) _ s1]
  show ?thesis by simp
qed

theorem Delete_clears_witness:
  "\<exists>s1. Delete demo_credentials ''minimax'' empty_host = (Inr (), s1) \<and>
     (\<forall>m s2. Presence demo_credentials ''minimax'' s1 = (Inr m, s2) \<longrightarrow> \<not> m ''subscription_key'')"
proof -
  obtain s1 where "cred_Delete sqlite_credentials ''minimax'' empty_host = (Inr (), s1)"
    using sqlite_cred.Delete_healthy [OF empty_host_simps(1,2)] by blast
  then have del: "Delete demo_credentials ''minimax'' empty_host = (Inr (), s1)"
    by (simp add: Delete_def)
  from Delete_clears [OF empty_host_simps(1) demo_credentials_simps(1) del, THEN conjunct1] del
  show ?thesis by auto
qed

theorem Reveal_cases_witness:
  "\<exists>s1 s2 blob. SetValues demo_credentials ''minimax'' [(''subscription_key'', ''k'')] empty_host
       = (Inr (), s1) \<and>
     secret_in s1 ''minimax'' ''subscription_key'' = Some blob \<and>
     sealing_of (replicate 32 7) ''minimax'' ''subscription_key'' ''k'' blob \<and>
     Reveal demo_credentials ''minimax'' ''subscription_key'' s1 = (Inr ''k'', s2)"
proof -
  obtain s1 where s1: "SetValues demo_credentials ''minimax'' [(''subscription_key'', ''k'')]
      empty_host = (Inr (), s1)" "reliable_db s1" by (rule demo_SetValues)
  from sqlite_gated.SetValues_client [OF empty_host_simps(1) demo_credentials_simps(1) _
      demo_credentials_simps(2) s1(1)]
  have wf: "wf_db s1" and k: "opens_to (replicate 32 7) ''minimax'' ''subscription_key''
      (secret_in s1 ''minimax'' ''subscription_key'') = Some ''k''" by simp_all
  then obtain blob pt where blob: "secret_in s1 ''minimax'' ''subscription_key'' = Some blob"
    and sealed: "Open (replicate 32 7) blob (AAD ''minimax'' ''subscription_key'') = Inr pt"
      "string_of_bytes pt = ''k''"
    by (auto simp: opens_to_def split: option.splits sum.splits)
  then have "sealing_of (replicate 32 7) ''minimax'' ''subscription_key'' ''k'' blob"
    using Open_sealing [of "replicate 32 7" blob "''minimax''" "''subscription_key''" pt] by simp
  moreover obtain r s2 where r: "Reveal demo_credentials ''minimax'' ''subscription_key'' s1 = (r, s2)"
    by fastforce
  moreover have "r = Inr ''k''"
    using Reveal_cases [OF wf demo_credentials_simps(1) r] s1(2) blob calculation(1) by simp
  ultimately show ?thesis using s1(1) blob by blast
qed

end
