(* ===== verification/Json.thy ===== *)
theory Json
  imports Go_Errors
begin

text \<open>
  What the program uses of \<^verbatim>\<open>encoding/json\<close>: the value tree, the compact
  encoder (with its HTML-safe string escapes), the scanner and parser that
  \<^verbatim>\<open>json.Unmarshal\<close> and \<^verbatim>\<open>json.Decoder\<close> run on received
  bytes, and the decoding of a value into Go integers, strings, pointers, slices, maps and
  structs. A \<open>JStr\<close> and an object key hold the text between the quotes as it is written,
  escapes included; a \<open>JNum\<close> holds the literal.

  Every caller drops the destination when decoding fails, so a decoder returns an option: the
  value, or \<open>None\<close> for any of the errors that \<^verbatim>\<open>Unmarshal\<close> reports.
\<close>

datatype json =
    JNull
  | JBool bool
  | JNum string
  | JStr string
  | JArr "json list"
  | JObj "(string \<times> json) list"

section \<open>Characters and UTF-8\<close>

definition dquote :: char where
  "dquote = CHR 0x22"

definition backslash :: char where
  "backslash = CHR 0x5C"

definition is_ws :: "char \<Rightarrow> bool" where
  "is_ws c \<longleftrightarrow> c = CHR 0x20 \<or> c = CHR 0x09 \<or> c = CHR 0x0D \<or> c = CHR 0x0A"

definition skip_ws :: "string \<Rightarrow> string" where
  "skip_ws s = dropWhile is_ws s"

abbreviation code :: "char \<Rightarrow> nat" where
  "code c \<equiv> of_char c"

definition is_digit :: "char \<Rightarrow> bool" where
  "is_digit c \<longleftrightarrow> 48 \<le> code c \<and> code c \<le> 57"

definition hex_value :: "char \<Rightarrow> nat option" where
  "hex_value c =
     (if is_digit c then Some (code c - 48)
      else if 97 \<le> code c \<and> code c \<le> 102 then Some (code c - 87)
      else if 65 \<le> code c \<and> code c \<le> 70 then Some (code c - 55)
      else None)"

definition hex_digit :: "nat \<Rightarrow> char" where
  "hex_digit d = (if d < 10 then char_of (48 + d) else char_of (87 + d))"

text \<open>
  \<^verbatim>\<open>utf8.DecodeRune\<close>: the length of the well-formed sequence that the string
  starts with, 0 if it starts with none (Go then reports \<^verbatim>\<open>RuneError\<close> and skips
  one byte).
\<close>

definition in_range :: "nat \<Rightarrow> nat \<Rightarrow> char \<Rightarrow> bool" where
  "in_range lo hi c \<longleftrightarrow> lo \<le> code c \<and> code c \<le> hi"

definition utf8_two :: "char \<Rightarrow> char \<Rightarrow> bool" where
  "utf8_two a b \<longleftrightarrow> in_range 0xC2 0xDF a \<and> in_range 0x80 0xBF b"

definition utf8_three :: "char \<Rightarrow> char \<Rightarrow> char \<Rightarrow> bool" where
  "utf8_three a b c \<longleftrightarrow> in_range 0xE0 0xEF a \<and> in_range 0x80 0xBF c \<and>
     in_range (if code a = 0xE0 then 0xA0 else 0x80) (if code a = 0xED then 0x9F else 0xBF) b"

definition utf8_four :: "char \<Rightarrow> char \<Rightarrow> char \<Rightarrow> char \<Rightarrow> bool" where
  "utf8_four a b c d \<longleftrightarrow> in_range 0xF0 0xF4 a \<and> in_range 0x80 0xBF c \<and> in_range 0x80 0xBF d \<and>
     in_range (if code a = 0xF0 then 0x90 else 0x80) (if code a = 0xF4 then 0x8F else 0xBF) b"

definition utf8_len :: "string \<Rightarrow> nat" where
  "utf8_len s =
     (case s of [] \<Rightarrow> 0
      | a # s1 \<Rightarrow>
          if code a < 0x80 then 1
          else (case s1 of [] \<Rightarrow> 0
            | b # s2 \<Rightarrow>
                if utf8_two a b then 2
                else (case s2 of [] \<Rightarrow> 0
                  | c # s3 \<Rightarrow>
                      if utf8_three a b c then 3
                      else (case s3 of [] \<Rightarrow> 0
                        | d # s4 \<Rightarrow> if utf8_four a b c d then 4 else 0))))"

definition utf8_encode :: "nat \<Rightarrow> string" where
  "utf8_encode r =
     (if r < 0x80 then [char_of r]
      else if r < 0x800 then [char_of (0xC0 + r div 64), char_of (0x80 + r mod 64)]
      else if r < 0x10000 then
        [char_of (0xE0 + r div 4096), char_of (0x80 + r div 64 mod 64), char_of (0x80 + r mod 64)]
      else
        [char_of (0xF0 + r div 262144), char_of (0x80 + r div 4096 mod 64),
         char_of (0x80 + r div 64 mod 64), char_of (0x80 + r mod 64)])"

definition rune_error :: string where
  "rune_error = [CHR 0xEF, CHR 0xBF, CHR 0xBD]"

function utf8_valid :: "string \<Rightarrow> bool" where
  "utf8_valid s =
     (if s = [] then True
      else if utf8_len s = 0 then False else utf8_valid (drop (utf8_len s) s))"
  by pat_completeness auto
termination by (relation "measure length") auto

declare utf8_valid.simps [simp del]

section \<open>Encoding\<close>

definition json_escape :: "char \<Rightarrow> string" where
  "json_escape c =
     (if c = dquote \<or> c = backslash then [backslash, c]
      else if c = CHR 0x08 then [backslash, CHR ''b'']
      else if c = CHR 0x0C then [backslash, CHR ''f'']
      else if c = CHR 0x0A then [backslash, CHR ''n'']
      else if c = CHR 0x0D then [backslash, CHR ''r'']
      else if c = CHR 0x09 then [backslash, CHR ''t'']
      else if code c < 0x20 \<or> c = CHR ''<'' \<or> c = CHR ''>'' \<or> c = CHR ''&''
      then [backslash, CHR ''u'', CHR ''0'', CHR ''0'', hex_digit (code c div 16),
            hex_digit (code c mod 16)]
      else [c])"

function json_quote :: "string \<Rightarrow> string" where
  "json_quote s =
     (case s of
        [] \<Rightarrow> []
      | c # t \<Rightarrow>
          if code c < 0x80 then json_escape c @ json_quote t
          else let n = utf8_len s in
            if n = 0 then [backslash] @ ''ufffd'' @ json_quote t
            else (if take n s = [CHR 0xE2, CHR 0x80, CHR 0xA8] then [backslash] @ ''u2028''
                  else if take n s = [CHR 0xE2, CHR 0x80, CHR 0xA9] then [backslash] @ ''u2029''
                  else take n s) @ json_quote (drop n s))"
  by pat_completeness auto
termination by (relation "measure length") auto

declare json_quote.simps [simp del]

fun comma_separated :: "string list \<Rightarrow> string" where
  "comma_separated [] = []"
| "comma_separated [x] = x"
| "comma_separated (x # y # zs) = x @ '','' @ comma_separated (y # zs)"

definition in_quotes :: "string \<Rightarrow> string" where
  "in_quotes raw = [dquote] @ raw @ [dquote]"

fun json_text :: "json \<Rightarrow> string" where
  "json_text JNull = ''null''"
| "json_text (JBool b) = (if b then ''true'' else ''false'')"
| "json_text (JNum lit) = lit"
| "json_text (JStr raw) = in_quotes raw"
| "json_text (JArr vs) = ''['' @ comma_separated (map json_text vs) @ '']''"
| "json_text (JObj ms) =
     ''{'' @ comma_separated (map (\<lambda>(k, v). in_quotes k @ '':'' @ json_text v) ms) @ ''}''"

definition json_of_string :: "string \<Rightarrow> json" where
  "json_of_string s = JStr (json_quote s)"

definition json_of_int64 :: "int64 \<Rightarrow> json" where
  "json_of_int64 w = JNum (string_of_int (sint w))"

definition json_of_option :: "('a \<Rightarrow> json) \<Rightarrow> 'a option \<Rightarrow> json" where
  "json_of_option f x = (case x of None \<Rightarrow> JNull | Some y \<Rightarrow> f y)"

section \<open>Parsing\<close>

fun scan_string :: "string \<Rightarrow> (string \<times> string) option" where
  "scan_string [] = None"
| "scan_string (c # s) =
     (if c = dquote then Some ([], s)
      else if c = backslash then
        (case s of
           [] \<Rightarrow> None
         | e # t \<Rightarrow>
             if e \<in> {dquote, backslash, CHR ''/'', CHR ''b'', CHR ''f'', CHR ''n'', CHR ''r'', CHR ''t''}
             then map_option (\<lambda>(r, u). (c # e # r, u)) (scan_string t)
             else if e = CHR ''u'' \<and> 4 \<le> length t \<and> (\<forall>h \<in> set (take 4 t). hex_value h \<noteq> None)
             then map_option (\<lambda>(r, u). (c # e # take 4 t @ r, u)) (scan_string (drop 4 t))
             else None)
      else if code c < 0x20 then None
      else map_option (\<lambda>(r, u). (c # r, u)) (scan_string s))"

definition starts_with :: "char \<Rightarrow> string \<Rightarrow> bool" where
  "starts_with c s \<longleftrightarrow> s \<noteq> [] \<and> hd s = c"

definition scan_digits :: "string \<Rightarrow> string \<times> string" where
  "scan_digits s = (takeWhile is_digit s, dropWhile is_digit s)"

definition scan_whole :: "string \<Rightarrow> string \<times> string" where
  "scan_whole s = (if starts_with (CHR ''0'') s then (''0'', tl s) else scan_digits s)"

definition scan_fraction :: "string \<Rightarrow> (string \<times> string) option" where
  "scan_fraction s =
     (if starts_with (CHR ''.'') s
      then (case scan_digits (tl s) of (d, t) \<Rightarrow> if d = [] then None else Some (hd s # d, t))
      else Some ([], s))"

definition scan_exponent :: "string \<Rightarrow> (string \<times> string) option" where
  "scan_exponent s =
     (if starts_with (CHR ''e'') s \<or> starts_with (CHR ''E'') s
      then let sign = (if starts_with (CHR ''+'') (tl s) \<or> starts_with (CHR ''-'') (tl s)
                       then [hd (tl s)] else [])
           in (case scan_digits (drop (length sign) (tl s)) of
                 (d, t) \<Rightarrow> if d = [] then None else Some (hd s # sign @ d, t))
      else Some ([], s))"

definition scan_number :: "string \<Rightarrow> (string \<times> string) option" where
  "scan_number s =
     (let sign = (if starts_with (CHR ''-'') s then ''-'' else []);
          s1 = drop (length sign) s
      in case scan_whole s1 of
           (whole, s2) \<Rightarrow>
             if whole = [] then None
             else (case scan_fraction s2 of
                     None \<Rightarrow> None
                   | Some (frac, s3) \<Rightarrow>
                       (case scan_exponent s3 of
                          None \<Rightarrow> None
                        | Some (ex, s4) \<Rightarrow> Some (sign @ whole @ frac @ ex, s4))))"

lemma length_skip_ws: "length (skip_ws s) \<le> length s"
  by (simp add: skip_ws_def length_dropWhile_le)

text \<open>
  A value, with what follows it; \<open>d\<close> is how many more arrays and objects may be opened (the
  scanner allows 10000). The length tests hold whenever they are reached (\<open>parse_shorter\<close>);
  they make the recursion visibly well-founded.
\<close>

function parse_value :: "nat \<Rightarrow> string \<Rightarrow> (json \<times> string) option"
  and parse_elems :: "nat \<Rightarrow> string \<Rightarrow> (json list \<times> string) option"
  and parse_members :: "nat \<Rightarrow> string \<Rightarrow> ((string \<times> json) list \<times> string) option"
where
  "parse_value d s =
     (case skip_ws s of
        [] \<Rightarrow> None
      | c # t \<Rightarrow>
          if c = CHR ''{'' then
            (if d = 0 then None
             else if starts_with (CHR ''}'') (skip_ws t) then Some (JObj [], tl (skip_ws t))
             else if length t < length s then map_option (apfst JObj) (parse_members (d - 1) t)
             else None)
          else if c = CHR ''['' then
            (if d = 0 then None
             else if starts_with (CHR '']'') (skip_ws t) then Some (JArr [], tl (skip_ws t))
             else if length t < length s then map_option (apfst JArr) (parse_elems (d - 1) t)
             else None)
          else if c = dquote then map_option (apfst JStr) (scan_string t)
          else if take 4 (c # t) = ''null'' then Some (JNull, drop 3 t)
          else if take 4 (c # t) = ''true'' then Some (JBool True, drop 3 t)
          else if take 5 (c # t) = ''false'' then Some (JBool False, drop 4 t)
          else map_option (apfst JNum) (scan_number (c # t)))"
| "parse_elems d s =
     (case parse_value d s of
        None \<Rightarrow> None
      | Some (v, r) \<Rightarrow>
          (case skip_ws r of
             [] \<Rightarrow> None
           | c # t \<Rightarrow>
               if c = CHR '']'' then Some ([v], t)
               else if c = CHR '','' \<and> length t < length s
               then map_option (apfst (Cons v)) (parse_elems d t)
               else None))"
| "parse_members d s =
     (if \<not> starts_with dquote (skip_ws s) then None
      else case scan_string (tl (skip_ws s)) of
        None \<Rightarrow> None
      | Some (k, r) \<Rightarrow>
          if \<not> (starts_with (CHR '':'') (skip_ws r) \<and> length r < length s) then None
          else (case parse_value d (tl (skip_ws r)) of
             None \<Rightarrow> None
           | Some (v, q) \<Rightarrow>
               (case skip_ws q of
                  [] \<Rightarrow> None
                | c # t \<Rightarrow>
                    if c = CHR ''}'' then Some ([(k, v)], t)
                    else if c = CHR '','' \<and> length t < length s
                    then map_option (apfst (Cons (k, v))) (parse_members d t)
                    else None)))"
  by pat_completeness auto

termination
  by (relation "measures [\<lambda>x. case x of Inl (d, s) \<Rightarrow> length s | Inr (Inl (d, s)) \<Rightarrow> length s
                           | Inr (Inr (d, s)) \<Rightarrow> length s,
                  \<lambda>x. case x of Inl (d, s) \<Rightarrow> 0 | Inr (Inl (d, s)) \<Rightarrow> 1 | Inr (Inr (d, s)) \<Rightarrow> 1]")
    (auto simp: starts_with_def intro: le_less_trans [OF diff_le_self] le_less_trans [OF length_skip_ws])

declare parse_value.simps [simp del] parse_elems.simps [simp del] parse_members.simps [simp del]

definition max_depth :: nat where
  "max_depth = 10000"

text \<open>\<^verbatim>\<open>json.Unmarshal\<close>'s check of the whole text, and \<^verbatim>\<open>Decoder.Decode\<close>'s first value.\<close>

definition json_parse :: "string \<Rightarrow> json option" where
  "json_parse s =
     (case parse_value max_depth s of
        None \<Rightarrow> None
      | Some (v, r) \<Rightarrow> if skip_ws r = [] then Some v else None)"

definition json_first :: "string \<Rightarrow> json option" where
  "json_first s = map_option fst (parse_value max_depth s)"

section \<open>Decoding into Go values\<close>

definition hex4 :: "string \<Rightarrow> nat option" where
  "hex4 s =
     (if length s < 4 then None
      else foldl (\<lambda>acc h. case acc of None \<Rightarrow> None
                    | Some n \<Rightarrow> map_option (\<lambda>v. 16 * n + v) (hex_value h)) (Some 0) (take 4 s))"

text \<open>\<^verbatim>\<open>getu4\<close>: a \<^verbatim>\<open>\uXXXX\<close> at the start.\<close>

definition getu4 :: "string \<Rightarrow> nat option" where
  "getu4 s = (if take 2 s = [backslash, CHR ''u''] then hex4 (drop 2 s) else None)"

definition is_surrogate :: "nat \<Rightarrow> bool" where
  "is_surrogate r \<longleftrightarrow> 0xD800 \<le> r \<and> r < 0xE000"

definition surrogate_pair :: "nat \<Rightarrow> nat option \<Rightarrow> nat option" where
  "surrogate_pair r r2 =
     (case r2 of None \<Rightarrow> None
      | Some q \<Rightarrow>
          if 0xD800 \<le> r \<and> r < 0xDC00 \<and> 0xDC00 \<le> q \<and> q < 0xE000
          then Some (0x10000 + (r - 0xD800) * 1024 + (q - 0xDC00)) else None)"

definition simple_unescape :: "char \<Rightarrow> char" where
  "simple_unescape e =
     (if e = CHR ''b'' then CHR 0x08 else if e = CHR ''f'' then CHR 0x0C
      else if e = CHR ''n'' then CHR 0x0A else if e = CHR ''r'' then CHR 0x0D
      else if e = CHR ''t'' then CHR 0x09 else e)"

text \<open>
  One step of \<^verbatim>\<open>unquote\<close> on the text between the quotes: the bytes it appends, and
  how much it consumes.
\<close>

definition unquote_step :: "string \<Rightarrow> string \<times> nat" where
  "unquote_step s =
     (let c = hd s
      in if c = backslash then
           (case getu4 s of
              Some r \<Rightarrow>
                if is_surrogate r then
                  (case surrogate_pair r (getu4 (drop 6 s)) of
                     Some q \<Rightarrow> (utf8_encode q, 12)
                   | None \<Rightarrow> (rune_error, 6))
                else (utf8_encode r, 6)
            | None \<Rightarrow> ([simple_unescape (hd (tl s))], 2))
         else if code c < 0x80 then ([c], 1)
         else if utf8_len s = 0 then (rune_error, 1)
         else (take (utf8_len s) s, utf8_len s))"

lemma unquote_step_pos: "(chunk, n) = unquote_step s \<Longrightarrow> 0 < n"
  by (auto simp: unquote_step_def Let_def split: if_splits option.splits)

function unquote :: "string \<Rightarrow> string" where
  "unquote s =
     (if s = [] then []
      else case unquote_step s of (chunk, n) \<Rightarrow> chunk @ unquote (drop n s))"
  by pat_completeness auto
termination
  by (relation "measure length") (auto dest: unquote_step_pos)

declare unquote.simps [simp del]

text \<open>\<^verbatim>\<open>strconv.ParseInt(lit, 10, 64)\<close> on a JSON number literal.\<close>

definition nat_of_digits :: "string \<Rightarrow> nat" where
  "nat_of_digits ds = foldl (\<lambda>n c. 10 * n + (code c - 48)) 0 ds"

definition parse_int :: "string \<Rightarrow> int64 option" where
  "parse_int lit =
     (let neg = starts_with (CHR ''-'') lit;
          ds = (if neg then tl lit else lit);
          i = (if neg then - int (nat_of_digits ds) else int (nat_of_digits ds))
      in if ds \<noteq> [] \<and> list_all is_digit ds \<and> - (2 ^ 63) \<le> i \<and> i < 2 ^ 63
         then Some (word_of_int i) else None)"

text \<open>
  Each decoder takes the JSON value and the destination's present value: \<^verbatim>\<open>null\<close>
  leaves an integer, string or struct as it is and clears a pointer, slice or map.
\<close>

type_synonym 'a decoder = "json \<Rightarrow> 'a \<Rightarrow> 'a option"

fun dec_int64 :: "int64 decoder" where
  "dec_int64 JNull x = Some x"
| "dec_int64 (JNum lit) x = parse_int lit"
| "dec_int64 _ x = None"

fun dec_string :: "string decoder" where
  "dec_string JNull x = Some x"
| "dec_string (JStr raw) x = Some (unquote raw)"
| "dec_string _ x = None"

definition dec_pointer :: "'a \<Rightarrow> 'a decoder \<Rightarrow> 'a option decoder" where
  "dec_pointer zero dec v p =
     (if v = JNull then Some None
      else map_option Some (dec v (case p of None \<Rightarrow> zero | Some x \<Rightarrow> x)))"

fun dec_elems :: "'a \<Rightarrow> 'a decoder \<Rightarrow> json list \<Rightarrow> 'a list option" where
  "dec_elems zero dec [] = Some []"
| "dec_elems zero dec (v # vs) =
     (case dec v zero of None \<Rightarrow> None | Some x \<Rightarrow> map_option (Cons x) (dec_elems zero dec vs))"

text \<open>Into a slice that is nil so far; nil and empty slices are one value here.\<close>

fun dec_slice :: "'a \<Rightarrow> 'a decoder \<Rightarrow> json \<Rightarrow> 'a list option" where
  "dec_slice zero dec JNull = Some []"
| "dec_slice zero dec (JArr vs) = dec_elems zero dec vs"
| "dec_slice zero dec _ = None"

text \<open>Into a map from strings to strings, an entry list in order of first insertion.\<close>

definition put_entry :: "string \<Rightarrow> string \<Rightarrow> (string \<times> string) list \<Rightarrow> (string \<times> string) list" where
  "put_entry k v es =
     (if k \<in> fst ` set es then map (\<lambda>(j, w). if j = k then (j, v) else (j, w)) es
      else es @ [(k, v)])"

fun dec_entries :: "(string \<times> json) list \<Rightarrow> (string \<times> string) list \<Rightarrow> (string \<times> string) list option"
where
  "dec_entries [] es = Some es"
| "dec_entries ((k, v) # ms) es =
     (case dec_string v [] of
        None \<Rightarrow> None | Some x \<Rightarrow> dec_entries ms (put_entry (unquote k) x es))"

fun dec_string_map :: "(string \<times> string) list decoder" where
  "dec_string_map JNull es = Some []"
| "dec_string_map (JObj ms) es = dec_entries ms es"
| "dec_string_map _ es = None"

text \<open>
  Field names match exactly or else up to case folding, under which the long s (U+017F) and
  the kelvin sign (U+212A) are ASCII letters.
\<close>

fun fold_name :: "string \<Rightarrow> string" where
  "fold_name [] = []"
| "fold_name (c # s) =
     (if take 2 (c # s) = [CHR 0xC5, CHR 0xBF] then CHR ''S'' # fold_name (drop 1 s)
      else if take 3 (c # s) = [CHR 0xE2, CHR 0x84, CHR 0xAA] then CHR ''K'' # fold_name (drop 2 s)
      else (if 97 \<le> code c \<and> code c \<le> 122 then char_of (code c - 32) else c) # fold_name s)"

definition field_match :: "string list \<Rightarrow> string \<Rightarrow> string option" where
  "field_match names key =
     (if key \<in> set names then Some key else find (\<lambda>n. fold_name n = fold_name key) names)"

fun dec_fields ::
    "string list \<Rightarrow> (string \<Rightarrow> 'r decoder) \<Rightarrow> (string \<times> json) list \<Rightarrow> 'r \<Rightarrow> 'r option" where
  "dec_fields names dec [] r = Some r"
| "dec_fields names dec ((k, v) # ms) r =
     (case field_match names (unquote k) of
        None \<Rightarrow> dec_fields names dec ms r
      | Some n \<Rightarrow>
          (case dec n v r of None \<Rightarrow> None | Some r1 \<Rightarrow> dec_fields names dec ms r1))"

text \<open>A struct: its field names, and how a value is stored in the named field.\<close>

fun dec_struct :: "string list \<Rightarrow> (string \<Rightarrow> 'r decoder) \<Rightarrow> 'r decoder" where
  "dec_struct names dec JNull r = Some r"
| "dec_struct names dec (JObj ms) r = dec_fields names dec ms r"
| "dec_struct names dec _ r = None"

definition json_error :: goerr where
  "json_error = ErrorString ''json: cannot decode''"

definition decode_all :: "'a decoder \<Rightarrow> 'a \<Rightarrow> string \<Rightarrow> 'a result" where
  "decode_all dec zero s =
     (case json_parse s of
        None \<Rightarrow> Inl json_error
      | Some v \<Rightarrow> (case dec v zero of None \<Rightarrow> Inl json_error | Some x \<Rightarrow> Inr x))"

definition decode_first :: "'a decoder \<Rightarrow> 'a \<Rightarrow> string \<Rightarrow> 'a result" where
  "decode_first dec zero s =
     (case json_first s of
        None \<Rightarrow> Inl json_error
      | Some v \<Rightarrow> (case dec v zero of None \<Rightarrow> Inl json_error | Some x \<Rightarrow> Inr x))"

section \<open>Round trips\<close>

subsection \<open>Strings\<close>

lemma code_less_256: "code c < 256"
  by (rule of_char_less_256)

lemma utf8_len_le: "utf8_len s \<le> length s"
  by (simp add: utf8_len_def split: list.split)

lemma utf8_lenE:
  assumes "0 < utf8_len s"
  obtains a r where "s = a # r" and "code a < 0x80"
    | a b r where "s = a # b # r" and "\<not> code a < 0x80" and "utf8_two a b"
    | a b c r where "s = a # b # c # r" and "\<not> code a < 0x80" and "\<not> utf8_two a b"
        and "utf8_three a b c"
    | a b c d r where "s = a # b # c # d # r" and "\<not> code a < 0x80" and "\<not> utf8_two a b"
        and "\<not> utf8_three a b c" and "utf8_four a b c d"
  using assms by (auto simp: utf8_len_def split: list.splits if_splits)

lemma utf8_len_prefix:
  "0 < utf8_len s \<Longrightarrow> utf8_len (take (utf8_len s) s @ t) = utf8_len s"
  by (erule utf8_lenE) (simp_all add: utf8_len_def)

lemma utf8_len_ascii: "utf8_len (c # t) = 1 \<longleftrightarrow> code c < 0x80"
  by (simp add: utf8_len_def split: list.split)

lemma utf8_high:
  "utf8_two a b \<Longrightarrow> 0x80 \<le> code b"
  "utf8_three a b c \<Longrightarrow> 0x80 \<le> code b \<and> 0x80 \<le> code c"
  "utf8_four a b c d \<Longrightarrow> 0x80 \<le> code b \<and> 0x80 \<le> code c \<and> 0x80 \<le> code d"
  by (auto simp: utf8_two_def utf8_three_def utf8_four_def in_range_def split: if_splits)

lemma utf8_chunk_high:
  "0x80 \<le> code c \<Longrightarrow> x \<in> set (take (utf8_len (c # t)) (c # t)) \<Longrightarrow> 0x80 \<le> code x"
  by (auto simp: utf8_len_def dest: utf8_high split: list.splits if_splits)

lemma hex_value_digit: "d < 16 \<Longrightarrow> hex_value (hex_digit d) = Some d"
  by (auto simp: hex_value_def hex_digit_def is_digit_def)

lemma hex_value_0: "hex_value (CHR ''0'') = Some 0"
  by (simp add: hex_value_def is_digit_def)

lemma hex4_byte:
  "n < 256 \<Longrightarrow> hex4 ([CHR ''0'', CHR ''0'', hex_digit (n div 16), hex_digit (n mod 16)] @ t) = Some n"
  by (simp add: hex4_def hex_value_digit hex_value_0)

lemma json_escape_ascii:
  assumes "code c < 0x80"
  shows "unquote_step (json_escape c @ t) = ([c], length (json_escape c))"
proof (cases "length (json_escape c) = 6")
  case True
  then have "json_escape c = [backslash, CHR ''u'', CHR ''0'', CHR ''0'', hex_digit (code c div 16),
      hex_digit (code c mod 16)]"
    by (auto simp: json_escape_def split: if_splits)
  with hex4_byte [OF code_less_256, of c t] assms show ?thesis
    by (simp add: unquote_step_def getu4_def is_surrogate_def utf8_encode_def)
next
  case False
  then show ?thesis using assms
    by (auto simp: json_escape_def unquote_step_def getu4_def simple_unescape_def
        dquote_def backslash_def)
qed

lemma unquote_chunk:
  assumes "s \<noteq> []" and "unquote_step (s @ t) = (chunk, length s)"
  shows "unquote (s @ t) = chunk @ unquote t"
  using assms by (subst unquote.simps) simp

lemma high_chunk_step:
  assumes "0x80 \<le> code c" and "0 < utf8_len (c # t)"
  shows "unquote_step (take (utf8_len (c # t)) (c # t) @ u)
    = (take (utf8_len (c # t)) (c # t), utf8_len (c # t))"
proof -
  let ?n = "utf8_len (c # t)"
  have len: "utf8_len (take ?n (c # t) @ u) = ?n" by (rule utf8_len_prefix [OF assms(2)])
  have le: "?n \<le> length (c # t)" by (rule utf8_len_le)
  obtain k where k: "?n = Suc k" using assms(2) gr0_conv_Suc by blast
  have "c \<noteq> backslash" using assms(1) by (auto simp: backslash_def)
  with assms len le k show ?thesis by (simp add: unquote_step_def)
qed

lemma line_separator_step:
  "unquote_step ([backslash] @ ''u2028'' @ t) = ([CHR 0xE2, CHR 0x80, CHR 0xA8], 6)"
  "unquote_step ([backslash] @ ''u2029'' @ t) = ([CHR 0xE2, CHR 0x80, CHR 0xA9], 6)"
  by (simp_all add: unquote_step_def getu4_def hex4_def hex_value_def is_digit_def backslash_def
      is_surrogate_def utf8_encode_def char_of_def bit_0)

text \<open>
  What \<^verbatim>\<open>Marshal\<close> writes for a string that is valid UTF-8,
  \<^verbatim>\<open>Unmarshal\<close> reads back as the same string.
\<close>

lemma json_escape_nonempty [simp]: "json_escape c \<noteq> []"
  by (simp add: json_escape_def)

lemma unquote_quote: "utf8_valid s \<Longrightarrow> unquote (json_quote s) = s"
proof (induction s rule: json_quote.induct)
  case (1 s)
  show ?case
  proof (cases s)
    case Nil
    then show ?thesis by (simp add: json_quote.simps unquote.simps)
  next
    case (Cons c t)
    let ?n = "utf8_len s"
    from "1.prems" Cons have n: "0 < ?n" "utf8_valid (drop ?n s)"
      by (simp_all add: utf8_valid.simps [of "c # t"] split: if_splits)
    show ?thesis
    proof (cases "code c < 0x80")
      case True
      then have "?n = 1" using Cons utf8_len_ascii by blast
      with n Cons "1.IH"(1) [OF Cons True] have "unquote (json_quote t) = t" by simp
      moreover have "json_quote s = json_escape c @ json_quote t"
        using Cons True by (simp add: json_quote.simps [of "c # t"])
      ultimately show ?thesis
        using unquote_chunk [OF json_escape_nonempty json_escape_ascii [OF True]] Cons by simp
    next
      case False
      let ?chunk = "take ?n s"
      let ?raw = "if ?chunk = [CHR 0xE2, CHR 0x80, CHR 0xA8] then [backslash] @ ''u2028''
        else if ?chunk = [CHR 0xE2, CHR 0x80, CHR 0xA9] then [backslash] @ ''u2029'' else ?chunk"
      let ?rest = "json_quote (drop ?n s)"
      have quote: "json_quote s = ?raw @ ?rest"
        using Cons False n by (simp add: json_quote.simps [of "c # t"] Let_def)
      have "length ?chunk = ?n" using utf8_len_le [of s] by simp
      then have "unquote_step (?raw @ ?rest) = (?chunk, length ?raw) \<and> ?raw \<noteq> []"
        using high_chunk_step [of c t ?rest] line_separator_step [of ?rest] n(1) Cons False by auto
      then have "unquote (?raw @ ?rest) = ?chunk @ unquote ?rest"
        using unquote_chunk by blast
      moreover have "unquote ?rest = drop ?n s"
        using "1.IH"(3) [OF Cons False refl] n by simp
      ultimately show ?thesis using quote by simp
    qed
  qed
qed

subsection \<open>Scanning what was written\<close>

definition prepend :: "string \<Rightarrow> (string \<times> string) option \<Rightarrow> (string \<times> string) option" where
  "prepend p x = map_option (\<lambda>(r, u). (p @ r, u)) x"

lemma prepend_simps [simp]:
  "prepend [] x = x"
  "prepend p (prepend q x) = prepend (p @ q) x"
  "prepend p (Some (r, u)) = Some (p @ r, u)"
  "prepend p None = None"
  by (cases x; auto simp: prepend_def)+

lemma map_option_prepend:
  "map_option (\<lambda>(r, u). (c # r, u)) x = prepend [c] x"
  "map_option (\<lambda>(r, u). (c # e # r, u)) x = prepend [c, e] x"
  "map_option (\<lambda>(r, u). (c # e # h @ r, u)) x = prepend (c # e # h) x"
  by (simp_all add: prepend_def)

lemma scan_string_plain:
  "(\<forall>x \<in> set p. 0x20 \<le> code x \<and> x \<noteq> dquote \<and> x \<noteq> backslash) \<Longrightarrow>
   scan_string (p @ t) = prepend p (scan_string t)"
  by (induction p) (simp_all add: map_option_prepend)

lemma scan_string_escaped:
  "e \<in> {dquote, backslash, CHR ''/'', CHR ''b'', CHR ''f'', CHR ''n'', CHR ''r'', CHR ''t''} \<Longrightarrow>
   scan_string ([backslash, e] @ t) = prepend [backslash, e] (scan_string t)"
  by (auto simp: backslash_def dquote_def map_option_prepend)

lemma scan_string_u:
  "length h = 4 \<Longrightarrow> (\<forall>x \<in> set h. hex_value x \<noteq> None) \<Longrightarrow>
   scan_string ([backslash, CHR ''u''] @ h @ t) = prepend ([backslash, CHR ''u''] @ h) (scan_string t)"
  by (auto simp: backslash_def dquote_def map_option_prepend)

lemma scan_json_escape:
  assumes "code c < 0x80"
  shows "scan_string (json_escape c @ t) = prepend (json_escape c) (scan_string t)"
proof -
  have "c \<noteq> dquote \<Longrightarrow> c \<noteq> backslash \<Longrightarrow> \<not> code c < 0x20 \<Longrightarrow>
      scan_string ([c] @ t) = prepend [c] (scan_string t)"
    by (rule scan_string_plain) simp
  moreover have "scan_string ([backslash, CHR ''u''] @
        [CHR ''0'', CHR ''0'', hex_digit (code c div 16), hex_digit (code c mod 16)] @ t)
      = prepend ([backslash, CHR ''u''] @
        [CHR ''0'', CHR ''0'', hex_digit (code c div 16), hex_digit (code c mod 16)]) (scan_string t)"
    using assms by (intro scan_string_u) (auto simp: hex_value_digit hex_value_0)
  ultimately show ?thesis
    using scan_string_escaped [of _ t] unfolding json_escape_def by simp
qed

lemma scan_line_separator:
  "scan_string (([backslash] @ ''u2028'') @ t) = prepend ([backslash] @ ''u2028'') (scan_string t)"
  "scan_string (([backslash] @ ''u2029'') @ t) = prepend ([backslash] @ ''u2029'') (scan_string t)"
  "scan_string (([backslash] @ ''ufffd'') @ t) = prepend ([backslash] @ ''ufffd'') (scan_string t)"
  using scan_string_u [of "''2028''" t] scan_string_u [of "''2029''" t] scan_string_u [of "''fffd''" t]
  by (simp_all add: hex_value_def is_digit_def)

lemma scan_json_quote: "scan_string (json_quote s @ t) = prepend (json_quote s) (scan_string t)"
proof (induction s rule: json_quote.induct)
  case (1 s)
  show ?case
  proof (cases s)
    case Nil
    then show ?thesis by (simp add: json_quote.simps)
  next
    case (Cons c u)
    show ?thesis
    proof (cases "code c < 0x80")
      case True
      with "1.IH"(1) [OF Cons True] scan_json_escape [OF True, of "json_quote u @ t"] show ?thesis
        by (simp add: json_quote.simps [of "c # u"] Cons)
    next
      case False
      have "x \<in> set (take (utf8_len s) s) \<Longrightarrow> 0x20 \<le> code x \<and> x \<noteq> dquote \<and> x \<noteq> backslash" for x
        using utf8_chunk_high [of c x u] False Cons by (auto simp: dquote_def backslash_def)
      then have "scan_string (take (utf8_len s) s @ w) = prepend (take (utf8_len s) s) (scan_string w)" for w
        by (intro scan_string_plain) auto
      with scan_line_separator [of "json_quote u @ t"]
        scan_line_separator [of "json_quote (drop (utf8_len s) s) @ t"]
        "1.IH"(2) [OF Cons False refl] "1.IH"(3) [OF Cons False refl] False Cons
      show ?thesis
        by (cases "utf8_len s = 0") (simp_all add: json_quote.simps [of "c # u"] Let_def)
    qed
  qed
qed

subsection \<open>Numbers\<close>

lemma digit_char_props:
  "d < 10 \<Longrightarrow> is_digit (digit_char d)"
  "d < 10 \<Longrightarrow> code (digit_char d) = 48 + d"
  by (simp_all add: digit_char_def is_digit_def)

lemma string_of_nat_digits: "list_all is_digit (string_of_nat n)"
  by (induction n rule: string_of_nat.induct)
    (subst string_of_nat.simps, auto simp: digit_char_props)

lemma string_of_nat_nonempty [simp]: "string_of_nat n \<noteq> []"
  by (subst string_of_nat.simps) simp

lemma nat_of_digits_snoc: "nat_of_digits (ds @ [c]) = 10 * nat_of_digits ds + (code c - 48)"
  by (simp add: nat_of_digits_def)

lemma nat_of_digits_string_of_nat [simp]: "nat_of_digits (string_of_nat n) = n"
proof (induction n rule: string_of_nat.induct)
  case (1 n)
  show ?case
  proof (cases "n < 10")
    case True
    then show ?thesis
      by (subst string_of_nat.simps) (simp add: nat_of_digits_def digit_char_props)
  next
    case False
    with 1 show ?thesis
      by (subst string_of_nat.simps) (simp add: nat_of_digits_snoc digit_char_props)
  qed
qed

lemma hd_string_of_nat: "0 < n \<Longrightarrow> hd (string_of_nat n) \<noteq> CHR ''0''"
proof (induction n rule: string_of_nat.induct)
  case (1 n)
  have "digit_char d \<noteq> CHR ''0''" if "0 < d" "d < 10" for d
  proof
    assume "digit_char d = CHR ''0''"
    then have "code (digit_char d) = 48" by simp
    with digit_char_props(2) [OF that(2)] that(1) show False by simp
  qed
  with 1 show ?case
    by (cases "n < 10") (subst string_of_nat.simps, simp)+
qed

lemma string_of_nat_0 [simp]: "string_of_nat 0 = ''0''"
  by (subst string_of_nat.simps) (simp add: digit_char_def char_of_def bit_0)

lemma is_digit_not_minus: "is_digit c \<Longrightarrow> c \<noteq> CHR ''-''"
  by (auto simp: is_digit_def)

lemma hd_digit: "is_digit (hd (string_of_nat n))"
  using string_of_nat_digits [of n] by (cases "string_of_nat n") auto

lemma parse_int_string_of_int:
  assumes "- (2 ^ 63) \<le> i" and "i < 2 ^ 63"
  shows "parse_int (string_of_int i) = Some (word_of_int i)"
proof (cases "i < 0")
  case True
  with assms string_of_nat_digits show ?thesis
    by (simp add: parse_int_def string_of_int_def starts_with_def)
next
  case False
  with assms string_of_nat_digits is_digit_not_minus [OF hd_digit] show ?thesis
    by (simp add: parse_int_def string_of_int_def starts_with_def)
qed

lemma parse_int_int64 [simp]: "parse_int (string_of_int (sint (w :: int64))) = Some w"
proof -
  have "- (2 ^ 63) \<le> sint w" and "sint w < 2 ^ 63"
    using sint_range_size [of w] by (simp_all add: word_size)
  then show ?thesis by (simp add: parse_int_string_of_int)
qed

text \<open>What may follow a number without being read as more of it.\<close>

definition ends_number :: "string \<Rightarrow> bool" where
  "ends_number r \<longleftrightarrow>
     (r = [] \<or> \<not> is_digit (hd r) \<and> hd r \<noteq> CHR ''.'' \<and> hd r \<noteq> CHR ''e'' \<and> hd r \<noteq> CHR ''E'')"

lemma scan_digits_append:
  "list_all is_digit ds \<Longrightarrow> ends_number r \<Longrightarrow> scan_digits (ds @ r) = (ds, r)"
proof -
  assume a: "list_all is_digit ds" "ends_number r"
  then have "takeWhile is_digit r = [] \<and> dropWhile is_digit r = r"
    by (cases r) (auto simp: ends_number_def)
  with a show ?thesis
    by (auto simp: scan_digits_def takeWhile_append2 dropWhile_append2 list_all_iff)
qed

lemma scan_number_nat:
  assumes "ends_number r"
  shows "scan_whole (string_of_nat n @ r) = (string_of_nat n, r)"
proof (cases "n = 0")
  case True
  then show ?thesis by (simp add: starts_with_def scan_whole_def)
next
  case False
  with hd_string_of_nat [of n] have "\<not> starts_with (CHR ''0'') (string_of_nat n @ r)"
    by (simp add: starts_with_def)
  with scan_digits_append [OF string_of_nat_digits assms] show ?thesis by (simp add: scan_whole_def)
qed

lemma scan_number_int:
  assumes "ends_number r"
  shows "scan_number (string_of_int i @ r) = Some (string_of_int i, r)"
proof -
  have tail: "scan_fraction r = Some ([], r)" "scan_exponent r = Some ([], r)"
    using assms by (auto simp: scan_fraction_def scan_exponent_def starts_with_def ends_number_def)
  show ?thesis
  proof (cases "i < 0")
    case True
    with scan_number_nat [OF assms] tail show ?thesis
      by (simp add: scan_number_def string_of_int_def starts_with_def Let_def)
  next
    case False
    have "\<not> starts_with (CHR ''-'') (string_of_nat (nat i) @ r)"
      using is_digit_not_minus [OF hd_digit] by (simp add: starts_with_def)
    with False scan_number_nat [OF assms] tail show ?thesis
      by (simp add: scan_number_def string_of_int_def Let_def)
  qed
qed

subsection \<open>Values\<close>

text \<open>The values that \<^verbatim>\<open>Marshal\<close> builds from Go data, nested at most \<open>d\<close> deep.\<close>

fun writable :: "nat \<Rightarrow> json \<Rightarrow> bool" where
  "writable d JNull = True"
| "writable d (JBool b) = True"
| "writable d (JNum lit) = (lit \<in> range string_of_int)"
| "writable d (JStr raw) = (raw \<in> range json_quote)"
| "writable d (JArr vs) = (0 < d \<and> (\<forall>v \<in> set vs. writable (d - 1) v))"
| "writable d (JObj ms) =
     (0 < d \<and> (\<forall>(k, v) \<in> set ms. k \<in> range json_quote \<and> writable (d - 1) v))"

definition token_start :: "string \<Rightarrow> bool" where
  "token_start s \<longleftrightarrow> s \<noteq> [] \<and> \<not> is_ws (hd s) \<and> hd s \<noteq> CHR '']'' \<and> hd s \<noteq> CHR ''}''"

lemma skip_ws_Cons: "skip_ws (c # t) = (if is_ws c then skip_ws t else c # t)"
  by (simp add: skip_ws_def)

lemma skip_ws_token: "token_start s \<Longrightarrow> skip_ws (s @ r) = s @ r"
  by (cases s) (auto simp: token_start_def skip_ws_def)

lemma token_start_append:
  "token_start s \<Longrightarrow> skip_ws (s @ r) = s @ r \<and> \<not> starts_with (CHR '']'') (s @ r)"
  by (cases s) (auto simp: token_start_def starts_with_def skip_ws_def)

lemma is_digit_token: "is_digit c \<Longrightarrow> \<not> is_ws c \<and> c \<noteq> CHR '']'' \<and> c \<noteq> CHR ''}'' \<and>
    c \<noteq> CHR ''{'' \<and> c \<noteq> CHR ''['' \<and> c \<noteq> dquote \<and> c \<noteq> CHR ''n'' \<and> c \<noteq> CHR ''t'' \<and> c \<noteq> CHR ''f''"
  by (auto simp: is_digit_def is_ws_def dquote_def)

lemma string_of_int_start:
  obtains c t where "string_of_int i = c # t" and "is_digit c \<or> c = CHR ''-''"
proof (cases "i < 0")
  case True
  then show ?thesis by (intro that) (auto simp: string_of_int_def)
next
  case False
  then show ?thesis using hd_digit [of "nat i"]
    by (intro that [of "hd (string_of_int i)" "tl (string_of_int i)"]) (simp_all add: string_of_int_def)
qed

lemma dquote_simps [simp]:
  "\<not> is_ws dquote" "dquote \<noteq> CHR ''{''" "dquote \<noteq> CHR ''[''" "dquote \<noteq> CHR '']''" "dquote \<noteq> CHR ''}''"
  by (simp_all add: is_ws_def dquote_def)

lemma is_ws_punctuation [simp]:
  "\<not> is_ws (CHR '','')" "\<not> is_ws (CHR '':'')" "\<not> is_ws (CHR ''['')" "\<not> is_ws (CHR '']'')"
  "\<not> is_ws (CHR ''{'')" "\<not> is_ws (CHR ''}'')" "\<not> is_ws (CHR ''n'')" "\<not> is_ws (CHR ''t'')"
  "\<not> is_ws (CHR ''f'')"
  by (simp_all add: is_ws_def)

lemma string_of_int_token:
  assumes "string_of_int i = c # t"
  shows "\<not> is_ws c" "c \<notin> {CHR '']'', CHR ''}'', CHR ''{'', CHR ''['', dquote, CHR ''n'', CHR ''t'', CHR ''f''}"
proof -
  obtain c' t' where "string_of_int i = c' # t'" and "is_digit c' \<or> c' = CHR ''-''"
    by (rule string_of_int_start)
  with assms have c: "is_digit c \<or> c = CHR ''-''" by simp
  from c show "\<not> is_ws c" by (rule disjE) (simp_all add: is_digit_token, simp add: is_ws_def)
  from c show "c \<notin> {CHR '']'', CHR ''}'', CHR ''{'', CHR ''['', dquote, CHR ''n'', CHR ''t'', CHR ''f''}"
    by (rule disjE) (simp_all add: is_digit_token, simp add: dquote_def)
qed

lemma json_text_start: "writable d v \<Longrightarrow> token_start (json_text v)"
proof (cases v)
  case (JNum lit)
  assume "writable d v"
  with JNum obtain i where i: "lit = string_of_int i" by auto
  obtain c t where ct: "string_of_int i = c # t" by (rule string_of_int_start)
  from string_of_int_token [OF ct] show ?thesis by (simp add: JNum i ct token_start_def)
qed (auto simp: token_start_def is_ws_def in_quotes_def dquote_def)

lemma parse_number:
  "ends_number r \<Longrightarrow>
   parse_value d (string_of_int i @ r) = Some (JNum (string_of_int i), r)"
proof -
  assume r: "ends_number r"
  obtain c t where ct: "string_of_int i = c # t" by (rule string_of_int_start)
  from string_of_int_token [OF ct] scan_number_int [OF r, of i] ct show ?thesis
    by (simp add: parse_value.simps skip_ws_Cons)
qed

lemma scan_in_quotes: "scan_string (json_quote s @ dquote # r) = Some (json_quote s, r)"
  by (simp add: scan_json_quote)

lemma parse_elems_text:
  assumes "\<And>v r. v \<in> set vs \<Longrightarrow> ends_number r \<Longrightarrow> parse_value d (json_text v @ r) = Some (v, r)"
    and "vs \<noteq> []"
  shows "parse_elems d (comma_separated (map json_text vs) @ CHR '']'' # r) = Some (vs, r)"
  using assms
proof (induction vs rule: induct_list012)
  case (2 v)
  have "ends_number (CHR '']'' # r)" by (simp add: ends_number_def is_digit_def)
  with 2 show ?case by (simp add: parse_elems.simps skip_ws_Cons)
next
  case (3 v w vs)
  have "ends_number (CHR '','' # t)" for t by (simp add: ends_number_def is_digit_def)
  with "3.prems"(1) [of v] have "parse_value d (json_text v @ CHR '','' # t) = Some (v, CHR '','' # t)"
    for t by simp
  with 3 show ?case
    by (subst parse_elems.simps) (simp add: skip_ws_Cons)
qed simp

definition member_text :: "string \<times> json \<Rightarrow> string" where
  "member_text m = in_quotes (fst m) @ '':'' @ json_text (snd m)"

lemma parse_members_text:
  assumes "\<And>k v r. (k, v) \<in> set ms \<Longrightarrow> ends_number r \<Longrightarrow> parse_value d (json_text v @ r) = Some (v, r)"
    and "\<And>k v. (k, v) \<in> set ms \<Longrightarrow> k \<in> range json_quote"
    and "ms \<noteq> []"
  shows "parse_members d (comma_separated (map member_text ms) @ CHR ''}'' # r) = Some (ms, r)"
  using assms
proof (induction ms rule: induct_list012)
  case (2 m)
  obtain k v where m: "m = (k, v)" by fastforce
  with "2.prems"(2) [of k v] obtain s where k: "k = json_quote s" by auto
  have "ends_number (CHR ''}'' # r)" by (simp add: ends_number_def is_digit_def)
  with "2.prems"(1) [of k v] m have "parse_value d (json_text v @ CHR ''}'' # r) = Some (v, CHR ''}'' # r)"
    by simp
  with m k show ?case
    by (subst parse_members.simps)
      (simp add: skip_ws_Cons member_text_def in_quotes_def starts_with_def scan_in_quotes)
next
  case (3 m n ms)
  obtain k v where m: "m = (k, v)" by fastforce
  with "3.prems"(2) [of k v] obtain s where k: "k = json_quote s" by auto
  have "ends_number (CHR '','' # t)" for t by (simp add: ends_number_def is_digit_def)
  with "3.prems"(1) [of k v] m have "parse_value d (json_text v @ CHR '','' # t) = Some (v, CHR '','' # t)"
    for t by simp
  moreover have "parse_members d (comma_separated (map member_text (n # ms)) @ CHR ''}'' # r)
      = Some (n # ms, r)"
  proof (rule "3.IH"(2))
    show "parse_value d (json_text v @ r) = Some (v, r)" if "(k, v) \<in> set (n # ms)" "ends_number r"
      for k v r using "3.prems"(1) [of k v r] that by auto
    show "k \<in> range json_quote" if "(k, v) \<in> set (n # ms)" for k v
      using "3.prems"(2) [of k v] that by auto
  qed simp
  ultimately show ?case using m k
    by (subst parse_members.simps)
      (simp add: skip_ws_Cons member_text_def in_quotes_def starts_with_def scan_in_quotes)
qed simp

text \<open>What is written for a value is read back as that value, with nothing taken of the rest.\<close>

lemma parse_json_text:
  "writable d v \<Longrightarrow> ends_number r \<Longrightarrow> parse_value d (json_text v @ r) = Some (v, r)"
proof (induction v arbitrary: d r rule: json_text.induct)
  case (3 lit)
  then show ?case by (auto simp: parse_number)
next
  case (4 raw)
  with 4 show ?case
    by (auto simp: parse_value.simps skip_ws_Cons in_quotes_def scan_in_quotes)
next
  case (5 vs)
  show ?case
  proof (cases vs)
    case Nil
    with 5 show ?thesis
      by (simp add: parse_value.simps skip_ws_Cons starts_with_def)
  next
    case (Cons v ws)
    let ?t = "comma_separated (map json_text vs) @ CHR '']'' # r"
    have "parse_elems (d - 1) ?t = Some (vs, r)"
      using 5 Cons by (intro parse_elems_text) auto
    moreover have "token_start (json_text v)" using 5 Cons json_text_start by auto
    then have "skip_ws ?t = ?t \<and> \<not> starts_with (CHR '']'') ?t"
      using token_start_append Cons by (cases ws) simp_all
    ultimately show ?thesis using "5.prems"
      by (subst parse_value.simps) (simp add: skip_ws_Cons)
  qed
next
  case (6 ms)
  have member: "(\<lambda>(k, v). in_quotes k @ CHR '':'' # json_text v) = member_text"
    by (auto simp: member_text_def)
  show ?case
  proof (cases ms)
    case Nil
    with 6 show ?thesis
      by (simp add: parse_value.simps skip_ws_Cons starts_with_def)
  next
    case (Cons m ns)
    let ?t = "comma_separated (map member_text ms) @ CHR ''}'' # r"
    have "parse_members (d - 1) ?t = Some (ms, r)"
    proof (rule parse_members_text)
      show "parse_value (d - 1) (json_text v @ r) = Some (v, r)"
        if "(k, v) \<in> set ms" "ends_number r" for k v r
        using "6.IH" [OF that(1) refl] that "6.prems" by auto
    qed (use "6.prems" Cons in auto)
    moreover have "skip_ws ?t = ?t \<and> \<not> starts_with (CHR ''}'') ?t"
      using Cons by (cases ns)
        (auto simp: member_text_def in_quotes_def starts_with_def skip_ws_Cons)
    ultimately show ?thesis using "6.prems"
      by (subst parse_value.simps) (simp add: skip_ws_Cons member)
  qed
qed (simp_all add: parse_value.simps skip_ws_Cons dquote_def)

lemma json_parse_text: "writable max_depth v \<Longrightarrow> json_parse (json_text v) = Some v"
  using parse_json_text [of max_depth v "[]"]
  by (simp add: json_parse_def ends_number_def skip_ws_def)

lemma json_first_text: "writable max_depth v \<Longrightarrow> ends_number r \<Longrightarrow> json_first (json_text v @ r) = Some v"
  using parse_json_text [of max_depth v r] by (simp add: json_first_def)

subsection \<open>A parse consumes something\<close>

lemma skip_ws_SomeD: "skip_ws s = c # t \<Longrightarrow> length t < length s"
  using length_skip_ws [of s] by simp

lemma tl_skip_ws: "starts_with c (skip_ws s) \<Longrightarrow> length (tl (skip_ws s)) < length s"
  using length_skip_ws [of s] by (cases "skip_ws s") (auto simp: starts_with_def)

lemma scan_string_shorter: "scan_string s = Some (raw, r) \<Longrightarrow> length r < length s"
  by (induction s arbitrary: raw r rule: scan_string.induct)
    (fastforce split: if_splits list.splits simp: less_Suc_eq)+

lemma scan_digits_shorter: "scan_digits s = (d, r) \<Longrightarrow> length r + length d = length s"
  by (metis Pair_inject add.commute length_append scan_digits_def takeWhile_dropWhile_id)

lemma scan_number_shorter:
  assumes "scan_number s = Some (lit, r)"
  shows "length r < length s"
proof -
  let ?s1 = "drop (length (if starts_with (CHR ''-'') s then ''-'' else [])) s"
  obtain whole s2 where whole: "scan_whole ?s1 = (whole, s2)" by fastforce
  with assms obtain frac s3 ex s4 where parts: "whole \<noteq> []" "scan_fraction s2 = Some (frac, s3)"
    "scan_exponent s3 = Some (ex, s4)" "r = s4"
    by (auto simp: scan_number_def Let_def split: if_splits option.splits)
  have "length s2 < length ?s1"
  proof (cases "starts_with (CHR ''0'') ?s1")
    case True
    with whole show ?thesis by (auto simp: scan_whole_def starts_with_def)
  next
    case False
    with whole have "length s2 + length whole = length ?s1"
      by (intro scan_digits_shorter) (simp add: scan_whole_def)
    moreover have "0 < length whole" using parts(1) by simp
    ultimately show ?thesis by linarith
  qed
  moreover have "length s3 \<le> length s2"
    using parts(2) scan_digits_shorter [of "tl s2"]
    by (auto simp: scan_fraction_def split: if_splits prod.splits)
  moreover have "length s4 \<le> length s3"
    using parts(3) by (auto simp: scan_exponent_def Let_def dest!: scan_digits_shorter
        split: if_splits prod.splits)
  ultimately show ?thesis using parts(4) by simp
qed

lemma parse_shorter:
  "parse_value d s = Some (v, r) \<Longrightarrow> length r < length s"
  "parse_elems d s = Some (vs, r) \<Longrightarrow> length r < length s"
  "parse_members d s = Some (ms, r) \<Longrightarrow> length r < length s"
proof (induction d s and d s and d s arbitrary: v r and vs r and ms r
    rule: parse_value_parse_elems_parse_members.induct)
  case (1 d s)
  then obtain c t where ct: "skip_ws s = c # t" "length t < length s"
    using skip_ws_SomeD by (auto simp: parse_value.simps split: list.splits)
  have members: "length r < length t" if "c = CHR ''{''" "0 < d" "\<not> starts_with (CHR ''}'') (skip_ws t)"
      "parse_members (d - Suc 0) t = Some (ms, r)" for ms
    using "1.IH"(1) [OF ct(1)] ct that by auto
  have elems: "length r < length t" if "c = CHR ''[''" "0 < d" "\<not> starts_with (CHR '']'') (skip_ws t)"
      "parse_elems (d - Suc 0) t = Some (vs, r)" for vs
    using "1.IH"(2) [OF ct(1)] ct that by auto
  from "1.prems" ct show ?case
    by (subst (asm) parse_value.simps)
      (auto split: if_splits dest!: scan_string_shorter tl_skip_ws scan_number_shorter
        dest: members elems)
next
  case (2 d s)
  from "2.prems" obtain v q c t where step: "parse_value d s = Some (v, q)" "skip_ws q = c # t"
    and r: "r = t \<or> (c \<noteq> CHR '']'' \<and> c = CHR '','' \<and> length t < length s \<and>
      (\<exists>ws. parse_elems d t = Some (ws, r)))"
    by (subst (asm) parse_elems.simps) (auto split: option.splits list.splits if_splits)
  have "length t < length s" using "2.IH"(1) [OF step(1)] skip_ws_SomeD [OF step(2)] by simp
  with r "2.IH"(2) [OF step(1) refl step(2)] show ?case by (auto dest: less_trans)
next
  case (3 d s)
  from "3.prems" obtain k u v q c t where step: "starts_with dquote (skip_ws s)"
      "scan_string (tl (skip_ws s)) = Some (k, u)"
      "starts_with (CHR '':'') (skip_ws u) \<and> length u < length s"
      "parse_value d (tl (skip_ws u)) = Some (v, q)" "skip_ws q = c # t"
    and r: "r = t \<or> (c \<noteq> CHR ''}'' \<and> c = CHR '','' \<and> length t < length s \<and>
      (\<exists>ws. parse_members d t = Some (ws, r)))"
    by (subst (asm) parse_members.simps) (auto split: option.splits list.splits if_splits)
  have "length q < length (tl (skip_ws u))"
    using "3.IH"(1) [OF _ step(2) refl _ step(4)] step(1,3) by simp
  then have "length t < length s"
    using tl_skip_ws [of _ u] step(3) skip_ws_SomeD [OF step(5)] by fastforce
  with r "3.IH"(2) [OF _ step(2) refl _ step(4) refl step(5)] step(1,3) show ?case
    by (auto dest: less_trans)
qed

end
