(* ===== verification/Rfc3339.thy ===== *)
theory Rfc3339
  imports Go_Runtime Json
begin

text \<open>
  How the program writes and reads time values in JSON: \<^verbatim>\<open>time.Time\<close>'s
  \<^verbatim>\<open>MarshalJSON\<close> (RFC 3339 with up to nine fractional digits) and
  \<^verbatim>\<open>UnmarshalJSON\<close>, with the proleptic Gregorian calendar they need. The parser
  accepts what \<^verbatim>\<open>time.Parse(time.RFC3339, s)\<close> accepts: also one-digit hours, a
  comma before the fraction, and fractions longer than nine digits, which are cut.
\<close>

section \<open>The calendar\<close>

definition leap :: "int \<Rightarrow> bool" where
  "leap y \<longleftrightarrow> y mod 4 = 0 \<and> (y mod 100 \<noteq> 0 \<or> y mod 400 = 0)"

definition month_lengths :: "int \<Rightarrow> nat list" where
  "month_lengths y =
     [31, if leap y then 29 else 28, 31, 30, 31, 30, 31, 31, 30, 31, 30, 31]"

text \<open>Days from 1 January of year 1 to 1 January of year \<open>y\<close>.\<close>

definition days_before_year :: "int \<Rightarrow> int" where
  "days_before_year y = (let p = y - 1 in 365 * p + p div 4 - p div 100 + p div 400)"

text \<open>The year that day number \<open>d\<close> (0 is 1 January of year 1) falls in, and the day in it.\<close>

definition year_of_day :: "int \<Rightarrow> int \<times> nat" where
  "year_of_day d =
     (let era = d div 146097; r = d mod 146097;
          c = min (r div 36524) 3; r1 = r - 36524 * c;
          q = r1 div 1461; r2 = r1 mod 1461;
          a = min (r2 div 365) 3
      in (400 * era + 100 * c + 4 * q + a + 1, nat (r2 - 365 * a)))"

text \<open>Month and day of the month, both from 1.\<close>

fun month_of_day :: "nat list \<Rightarrow> nat \<Rightarrow> nat \<times> nat" where
  "month_of_day [] n = (1, n + 1)"
| "month_of_day (l # ls) n =
     (if n < l then (1, n + 1) else (case month_of_day ls (n - l) of (m, d) \<Rightarrow> (m + 1, d)))"

definition day_number :: "int \<Rightarrow> nat \<Rightarrow> nat \<Rightarrow> int" where
  "day_number y m d = days_before_year y + int (sum_list (take (m - 1) (month_lengths y)) + (d - 1))"

text \<open>Day number of 1 January 1970.\<close>

definition unix_epoch_day :: int where
  "unix_epoch_day = 719162"

section \<open>Writing\<close>

fun padded :: "nat \<Rightarrow> nat \<Rightarrow> string" where
  "padded 0 n = []"
| "padded (Suc k) n = padded k (n div 10) @ [digit_char (n mod 10)]"

fun trimmed :: "nat \<Rightarrow> nat \<Rightarrow> string" where
  "trimmed 0 n = []"
| "trimmed (Suc k) n = (if n mod 10 = 0 then trimmed k (n div 10) else padded (Suc k) n)"

definition zone_text :: "int \<Rightarrow> string" where
  "zone_text z =
     (if z = 0 then ''Z''
      else let neg = z \<le> - 60; mins = nat (if z < 0 then (- z) div 60 else z div 60)
           in (if neg then ''-'' else ''+'') @ padded 2 (mins div 60) @ '':'' @ padded 2 (mins mod 60))"

definition marshal_time :: "gotime \<Rightarrow> string option" where
  "marshal_time t =
     (let local = instant t + zone t * 10 ^ 9;
          secs = local div 10 ^ 9;
          ns = nat (local mod 10 ^ 9);
          sod = nat (secs mod 86400)
      in case year_of_day (secs div 86400 + unix_epoch_day) of
           (y, yd) \<Rightarrow>
             (case month_of_day (month_lengths y) yd of
                (m, d) \<Rightarrow>
                  if y < 0 \<or> 9999 < y \<or> 24 * 3600 \<le> \<bar>zone t\<bar> then None
                  else Some (padded 4 (nat y) @ ''-'' @ padded 2 m @ ''-'' @ padded 2 d @ ''T'' @
                    padded 2 (sod div 3600) @ '':'' @ padded 2 (sod div 60 mod 60) @ '':'' @
                    padded 2 (sod mod 60) @ (if ns = 0 then [] else ''.'' @ trimmed 9 ns) @
                    zone_text (zone t))))"

section \<open>Reading\<close>

text \<open>A literal character of the layout.\<close>

definition expect :: "char \<Rightarrow> string \<Rightarrow> string option" where
  "expect c s = (if starts_with c s then Some (tl s) else None)"

definition number :: "nat \<Rightarrow> string \<Rightarrow> (nat \<times> string) option" where
  "number k s =
     (if k \<le> length s \<and> list_all is_digit (take k s)
      then Some (nat_of_digits (take k s), drop k s) else None)"

definition hour_number :: "string \<Rightarrow> (nat \<times> string) option" where
  "hour_number s = (case number 2 s of Some x \<Rightarrow> Some x | None \<Rightarrow> number 1 s)"

text \<open>The fraction in nanoseconds, if there is one.\<close>

definition fraction :: "string \<Rightarrow> nat \<times> string" where
  "fraction s =
     (if (starts_with (CHR ''.'') s \<or> starts_with (CHR '','') s) \<and> tl s \<noteq> [] \<and> is_digit (hd (tl s))
      then (case scan_digits (tl s) of
              (ds, r) \<Rightarrow> (nat_of_digits (take 9 ds) * 10 ^ (9 - length ds), r))
      else (0, s))"

definition zone_offset :: "string \<Rightarrow> int option" where
  "zone_offset s =
     (if s = ''Z'' then Some 0
      else if length s = 6 \<and> s ! 3 = CHR '':'' \<and> (hd s = CHR ''+'' \<or> hd s = CHR ''-'') then
        (case (number 2 (tl s), number 2 (drop 4 s)) of
           (Some (h, _), Some (m, _)) \<Rightarrow>
             if 24 < h \<or> 60 < m then None
             else Some ((if hd s = CHR ''-'' then - 1 else 1) * int ((h * 60 + m) * 60))
         | _ \<Rightarrow> None)
      else None)"

definition unmarshal_time :: "string \<Rightarrow> gotime option" where
  "unmarshal_time s0 =
     Option.bind (number 4 s0) (\<lambda>(y, s1). Option.bind (expect (CHR ''-'') s1) (\<lambda>s2.
     Option.bind (number 2 s2) (\<lambda>(m, s3). Option.bind (expect (CHR ''-'') s3) (\<lambda>s4.
     Option.bind (number 2 s4) (\<lambda>(d, s5). Option.bind (expect (CHR ''T'') s5) (\<lambda>s6.
     Option.bind (hour_number s6) (\<lambda>(hh, s7). Option.bind (expect (CHR '':'') s7) (\<lambda>s8.
     Option.bind (number 2 s8) (\<lambda>(mi, s9). Option.bind (expect (CHR '':'') s9) (\<lambda>s10.
     Option.bind (number 2 s10) (\<lambda>(se, s11).
       case fraction s11 of (ns, s12) \<Rightarrow>
       Option.bind (zone_offset s12) (\<lambda>z.
         if m = 0 \<or> 12 < m \<or> d = 0 \<or> month_lengths (int y) ! (m - 1) < d \<or> 24 \<le> hh \<or> 60 \<le> mi \<or> 60 \<le> se
         then None
         else Some \<lparr>instant =
             ((day_number (int y) m d - unix_epoch_day) * 86400 + int (hh * 3600 + mi * 60 + se) - z)
               * 10 ^ 9 + int ns,
           zone = z\<rparr>))))))))))))"

fun dec_time :: "gotime decoder" where
  "dec_time JNull t = Some t"
| "dec_time (JStr raw) t = unmarshal_time raw"
| "dec_time _ t = None"

section \<open>The calendar is a bijection\<close>

lemma capped_quotient:
  fixes r k c :: int
  assumes "0 \<le> r" and "r \<le> 4 * k" and "0 < k" and "c = min (r div k) 3"
  shows "0 \<le> c" "c \<le> 3" "0 \<le> r - k * c" "r - k * c \<le> k" "r - k * c = k \<longrightarrow> c = 3 \<and> r = 4 * k"
proof -
  define x m where "x = r div k" and "m = r mod k"
  have xm: "r = k * x + m" "0 \<le> m" "m < k" "0 \<le> x"
    using assms(1,3) by (simp_all add: x_def m_def pos_imp_zdiv_nonneg_iff)
  have "c = x \<and> x \<le> 3 \<or> c = 3 \<and> 4 \<le> x" using assms(4) by (auto simp: x_def)
  then have "0 \<le> c \<and> c \<le> 3 \<and> 0 \<le> r - k * c \<and> r - k * c \<le> k \<and> (r - k * c = k \<longrightarrow> c = 3 \<and> r = 4 * k)"
  proof
    assume "c = x \<and> x \<le> 3"
    with xm show ?thesis by simp
  next
    assume c: "c = 3 \<and> 4 \<le> x"
    have "k * 4 \<le> k * x" using c assms(3) by simp
    then have "r = 4 * k" using xm(1,2) assms(2) by linarith
    with c assms(3) show ?thesis by simp
  qed
  then show "0 \<le> c" "c \<le> 3" "0 \<le> r - k * c" "r - k * c \<le> k" "r - k * c = k \<longrightarrow> c = 3 \<and> r = 4 * k"
    by auto
qed

lemma year_parts:
  fixes d :: int
  assumes "year_of_day d = (y, yd)"
  obtains e c q a where "0 \<le> c" "c \<le> 3" "0 \<le> q" "q \<le> 24" "0 \<le> a" "a \<le> 3" "yd \<le> 365"
    and "y = 400 * e + 100 * c + 4 * q + a + 1"
    and "d = 146097 * e + 36524 * c + 1461 * q + 365 * a + int yd"
    and "yd = 365 \<Longrightarrow> a = 3 \<and> (q = 24 \<longrightarrow> c = 3)"
proof -
  define e r where er: "e = d div 146097" "r = d mod 146097"
  have r: "d = 146097 * e + r" "0 \<le> r" "r < 146097" by (simp_all add: er)
  define c where "c = min (r div 36524) 3"
  define r1 where "r1 = r - 36524 * c"
  have c: "0 \<le> c" "c \<le> 3" "0 \<le> r1" "r1 \<le> 36524" "r1 = 36524 \<longrightarrow> c = 3"
  proof -
    have "r \<le> 4 * 36524" using r(3) by simp
    note q = capped_quotient [OF r(2) this _ c_def]
    show "0 \<le> c" "c \<le> 3" "0 \<le> r1" "r1 \<le> 36524" "r1 = 36524 \<longrightarrow> c = 3"
      using q unfolding r1_def by simp_all
  qed
  define q r2 where qr: "q = r1 div 1461" "r2 = r1 mod 1461"
  have q: "r1 = 1461 * q + r2" "0 \<le> r2" "r2 < 1461" "0 \<le> q" "q \<le> 24"
    using c by (simp_all add: qr)
  define a where "a = min (r2 div 365) 3"
  have a: "0 \<le> a" "a \<le> 3" "0 \<le> r2 - 365 * a" "r2 - 365 * a \<le> 365"
    "r2 - 365 * a = 365 \<longrightarrow> a = 3 \<and> r2 = 1460"
  proof -
    have "r2 \<le> 4 * 365" using q(3) by simp
    note q4 = capped_quotient [OF q(2) this _ a_def]
    show "0 \<le> a" "a \<le> 3" "0 \<le> r2 - 365 * a" "r2 - 365 * a \<le> 365"
      "r2 - 365 * a = 365 \<longrightarrow> a = 3 \<and> r2 = 1460"
      using q4 by simp_all
  qed
  have y: "y = 400 * e + 100 * c + 4 * q + a + 1" and yd: "yd = nat (r2 - 365 * a)"
    using assms
    by (auto simp: year_of_day_def Let_def er [symmetric] c_def [symmetric] r1_def [symmetric]
        qr [symmetric] a_def [symmetric])
  show ?thesis
  proof (rule that [OF c(1,2) q(4,5) a(1,2) _ y])
    show "d = 146097 * e + 36524 * c + 1461 * q + 365 * a + int yd"
      using r(1) q(1) a(3) by (simp add: yd r1_def)
    show "yd \<le> 365" using a(4) by (simp add: yd)
    show "a = 3 \<and> (q = 24 \<longrightarrow> c = 3)" if "yd = 365"
      using that a q c by (simp add: yd)
  qed
qed

lemma year_quotients:
  fixes e c q a :: int
  assumes "0 \<le> c" "c \<le> 3" "0 \<le> q" "q \<le> 24" "0 \<le> a" "a \<le> 3"
  shows "(400 * e + 100 * c + 4 * q + a) div 4 = 100 * e + 25 * c + q"
    and "(400 * e + 100 * c + 4 * q + a) div 100 = 4 * e + c"
    and "(400 * e + 100 * c + 4 * q + a) div 400 = e"
proof -
  show "(400 * e + 100 * c + 4 * q + a) div 4 = 100 * e + 25 * c + q"
    using assms by (intro int_div_pos_eq [where r = a]) simp_all
  show "(400 * e + 100 * c + 4 * q + a) div 100 = 4 * e + c"
    using assms by (intro int_div_pos_eq [where r = "4 * q + a"]) simp_all
  show "(400 * e + 100 * c + 4 * q + a) div 400 = e"
    using assms by (intro int_div_pos_eq [where r = "100 * c + 4 * q + a"]) simp_all
qed

lemma days_before_year_of_day:
  assumes "year_of_day d = (y, yd)"
  shows "days_before_year y + int yd = d"
  using assms
  by (rule year_parts) (simp add: days_before_year_def year_quotients)

lemma sum_month_lengths: "sum_list (month_lengths y) = (if leap y then 366 else 365)"
  by (simp add: month_lengths_def)

lemma year_day_less:
  assumes "year_of_day d = (y, yd)"
  shows "yd < sum_list (month_lengths y)"
proof -
  from assms obtain e c q a where p: "0 \<le> c" "c \<le> 3" "0 \<le> q" "q \<le> 24" "0 \<le> a" "a \<le> 3" "yd \<le> 365"
    "y = 400 * e + 100 * c + 4 * q + a + 1" "yd = 365 \<Longrightarrow> a = 3 \<and> (q = 24 \<longrightarrow> c = 3)"
    by (rule year_parts) blast
  have "leap y" if yd: "yd = 365"
  proof -
    from p(9) [OF yd] p(8) have y: "y = 400 * e + 100 * c + 4 * q + 4" and c: "q = 24 \<longrightarrow> c = 3" by auto
    show ?thesis
    proof (cases "q = 24")
      case True
      with c y have "y = 400 * (e + 1)" by simp
      then show ?thesis by (auto simp: leap_def)
    next
      case False
      with p(3,4) y have "y mod 100 = 4 * q + 4"
        by (intro int_mod_pos_eq [where q = "4 * e + c"]) simp_all
      moreover have "y mod 4 = 0" using y by (intro int_mod_pos_eq [where q = "100 * e + 25 * c + q + 1"]) simp_all
      ultimately show ?thesis using p(3) by (simp add: leap_def)
    qed
  qed
  with p(7) show ?thesis by (cases "yd = 365") (auto simp: sum_month_lengths)
qed

lemma month_of_day_sound:
  assumes "n < sum_list ls" and "month_of_day ls n = (m, d)"
  shows "1 \<le> m" "m \<le> length ls" "1 \<le> d" "d \<le> ls ! (m - 1)" "sum_list (take (m - 1) ls) + (d - 1) = n"
proof -
  have "1 \<le> m \<and> m \<le> length ls \<and> 1 \<le> d \<and> d \<le> ls ! (m - 1) \<and>
      sum_list (take (m - 1) ls) + (d - 1) = n"
    using assms
  proof (induction ls arbitrary: n m)
    case (Cons l ls)
    show ?case
    proof (cases "n < l")
      case False
      with Cons.prems obtain m' where m': "month_of_day ls (n - l) = (m', d)" "m = m' + 1"
        by (auto split: prod.splits)
      from False Cons.prems have "n - l < sum_list ls" by simp
      from Cons.IH [OF this m'(1)] False m'(2) show ?thesis
        by (cases m') auto
    qed (use Cons.prems in auto)
  qed simp
  then show "1 \<le> m" "m \<le> length ls" "1 \<le> d" "d \<le> ls ! (m - 1)"
    "sum_list (take (m - 1) ls) + (d - 1) = n" by auto
qed

lemma calendar:
  assumes "year_of_day n = (y, yd)" and "month_of_day (month_lengths y) yd = (m, d)"
  shows "day_number y m d = n" "1 \<le> m" "m \<le> 12" "1 \<le> d" "d \<le> month_lengths y ! (m - 1)" "d \<le> 31"
proof -
  note month = month_of_day_sound [OF year_day_less [OF assms(1)] assms(2)]
  show "day_number y m d = n"
    using month(5) days_before_year_of_day [OF assms(1)] by (simp only: day_number_def)
  show "1 \<le> m" "m \<le> 12" "1 \<le> d" "d \<le> month_lengths y ! (m - 1)"
    using month by (simp_all add: month_lengths_def)
  have "\<forall>l \<in> set (month_lengths y). l \<le> 31" by (simp add: month_lengths_def)
  moreover have "m - 1 < length (month_lengths y)" using month(1,2) by simp
  ultimately show "d \<le> 31" using month(4) nth_mem le_trans by blast
qed

section \<open>Reading what was written\<close>

lemma length_padded [simp]: "length (padded k n) = k"
  by (induction k arbitrary: n) auto

lemma padded_digits: "list_all is_digit (padded k n)"
  by (induction k arbitrary: n) (simp_all add: digit_char_props)

lemma nat_of_digits_padded: "n < 10 ^ k \<Longrightarrow> nat_of_digits (padded k n) = n"
proof (induction k arbitrary: n)
  case 0
  then show ?case by (simp add: nat_of_digits_def)
next
  case (Suc k)
  then have "n div 10 < 10 ^ k" by (simp add: less_mult_imp_div_less mult.commute)
  with Suc.IH show ?case by (simp add: nat_of_digits_snoc digit_char_props)
qed

lemma number_padded: "n < 10 ^ k \<Longrightarrow> number k (padded k n @ r) = Some (n, r)"
  by (simp add: number_def padded_digits nat_of_digits_padded)

lemma number_2: "n < 100 \<Longrightarrow> number 2 (padded 2 n @ r) = Some (n, r)"
  by (rule number_padded) simp

lemma expect_Cons [simp]: "expect c (c # s) = Some s"
  by (simp add: expect_def starts_with_def)

lemma trimmed_props:
  "0 < n \<Longrightarrow> n < 10 ^ k \<Longrightarrow> list_all is_digit (trimmed k n) \<and> trimmed k n \<noteq> [] \<and>
    length (trimmed k n) \<le> k \<and> nat_of_digits (trimmed k n) * 10 ^ (k - length (trimmed k n)) = n"
proof (induction k arbitrary: n)
  case (Suc k)
  show ?case
  proof (cases "n mod 10 = 0")
    case True
    with Suc.prems have "0 < n div 10" "n div 10 < 10 ^ k" by auto
    from Suc.IH [OF this] True Suc.prems(1) show ?thesis
      by (auto simp: Suc_diff_le)
  next
    case False
    with Suc.prems show ?thesis
      using padded_digits [of "Suc k" n] nat_of_digits_padded [of n "Suc k"] by simp
  qed
qed simp

text \<open>What the writer puts between the seconds and the end, the reader takes apart again.\<close>

definition zone_start :: "string \<Rightarrow> bool" where
  "zone_start r \<longleftrightarrow> r \<noteq> [] \<and> hd r \<in> {CHR ''Z'', CHR ''+'', CHR ''-''}"

lemma fraction_trimmed:
  assumes "n < 10 ^ 9" and "zone_start r"
  shows "fraction ((if n = 0 then [] else ''.'' @ trimmed 9 n) @ r) = (n, r)"
proof (cases "n = 0")
  case True
  with assms(2) show ?thesis by (auto simp: fraction_def starts_with_def zone_start_def)
next
  case False
  with trimmed_props [of n 9] assms(1) have t: "list_all is_digit (trimmed 9 n)" "trimmed 9 n \<noteq> []"
    "length (trimmed 9 n) \<le> 9" "nat_of_digits (trimmed 9 n) * 10 ^ (9 - length (trimmed 9 n)) = n"
    by auto
  have "ends_number r" using assms(2) by (auto simp: ends_number_def zone_start_def is_digit_def)
  from scan_digits_append [OF t(1) this] t False show ?thesis
    by (cases "trimmed 9 n") (simp_all add: fraction_def starts_with_def)
qed

lemma zone_start_text: "zone_start (zone_text z)"
  by (simp add: zone_start_def zone_text_def Let_def)

lemma zone_offset_text:
  assumes "z mod 60 = 0" and "\<bar>z\<bar> < 24 * 3600"
  shows "zone_offset (zone_text z) = Some z"
proof (cases "z = 0")
  case True
  then show ?thesis by (simp add: zone_offset_def zone_text_def)
next
  case False
  let ?sign = "if z \<le> - 60 then ''-'' else ''+''"
  define n where "n = nat (if z < 0 then (- z) div 60 else z div 60)"
  from assms(1) obtain k where k: "z = 60 * k" by (auto simp: dvd_def mod_eq_0_iff_dvd)
  have n: "int n = \<bar>k\<bar>" and neg: "z \<le> - 60 \<longleftrightarrow> k < 0" using k False by (auto simp: n_def)
  have less: "n div 60 < 24" using assms(2) k n by (simp add: less_mult_imp_div_less)
  have ztext: "zone_text z = ?sign @ padded 2 (n div 60) @ '':'' @ padded 2 (n mod 60)"
    using False by (simp add: zone_text_def n_def Let_def)
  obtain c1 c2 d1 d2 where cd: "padded 2 (n div 60) = [c1, c2]" "padded 2 (n mod 60) = [d1, d2]"
    by (simp add: numeral_2_eq_2)
  have h: "number 2 [c1, c2, CHR '':'', d1, d2] = Some (n div 60, [CHR '':'', d1, d2])"
    using number_2 [of "n div 60" "[CHR '':'', d1, d2]"] less cd by simp
  have m: "number 2 [d1, d2] = Some (n mod 60, [])"
    using number_2 [of "n mod 60" "[]"] less_trans [of "n mod 60" 60 100] cd by simp
  have "int ((n div 60 * 60 + n mod 60) * 60) = 60 * \<bar>k\<bar>" using n by simp
  moreover have "zone_text z = [if k < 0 then CHR ''-'' else CHR ''+'', c1, c2, CHR '':'', d1, d2]"
    unfolding ztext cd using neg by simp
  ultimately show ?thesis using less k
    by (simp only: zone_offset_def) (auto simp: h m)
qed

text \<open>
  A time whose offset is a whole number of minutes, written by \<^verbatim>\<open>MarshalJSON\<close>, is
  read back by \<^verbatim>\<open>UnmarshalJSON\<close> as the same instant with the same offset.
\<close>

definition time_text :: "int \<Rightarrow> nat \<Rightarrow> nat \<Rightarrow> nat \<Rightarrow> nat \<Rightarrow> int \<Rightarrow> string" where
  "time_text y m d sod ns z =
     padded 4 (nat y) @ ''-'' @ padded 2 m @ ''-'' @ padded 2 d @ ''T'' @
     padded 2 (sod div 3600) @ '':'' @ padded 2 (sod div 60 mod 60) @ '':'' @
     padded 2 (sod mod 60) @ (if ns = 0 then [] else ''.'' @ trimmed 9 ns) @ zone_text z"

lemma marshal_time_eq:
  fixes t :: gotime
  defines "loc \<equiv> instant t + zone t * 10 ^ 9"
  assumes "year_of_day (loc div 10 ^ 9 div 86400 + unix_epoch_day) = (y, yd)"
    and "month_of_day (month_lengths y) yd = (m, d)"
  shows "marshal_time t =
    (if y < 0 \<or> 9999 < y \<or> 24 * 3600 \<le> \<bar>zone t\<bar> then None
     else Some (time_text y m d (nat (loc div 10 ^ 9 mod 86400)) (nat (loc mod 10 ^ 9)) (zone t)))"
  unfolding marshal_time_def Let_def loc_def [symmetric] assms(2,3) prod.case time_text_def
  by (rule refl)

definition year_of :: "gotime \<Rightarrow> int" where
  "year_of t = fst (year_of_day ((instant t + zone t * 10 ^ 9) div 10 ^ 9 div 86400 + unix_epoch_day))"

lemma marshal_time_defined:
  "marshal_time t \<noteq> None \<longleftrightarrow> 0 \<le> year_of t \<and> year_of t \<le> 9999 \<and> \<bar>zone t\<bar> < 24 * 3600"
proof -
  obtain y yd where year: "year_of_day ((instant t + zone t * 10 ^ 9) div 10 ^ 9 div 86400 + unix_epoch_day) = (y, yd)"
    by fastforce
  obtain m d where month: "month_of_day (month_lengths y) yd = (m, d)" by fastforce
  show ?thesis unfolding marshal_time_eq [OF year month] year_of_def year fst_conv by auto
qed

lemma unmarshal_marshal_time:
  assumes "marshal_time t = Some s" and "zone t mod 60 = 0"
  shows "unmarshal_time s = Some t"
proof -
  define loc where "loc = instant t + zone t * 10 ^ 9"
  define secs where "secs = loc div 10 ^ 9"
  define ns where "ns = nat (loc mod 10 ^ 9)"
  define sod where "sod = nat (secs mod 86400)"
  obtain y yd where year: "year_of_day (secs div 86400 + unix_epoch_day) = (y, yd)" by fastforce
  obtain m d where month: "month_of_day (month_lengths y) yd = (m, d)" by fastforce
  note cal = calendar [OF year month]
  let ?bad = "y < 0 \<or> 9999 < y \<or> 24 * 3600 \<le> \<bar>zone t\<bar>"
  have eq: "marshal_time t = (if ?bad then None else Some (time_text y m d sod ns (zone t)))"
    using marshal_time_eq year month unfolding loc_def secs_def ns_def sod_def by blast
  have good: "\<not> ?bad" using eq assms(1) by (metis option.distinct(1))
  then have range: "0 \<le> y" "y \<le> 9999" "\<bar>zone t\<bar> < 24 * 3600" by auto
  have s: "s = time_text y m d sod ns (zone t)"
    using eq assms(1) good by (simp only: if_False option.inject)
  have ns: "ns < 10 ^ 9" and sod: "sod < 86400"
    by (simp_all add: ns_def sod_def nat_less_iff)
  have digits: "sod div 3600 < 24" "sod div 60 mod 60 < 60" "sod mod 60 < 60"
    using sod by (simp_all add: less_mult_imp_div_less)
  have hms: "sod div 3600 * 3600 + sod div 60 mod 60 * 60 + sod mod 60 = sod"
  proof -
    have "sod div 3600 = sod div 60 div 60" by (simp add: div_mult2_eq [symmetric])
    then show ?thesis
      using div_mult_mod_eq [of sod 60] div_mult_mod_eq [of "sod div 60" 60] by linarith
  qed
  have time: "((secs div 86400) * 86400 + int sod - zone t) * 10 ^ 9 + int ns = instant t"
  proof -
    have "(secs div 86400) * 86400 + int sod = secs" by (simp add: sod_def)
    moreover have "secs * 10 ^ 9 + int ns = loc" by (simp add: secs_def ns_def)
    ultimately show ?thesis by (simp add: loc_def algebra_simps)
  qed
  have hour: "hour_number (padded 2 (sod div 3600) @ r) = Some (sod div 3600, r)" for r
    using digits(1) by (simp add: hour_number_def number_2)
  have y4: "number 4 (padded 4 (nat y) @ r) = Some (nat y, r)" for r
    using range(2) by (intro number_padded) simp
  have md: "number 2 (padded 2 m @ r) = Some (m, r)" "number 2 (padded 2 d @ r) = Some (d, r)" for r
    using cal(3,6) by (auto intro: number_2)
  have ms: "number 2 (padded 2 (sod div 60 mod 60) @ r) = Some (sod div 60 mod 60, r)"
    "number 2 (padded 2 (sod mod 60) @ r) = Some (sod mod 60, r)" for r
    using digits by (auto intro: number_2)
  have fine: "\<not> (m = 0 \<or> 12 < m \<or> d = 0 \<or> month_lengths y ! (m - 1) < d \<or> 24 \<le> sod div 3600
      \<or> 60 \<le> sod div 60 mod 60 \<or> 60 \<le> sod mod 60)"
    using cal(2-5) digits by auto
  have "unmarshal_time s = Some \<lparr>instant =
      ((day_number y m d - unix_epoch_day) * 86400 + int sod - zone t) * 10 ^ 9 + int ns, zone = zone t\<rparr>"
    unfolding unmarshal_time_def s time_text_def
    using fine range(1) by (simp add: y4 md ms hour fraction_trimmed [OF ns zone_start_text]
      zone_offset_text [OF assms(2) range(3)] hms del: One_nat_def)
  also have "\<dots> = Some t" using time by (simp add: cal(1))
  finally show ?thesis .
qed

section \<open>As a JSON value\<close>

text \<open>Characters that the encoder copies as they are.\<close>

definition plain :: "char \<Rightarrow> bool" where
  "plain c \<longleftrightarrow> is_digit c \<or> c \<in> {CHR ''-'', CHR '':'', CHR ''T'', CHR ''Z'', CHR ''.'', CHR ''+''}"

lemma is_digit_cases: "is_digit c \<Longrightarrow> c \<in> set ''0123456789''"
proof -
  assume "is_digit c"
  then have "code c \<in> set [48..<58]" by (simp only: set_upt atLeastLessThan_iff is_digit_def) simp
  then have "char_of (code c) \<in> set (map char_of [48..<58 :: nat])" by (metis image_eqI list.set_map)
  also have "map char_of [48..<58 :: nat] = ''0123456789''" by code_simp
  finally show ?thesis by simp
qed

lemma plain_escape: "plain c \<Longrightarrow> code c < 0x80 \<and> json_escape c = [c]"
proof -
  have "\<forall>c \<in> set ''0123456789-:TZ.+''. code c < 0x80 \<and> json_escape c = [c]"
    by (simp add: json_escape_def dquote_def backslash_def)
  moreover assume "plain c"
  then have "c \<in> set ''0123456789-:TZ.+''" using is_digit_cases [of c] by (auto simp: plain_def)
  ultimately show ?thesis by blast
qed

lemma json_quote_plain: "list_all plain s \<Longrightarrow> json_quote s = s"
proof (induction s)
  case (Cons c s)
  then have "code c < 0x80" "json_escape c = [c]" using plain_escape [of c] by simp_all
  with Cons show ?case by (simp add: json_quote.simps [of "c # s"])
qed (simp add: json_quote.simps)

lemma plain_digits: "list_all is_digit s \<Longrightarrow> list_all plain s"
  by (auto simp: list_all_iff plain_def)

lemma plain_trimmed: "list_all plain (trimmed k n)"
proof (induction k arbitrary: n)
  case (Suc k)
  then show ?case using plain_digits [OF padded_digits, of "Suc k" n] by simp
qed simp

lemma plain_zone_text: "list_all plain (zone_text z)"
  using plain_digits [OF padded_digits] by (auto simp: zone_text_def Let_def plain_def)

lemma plain_time_text: "list_all plain (time_text y m d sod ns z)"
proof -
  have p: "list_all plain (padded k n)" for k n by (rule plain_digits [OF padded_digits])
  show ?thesis unfolding time_text_def list_all_append
    by (intro conjI p plain_zone_text) (simp_all add: plain_def plain_trimmed del: trimmed.simps)
qed

lemma json_quote_marshal_time:
  assumes "marshal_time t = Some s"
  shows "json_quote s = s"
proof -
  let ?loc = "instant t + zone t * 10 ^ 9"
  obtain y yd where year: "year_of_day (?loc div 10 ^ 9 div 86400 + unix_epoch_day) = (y, yd)"
    by fastforce
  obtain m d where month: "month_of_day (month_lengths y) yd = (m, d)" by fastforce
  from marshal_time_eq [OF year month] assms obtain sod ns where "s = time_text y m d sod ns (zone t)"
    by (metis option.distinct(1) option.inject)
  then show ?thesis using json_quote_plain plain_time_text by blast
qed

end
