(* ===== verification/Snapshots.thy ===== *)
theory Snapshots
  imports Sqlite Rfc3339
begin

text \<open>
  \<^verbatim>\<open>internal/store/sqlite/snapshots.go\<close>: the latest-only usage snapshot of each
  provider. The metrics are stored as the JSON text of a \<^verbatim>\<open>[]store.Metric\<close>, whose
  fields have no tags and so keep their Go names.
\<close>

section \<open>The JSON form of metrics\<close>

fun json_all :: "('a \<Rightarrow> json option) \<Rightarrow> 'a list \<Rightarrow> json list option" where
  "json_all f [] = Some []"
| "json_all f (x # xs) =
     (case f x of None \<Rightarrow> None | Some v \<Rightarrow> map_option (Cons v) (json_all f xs))"

definition json_of_time :: "gotime \<Rightarrow> json option" where
  "json_of_time t = map_option JStr (marshal_time t)"

definition json_of_time_option :: "gotime option \<Rightarrow> json option" where
  "json_of_time_option x = (case x of None \<Rightarrow> Some JNull | Some t \<Rightarrow> json_of_time t)"

definition json_of_metric :: "metric \<Rightarrow> json option" where
  "json_of_metric m =
     map_option (\<lambda>reset. JObj
       [(''Name'', json_of_string (m_name m)), (''Window'', json_of_string (m_window m)),
        (''Unit'', json_of_string (m_unit m)), (''Used'', json_of_int64 (m_used m)),
        (''Limit'', json_of_option json_of_int64 (m_limit m)),
        (''Remaining'', json_of_option json_of_int64 (m_remaining m)), (''ResetAt'', reset)])
       (json_of_time_option (m_reset_at m))"

definition marshal_metrics :: "metric list \<Rightarrow> string result" where
  "marshal_metrics ms =
     (case json_all json_of_metric ms of
        None \<Rightarrow> Inl (ErrorString ''json: error calling MarshalJSON for type time.Time'')
      | Some vs \<Rightarrow> Inr (json_text (JArr vs)))"

definition zero_metric :: metric where
  "zero_metric =
     \<lparr>m_name = [], m_window = [], m_unit = [], m_used = 0, m_limit = None, m_remaining = None,
      m_reset_at = None\<rparr>"

definition metric_field :: "string \<Rightarrow> metric decoder" where
  "metric_field n v m =
     (if n = ''Name'' then map_option (\<lambda>x. m\<lparr>m_name := x\<rparr>) (dec_string v (m_name m))
      else if n = ''Window'' then map_option (\<lambda>x. m\<lparr>m_window := x\<rparr>) (dec_string v (m_window m))
      else if n = ''Unit'' then map_option (\<lambda>x. m\<lparr>m_unit := x\<rparr>) (dec_string v (m_unit m))
      else if n = ''Used'' then map_option (\<lambda>x. m\<lparr>m_used := x\<rparr>) (dec_int64 v (m_used m))
      else if n = ''Limit'' then
        map_option (\<lambda>x. m\<lparr>m_limit := x\<rparr>) (dec_pointer 0 dec_int64 v (m_limit m))
      else if n = ''Remaining'' then
        map_option (\<lambda>x. m\<lparr>m_remaining := x\<rparr>) (dec_pointer 0 dec_int64 v (m_remaining m))
      else map_option (\<lambda>x. m\<lparr>m_reset_at := x\<rparr>) (dec_pointer time_Zero dec_time v (m_reset_at m)))"

definition metric_names :: "string list" where
  "metric_names = [''Name'', ''Window'', ''Unit'', ''Used'', ''Limit'', ''Remaining'', ''ResetAt'']"

definition unmarshal_metrics :: "string \<Rightarrow> metric list result" where
  "unmarshal_metrics blob =
     decode_all (\<lambda>v _. dec_slice zero_metric (dec_struct metric_names metric_field) v) [] blob"

section \<open>The snapshots table\<close>

definition sqlite_Replace ::
    "string \<Rightarrow> metric list \<Rightarrow> gotime \<Rightarrow> 'z host_scheme \<Rightarrow> unit result \<times> 'z host_scheme" where
  "sqlite_Replace p ms t s =
     (case marshal_metrics ms of
        Inl e \<Rightarrow> (Inl (Wrap (''sqlite: marshal metrics for '' @ p) e), s)
      | Inr blob \<Rightarrow>
          (case db_call s of (fault, s1) \<Rightarrow>
             (case exec_fault fault of
                Some m \<Rightarrow> (Inl (Wrap (''sqlite: replace snapshot '' @ p) (ErrorString m)), s1)
              | None \<Rightarrow>
                  (Inr (),
                   s1\<lparr>db_snapshots :=
                     (if row_of sr_provider_id (db_snapshots s1) p = None
                      then db_snapshots s1 @
                        [\<lparr>sr_provider_id = p, sr_metrics = blob, sr_collected_at = time_UTC t,
                          sr_last_error = None\<rparr>]
                      else update_rows (\<lambda>r. sr_provider_id r = p)
                        (\<lambda>r. r\<lparr>sr_metrics := blob, sr_collected_at := time_UTC t,
                               sr_last_error := None\<rparr>)
                        (db_snapshots s1))\<rparr>))))"

definition sqlite_GetSnapshot ::
    "string \<Rightarrow> 'z host_scheme \<Rightarrow> snapshot result \<times> 'z host_scheme" where
  "sqlite_GetSnapshot p s =
     (case db_call s of (fault, s1) \<Rightarrow>
        (let found = row_of sr_provider_id (db_snapshots s1) p
         in (case query_row_fault fault (found \<noteq> None) of
               Some m \<Rightarrow> Inl (Wrap (''sqlite: get snapshot '' @ p) (ErrorString m))
             | None \<Rightarrow>
                 (case found of
                    None \<Rightarrow> Inl (Sentinel ErrNotFound)
                  | Some row \<Rightarrow>
                      (case unmarshal_metrics (sr_metrics row) of
                         Inl e \<Rightarrow> Inl (Wrap (''sqlite: unmarshal metrics for '' @ p) e)
                       | Inr ms \<Rightarrow>
                           Inr \<lparr>snap_provider_id = p, snap_metrics = ms,
                                snap_collected_at = sr_collected_at row,
                                snap_last_error = sr_last_error row\<rparr>)),
             s1)))"

definition sqlite_snapshots :: "'z host_scheme snapshot_repository" where
  "sqlite_snapshots = \<lparr>snap_Replace = sqlite_Replace, snap_GetSnapshot = sqlite_GetSnapshot\<rparr>"

section \<open>What is stored is read back\<close>

definition storable_metric :: "metric \<Rightarrow> bool" where
  "storable_metric m \<longleftrightarrow>
     utf8_valid (m_name m) \<and> utf8_valid (m_window m) \<and> utf8_valid (m_unit m) \<and>
     (case m_reset_at m of None \<Rightarrow> True | Some t \<Rightarrow> marshal_time t \<noteq> None \<and> zone t mod 60 = 0)"

definition storable_metrics :: "metric list \<Rightarrow> bool" where
  "storable_metrics ms \<longleftrightarrow> list_all storable_metric ms"

lemma dec_string_of_string: "utf8_valid s \<Longrightarrow> dec_string (json_of_string s) x = Some s"
  by (simp add: json_of_string_def unquote_quote)

lemma dec_int64_of_int64 [simp]: "dec_int64 (json_of_int64 w) x = Some w"
  by (simp add: json_of_int64_def)

lemma dec_pointer_of_option:
  "(\<And>y. f y \<noteq> JNull \<and> dec (f y) zero = Some y) \<Longrightarrow>
   dec_pointer zero dec (json_of_option f x) None = Some x"
  by (cases x) (simp_all add: dec_pointer_def json_of_option_def)

lemma dec_time_of_option:
  assumes "json_of_time_option x = Some v" and "\<And>t. x = Some t \<Longrightarrow> zone t mod 60 = 0"
  shows "dec_pointer time_Zero dec_time v None = Some x"
  using assms unmarshal_marshal_time
  by (cases x) (auto simp: json_of_time_option_def json_of_time_def dec_pointer_def)

lemma metric_names_match: "n \<in> set metric_names \<Longrightarrow> field_match metric_names (unquote n) = Some n"
proof -
  have "\<forall>n \<in> set metric_names. field_match metric_names (unquote n) = Some n" by code_simp
  then show "n \<in> set metric_names \<Longrightarrow> ?thesis" by blast
qed

lemma json_of_metric_SomeE:
  assumes "json_of_metric m = Some v"
  obtains reset where "json_of_time_option (m_reset_at m) = Some reset" and "v = JObj
    [(''Name'', json_of_string (m_name m)), (''Window'', json_of_string (m_window m)),
     (''Unit'', json_of_string (m_unit m)), (''Used'', json_of_int64 (m_used m)),
     (''Limit'', json_of_option json_of_int64 (m_limit m)),
     (''Remaining'', json_of_option json_of_int64 (m_remaining m)), (''ResetAt'', reset)]"
  using assms by (auto simp: json_of_metric_def)

lemma dec_metric:
  assumes "json_of_metric m = Some v" and "storable_metric m"
  shows "dec_struct metric_names metric_field v zero_metric = Some m"
proof -
  from assms(1) obtain reset where reset: "json_of_time_option (m_reset_at m) = Some reset"
    and v: "v = JObj
    [(''Name'', json_of_string (m_name m)), (''Window'', json_of_string (m_window m)),
     (''Unit'', json_of_string (m_unit m)), (''Used'', json_of_int64 (m_used m)),
     (''Limit'', json_of_option json_of_int64 (m_limit m)),
     (''Remaining'', json_of_option json_of_int64 (m_remaining m)), (''ResetAt'', reset)]"
    by (rule json_of_metric_SomeE)
  have time: "dec_pointer time_Zero dec_time reset None = Some (m_reset_at m)"
    using assms(2) by (intro dec_time_of_option [OF reset]) (simp add: storable_metric_def)
  have ptr: "dec_pointer 0 dec_int64 (json_of_option json_of_int64 x) None = Some x" for x
    by (rule dec_pointer_of_option) (simp add: json_of_int64_def)
  have names: "field_match metric_names (unquote n) = Some n"
    if "n \<in> {''Name'', ''Window'', ''Unit'', ''Used'', ''Limit'', ''Remaining'', ''ResetAt''}" for n
    using that by (intro metric_names_match) (auto simp: metric_names_def)
  show ?thesis
    using assms(2)
    by (simp add: v names metric_field_def zero_metric_def time ptr dec_string_of_string
        storable_metric_def)
qed

lemma dec_metrics:
  "json_all json_of_metric ms = Some vs \<Longrightarrow> storable_metrics ms \<Longrightarrow>
   dec_elems zero_metric (dec_struct metric_names metric_field) vs = Some ms"
  by (induction ms arbitrary: vs)
    (auto simp: storable_metrics_def dec_metric split: option.splits)

lemma writable_strings [simp]: "writable d (json_of_string s)"
  by (simp add: json_of_string_def)

lemma writable_int64 [simp]: "writable d (json_of_int64 w)"
  by (simp add: json_of_int64_def)

lemma writable_option: "(\<And>y. writable d (f y)) \<Longrightarrow> writable d (json_of_option f x)"
  by (cases x) (simp_all add: json_of_option_def)

lemma writable_time: "json_of_time_option x = Some v \<Longrightarrow> writable d v"
  by (auto simp: json_of_time_option_def json_of_time_def image_iff dest!: json_quote_marshal_time
      split: option.splits) (metis)

lemma metric_names_quoted: "n \<in> set metric_names \<Longrightarrow> n \<in> range json_quote"
proof -
  have "\<forall>n \<in> set metric_names. json_quote n = n" by code_simp
  then show "n \<in> set metric_names \<Longrightarrow> ?thesis" by (metis range_eqI)
qed

lemma writable_metric: "json_of_metric m = Some v \<Longrightarrow> 0 < d \<Longrightarrow> writable d v"
  using metric_names_quoted
  by (elim json_of_metric_SomeE) (auto simp: metric_names_def writable_time writable_option)

lemma writable_metrics: "json_all json_of_metric ms = Some vs \<Longrightarrow> v \<in> set vs \<Longrightarrow> 0 < d \<Longrightarrow> writable d v"
  by (induction ms arbitrary: vs) (auto simp: writable_metric split: option.splits)

lemma unmarshal_marshal_metrics:
  assumes "storable_metrics ms"
  shows "\<exists>blob. marshal_metrics ms = Inr blob \<and> unmarshal_metrics blob = Inr ms"
proof -
  have "json_of_metric m \<noteq> None" if "storable_metric m" for m
    using that by (auto simp: json_of_metric_def json_of_time_option_def json_of_time_def
        storable_metric_def split: option.splits)
  with assms have "json_all json_of_metric ms \<noteq> None"
    by (induction ms) (auto simp: storable_metrics_def split: option.splits)
  then obtain vs where vs: "json_all json_of_metric ms = Some vs" by auto
  have "writable max_depth (JArr vs)"
    using writable_metrics [OF vs] by (auto simp: max_depth_def)
  with vs dec_metrics [OF vs assms] show ?thesis
    by (auto simp: marshal_metrics_def unmarshal_metrics_def decode_all_def json_parse_text
        simp del: json_text.simps)
qed

section \<open>The contract holds\<close>

definition snapshot_of_row :: "snap_row \<Rightarrow> snapshot result" where
  "snapshot_of_row row =
     (case unmarshal_metrics (sr_metrics row) of
        Inl e \<Rightarrow> Inl (Wrap (''sqlite: unmarshal metrics for '' @ sr_provider_id row) e)
      | Inr ms \<Rightarrow>
          Inr \<lparr>snap_provider_id = sr_provider_id row, snap_metrics = ms,
               snap_collected_at = sr_collected_at row, snap_last_error = sr_last_error row\<rparr>)"

definition latest_in :: "'z host_scheme \<Rightarrow> string \<Rightarrow> snapshot result option" where
  "latest_in s p = map_option snapshot_of_row (row_of sr_provider_id (db_snapshots s) p)"

definition snapshots_rest where
  "snapshots_rest s = (outside_tables s, db_providers s, db_credentials s)"

definition kept_snapshot :: "string \<Rightarrow> metric list \<Rightarrow> gotime \<Rightarrow> snapshot result" where
  "kept_snapshot p ms t =
     (case marshal_metrics ms of
        Inl e \<Rightarrow> Inl e
      | Inr blob \<Rightarrow>
          snapshot_of_row \<lparr>sr_provider_id = p, sr_metrics = blob, sr_collected_at = time_UTC t,
            sr_last_error = None\<rparr>)"

lemmas snapshot_defs = sqlite_defs latest_in_def snapshots_rest_def

lemma row_of_replace:
  "row_of sr_provider_id (update_rows (\<lambda>r. sr_provider_id r = p)
       (\<lambda>r. r\<lparr>sr_metrics := b, sr_collected_at := t, sr_last_error := None\<rparr>) rs) k =
     (if k = p
      then map_option (\<lambda>r. r\<lparr>sr_metrics := b, sr_collected_at := t, sr_last_error := None\<rparr>)
        (row_of sr_provider_id rs k)
      else row_of sr_provider_id rs k)"
  by (rule row_of_update_rows) simp

lemma snapshot_of_replaced:
  "snapshot_of_row (row\<lparr>sr_metrics := b, sr_collected_at := t, sr_last_error := None\<rparr>) =
   snapshot_of_row \<lparr>sr_provider_id = sr_provider_id row, sr_metrics = b, sr_collected_at = t,
     sr_last_error = None\<rparr>"
  by (cases "unmarshal_metrics b") (simp_all add: snapshot_of_row_def)

lemma marshal_metrics_opaque: "marshal_metrics ms = Inl e \<Longrightarrow> opaque e"
  by (auto simp: marshal_metrics_def split: option.splits)

lemma unmarshal_metrics_opaque: "unmarshal_metrics b = Inl e \<Longrightarrow> opaque e"
  by (auto simp: unmarshal_metrics_def decode_all_def json_error_def split: option.splits)

lemma sqlite_Replace_law:
  assumes "wf_db s" and "sqlite_Replace p ms t s = (r, s')"
  shows "wf_db s' \<and> snapshots_rest s' = snapshots_rest s \<and>
     (case r of Inl e \<Rightarrow> opaque e \<and> latest_in s' = latest_in s
      | Inr _ \<Rightarrow> latest_in s' = (latest_in s)(p \<mapsto> kept_snapshot p ms t))"
proof (cases "marshal_metrics ms")
  case (Inl e)
  with assms show ?thesis by (auto simp: sqlite_Replace_def dest: marshal_metrics_opaque)
next
  case (Inr blob)
  show ?thesis
  proof (cases "row_of sr_provider_id (db_snapshots s) p")
    case None
    with assms Inr show ?thesis
      by (auto simp: sqlite_Replace_def snapshot_defs fun_eq_iff kept_snapshot_def row_of_append
          split: option.splits)
  next
    case (Some row)
    then have "sr_provider_id row = p" by (auto dest: row_of_SomeD)
    with assms Inr Some show ?thesis
      by (auto simp: sqlite_Replace_def snapshot_defs fun_eq_iff kept_snapshot_def row_of_replace
          snapshot_of_replaced split: option.splits)
  qed
qed

lemma sqlite_GetSnapshot_law:
  assumes "wf_db s" and "sqlite_GetSnapshot p s = (r, s')"
  shows "wf_db s' \<and> snapshots_rest s' = snapshots_rest s \<and> latest_in s' = latest_in s \<and>
     (case r of Inl e \<Rightarrow> e = Sentinel ErrNotFound \<and> latest_in s p = None \<or> opaque e
      | Inr snap \<Rightarrow> latest_in s p = Some (Inr snap))"
  using assms
  by (auto simp: sqlite_GetSnapshot_def snapshot_defs fun_eq_iff snapshot_of_row_def
      dest: unmarshal_metrics_opaque row_of_SomeD split: option.splits sum.splits)

lemma kept_snapshot_storable:
  "storable_metrics ms \<Longrightarrow> kept_snapshot p ms t =
     Inr \<lparr>snap_provider_id = p, snap_metrics = ms, snap_collected_at = time_UTC t,
          snap_last_error = None\<rparr>"
  by (drule unmarshal_marshal_metrics) (auto simp: kept_snapshot_def snapshot_of_row_def)

lemma sqlite_snap_reliable:
  assumes "reliable_db s"
  shows "storable_metrics ms \<Longrightarrow> \<exists>s'. sqlite_Replace p ms t s = (Inr (), s') \<and> reliable_db s'"
    and "latest_in s p = Some (Inr snap) \<Longrightarrow>
      \<exists>s'. sqlite_GetSnapshot p s = (Inr snap, s') \<and> reliable_db s'"
    and "latest_in s p = None \<Longrightarrow>
      \<exists>s'. sqlite_GetSnapshot p s = (Inl (Sentinel ErrNotFound), s') \<and> reliable_db s'"
proof -
  show "\<exists>s'. sqlite_GetSnapshot p s = (Inl (Sentinel ErrNotFound), s') \<and> reliable_db s'"
    if "latest_in s p = None"
    using that assms by (simp add: sqlite_GetSnapshot_def snapshot_defs)
  show "\<exists>s'. sqlite_Replace p ms t s = (Inr (), s') \<and> reliable_db s'" if "storable_metrics ms"
    using unmarshal_marshal_metrics [OF that] assms
    by (auto simp: sqlite_Replace_def snapshot_defs)
  show "\<exists>s'. sqlite_GetSnapshot p s = (Inr snap, s') \<and> reliable_db s'"
    if "latest_in s p = Some (Inr snap)"
  proof -
    from that obtain row where row: "row_of sr_provider_id (db_snapshots s) p = Some row"
      "sr_provider_id row = p" "snapshot_of_row row = Inr snap"
      by (auto simp: latest_in_def dest: row_of_SomeD)
    with assms show ?thesis
      by (cases "unmarshal_metrics (sr_metrics row)")
        (auto simp: sqlite_GetSnapshot_def snapshot_defs snapshot_of_row_def)
  qed
qed

interpretation sqlite_snap: reliable_snapshot_repo
  sqlite_snapshots wf_db latest_in snapshots_rest kept_snapshot storable_metrics reliable_db
proof (unfold_locales, unfold sqlite_snapshots_def snapshot_repository.select_convs)
qed (rule sqlite_Replace_law sqlite_GetSnapshot_law kept_snapshot_storable sqlite_snap_reliable,
      assumption+)+

lemma others_updated [simp]:
  "filter (\<lambda>r. key r \<noteq> k) (update_rows (\<lambda>r. key r = k) f rs) = filter (\<lambda>r. key r \<noteq> k) rs"
  if "\<And>r. key (f r) = key r"
  by (induction rs) (simp_all add: update_rows_def that)

lemma sqlite_Replace_others:
  "sqlite_Replace p ms t s = (r, s1) \<Longrightarrow>
     filter (\<lambda>row. sr_provider_id row \<noteq> p) (db_snapshots s1) =
       filter (\<lambda>row. sr_provider_id row \<noteq> p) (db_snapshots s) \<and>
     db_providers s1 = db_providers s \<and> db_credentials s1 = db_credentials s"
  by (auto simp: sqlite_Replace_def db_call_def split: sum.splits option.splits if_splits)

text \<open>
  C13: Round trip of a snapshot: after a collection's metrics replaced the stored ones, reading
  the snapshot returns exactly these metrics (through their JSON text), the collection time in
  UTC and no error; only a failing database can keep the read from answering. Every row of another
  provider is still there as it was, in the same order, and so are the other two tables. The
  metrics must be text in UTF-8 with reset times that RFC 3339 can express to the minute of their
  offset; times in UTC always are, in the years 0 to 9999.
\<close>
theorem Replace_GetSnapshot:
  assumes "wf_db s" and "sqlite_Replace p ms t s = (Inr (), s1)" and "storable_metrics ms"
    and "sqlite_GetSnapshot p s1 = (r, s2)"
  shows "(r = Inr \<lparr>snap_provider_id = p, snap_metrics = ms, snap_collected_at = time_UTC t,
                    snap_last_error = None\<rparr>
          \<or> \<not> reliable_db s1 \<and> (\<exists>e. r = Inl e \<and> opaque e)) \<and>
    filter (\<lambda>row. sr_provider_id row \<noteq> p) (db_snapshots s2) =
      filter (\<lambda>row. sr_provider_id row \<noteq> p) (db_snapshots s) \<and>
    db_providers s2 = db_providers s \<and> db_credentials s2 = db_credentials s"
proof -
  from sqlite_Replace_law [OF assms(1,2)] have s1: "wf_db s1"
    "latest_in s1 = (latest_in s)(p \<mapsto> kept_snapshot p ms t)" by auto
  note kept = kept_snapshot_storable [OF assms(3), of p t]
  let ?sn = "\<lparr>snap_provider_id = p, snap_metrics = ms, snap_collected_at = time_UTC t, snap_last_error = None\<rparr>"
  from sqlite_GetSnapshot_law [OF s1(1) assms(4)] s1(2) kept
  have "r = Inr ?sn \<or> (\<exists>e. r = Inl e \<and> opaque e)" by (cases r) auto
  moreover have "r = Inr ?sn" if "reliable_db s1"
    using sqlite_snap_reliable(2) [OF that, of p] s1(2) kept assms(4) by fastforce
  moreover have "db_snapshots s2 = db_snapshots s1" "db_providers s2 = db_providers s1"
    "db_credentials s2 = db_credentials s1"
    using assms(4) by (auto simp: sqlite_GetSnapshot_def db_call_def Let_def)
  ultimately show ?thesis using sqlite_Replace_others [OF assms(2)] by auto
qed

definition demo_metric :: metric where
  "demo_metric =
     \<lparr>m_name = ''token_plan_5h'', m_window = ''5h'', m_unit = ''prompts'', m_used = 5,
      m_limit = Some 8, m_remaining = Some 3,
      m_reset_at = Some \<lparr>instant = 1782563696000000000, zone = 0\<rparr>\<rparr>"

lemma storable_demo_metric: "storable_metric demo_metric"
proof -
  have "list_all (\<lambda>s. utf8_valid s) [''token_plan_5h'', ''5h'', ''prompts'']" by code_simp
  moreover have "marshal_time \<lparr>instant = 1782563696000000000, zone = 0\<rparr> \<noteq> None"
    unfolding marshal_time_defined by (simp add: year_of_def year_of_day_def unix_epoch_day_def)
  ultimately show ?thesis by (simp add: storable_metric_def demo_metric_def del: not_None_eq)
qed

theorem Replace_GetSnapshot_witness:
  "\<exists>s1 s2. sqlite_Replace ''minimax'' [demo_metric] \<lparr>instant = 1, zone = 0\<rparr> empty_host = (Inr (), s1) \<and>
     sqlite_GetSnapshot ''minimax'' s1 =
       (Inr \<lparr>snap_provider_id = ''minimax'', snap_metrics = [demo_metric],
             snap_collected_at = \<lparr>instant = 1, zone = 0\<rparr>, snap_last_error = None\<rparr>, s2)"
proof -
  have ms: "storable_metrics [demo_metric]" by (simp add: storable_metrics_def storable_demo_metric)
  obtain s1 where s1: "sqlite_Replace ''minimax'' [demo_metric] \<lparr>instant = 1, zone = 0\<rparr> empty_host
      = (Inr (), s1)" "reliable_db s1"
    using sqlite_snap_reliable(1) [OF empty_host_simps(2) ms] by blast
  obtain r s2 where r: "sqlite_GetSnapshot ''minimax'' s1 = (r, s2)" by fastforce
  from Replace_GetSnapshot [OF empty_host_simps(1) s1(1) ms r] s1 r show ?thesis
    by (auto simp: time_UTC_def)
qed

section \<open>The whole store over SQLite\<close>

text \<open>What no repository touches: the cooldown entries, and anything else the process keeps.\<close>

definition beside_db where
  "beside_db s = (entries s, host.more s)"

lemma host_more_cong:
  fixes s s' :: "'z host_scheme"
  assumes "runtime.more s' = runtime.more s"
  shows "entries s' = entries s" "db_providers s' = db_providers s"
    "db_credentials s' = db_credentials s" "db_snapshots s' = db_snapshots s"
    "db_faults s' = db_faults s" "host.more s' = host.more s"
  using assms by (cases s; cases s'; simp)+

interpretation sqlite_store: reliable_store_repos
  sqlite_providers sqlite_credentials sqlite_snapshots wf_db enabled_in secret_in latest_in
  providers_rest credentials_rest snapshots_rest kept_snapshot storable_metrics beside_db reliable_db
  by unfold_locales
    (auto simp: snapshot_defs beside_db_def fun_eq_iff dest: host_more_cong)

end
