(* ===== verification/Collector.thy ===== *)
theory Collector
  imports Provider Credential Snapshots
begin

text \<open>
  \<^verbatim>\<open>internal/scheduler/collector.go\<close>: one provider's cycle of loading credentials,
  fetching, and replacing the snapshot. The context that the code hands down is present through
  its effects: a cancelled or timed-out call answers with an error from its supply.
\<close>

section \<open>The collector\<close>

record 's collector =
  col_providers :: "'s provider_service"
  col_credentials :: "'s credential_service"
  col_snapshots :: "'s snapshot_repository"

definition NewCollector ::
    "'s provider_service \<Rightarrow> 's credential_service \<Rightarrow> 's snapshot_repository \<Rightarrow> 's collector" where
  "NewCollector providers credentials snapshots =
     \<lparr>col_providers = providers, col_credentials = credentials, col_snapshots = snapshots\<rparr>"

fun load_fields ::
    "'s credential_service \<Rightarrow> string \<Rightarrow> credential_field list \<Rightarrow> creds \<Rightarrow> 's \<Rightarrow> creds result \<times> 's" where
  "load_fields svc p [] creds s = (Inr creds, s)"
| "load_fields svc p (f # fs) creds s =
     (case Reveal svc p (cf_name f) s of
        (Inl e, s1) \<Rightarrow>
          if errors_is e ErrNotFound then (Inl (Sentinel ErrProviderUncredentialed), s1)
          else (Inl (Wrap (''scheduler: load credential '' @ p @ ''/'' @ cf_name f) e), s1)
      | (Inr v, s1) \<Rightarrow> load_fields svc p fs (creds(cf_name f \<mapsto> v)) s1)"

definition loadCredentials :: "'s collector \<Rightarrow> provider \<Rightarrow> 's \<Rightarrow> creds result \<times> 's" where
  "loadCredentials c p s = load_fields (col_credentials c) (md_id p) (md_fields p) (\<lambda>_. None) s"

definition toStoreMetric :: "usage_metric \<Rightarrow> metric" where
  "toStoreMetric m =
     \<lparr>m_name = um_name m, m_window = um_window m, m_unit = um_unit m, m_used = um_used m,
      m_limit = um_limit m, m_remaining = um_remaining m, m_reset_at = um_reset_at m\<rparr>"

definition toStoreMetrics :: "usage_metric list \<Rightarrow> metric list" where
  "toStoreMetrics ms = map toStoreMetric ms"

definition Collect ::
    "('z runtime_scheme) collector \<Rightarrow> string \<Rightarrow> 'z runtime_scheme
       \<Rightarrow> snapshot result \<times> 'z runtime_scheme" where
  "Collect c providerID s =
     (case service_Get (col_providers c) providerID s of
        (Inl e, s1) \<Rightarrow> (Inl e, s1)
      | (Inr p, s1) \<Rightarrow>
          if \<not> p_enabled p then (Inl (Sentinel ErrProviderDisabled), s1)
          else (case loadCredentials c p s1 of
             (Inl e, s2) \<Rightarrow> (Inl e, s2)
           | (Inr creds, s2) \<Rightarrow>
               (case FetchUsage (col_providers c) providerID creds s2 of
                  (Inl e, s3) \<Rightarrow> (Inl e, s3)
                | (Inr metrics, s3) \<Rightarrow>
                    (case time_Now s3 of (t, s4) \<Rightarrow>
                       let collectedAt = time_UTC t; storeMetrics = toStoreMetrics metrics
                       in case snap_Replace (col_snapshots c) providerID storeMetrics collectedAt s4 of
                            (Inl e, s5) \<Rightarrow>
                              (Inl (Wrap (''scheduler: replace snapshot '' @ providerID) e), s5)
                          | (Inr _, s5) \<Rightarrow>
                              (Inr \<lparr>snap_provider_id = providerID, snap_metrics = storeMetrics,
                                    snap_collected_at = collectedAt, snap_last_error = None\<rparr>, s5)))))"

section \<open>Loading credentials\<close>

lemma opens_to_absent [simp]: "opens_to key p f None = None"
  by (simp add: opens_to_def)

lemma opens_to_SomeD: "opens_to key p f stored = Some v \<Longrightarrow> \<exists>blob. stored = Some blob"
  by (cases stored) simp_all

text \<open>The values the stored blobs open to, for the declared fields.\<close>

definition revealed :: "'s credential_service \<Rightarrow> (string \<Rightarrow> string \<Rightarrow> bytes option) \<Rightarrow> string
    \<Rightarrow> credential_field list \<Rightarrow> creds" where
  "revealed svc secrets p fs =
     (\<lambda>n. if n \<in> cf_name ` set fs then opens_to (cs_masterKey svc) p n (secrets p n) else None)"

definition credentialed :: "'s credential_service \<Rightarrow> (string \<Rightarrow> string \<Rightarrow> bytes option) \<Rightarrow> string
    \<Rightarrow> credential_field list \<Rightarrow> bool" where
  "credentialed svc secrets p fs \<longleftrightarrow>
     (\<forall>f \<in> set fs. opens_to (cs_masterKey svc) p (cf_name f) (secrets p (cf_name f)) \<noteq> None)"

definition crypto_error :: "goerr \<Rightarrow> bool" where
  "crypto_error e \<longleftrightarrow>
     errors_is e ErrInvalidKeyLength \<or> errors_is e ErrInvalidBlob \<or> errors_is e ErrDecryptionFailed"

context credential_repo
begin

lemma load_fields_client:
  assumes "wf s" and "cs_repo svc = repo" and "load_fields svc p fs cr s = (r, s')"
  shows "wf s' \<and> secrets s' = secrets s \<and> rest s' = rest s \<and>
    (case r of
       Inr cr' \<Rightarrow> credentialed svc (secrets s) p fs \<and>
         cr' = (\<lambda>n. if n \<in> cf_name ` set fs then opens_to (cs_masterKey svc) p n (secrets s p n) else cr n)
     | Inl e \<Rightarrow> e = Sentinel ErrProviderUncredentialed \<and> (\<exists>f \<in> set fs. secrets s p (cf_name f) = None)
         \<or> opaque e
         \<or> crypto_error e \<and> \<not> credentialed svc (secrets s) p fs)"
  using assms(1,3)
proof (induction fs arbitrary: cr s)
  case Nil
  then show ?case by (auto simp: credentialed_def)
next
  case (Cons f fs)
  obtain v s1 where reveal: "Reveal svc p (cf_name f) s = (v, s1)" by fastforce
  note law = Reveal_client [OF Cons.prems(1) assms(2) reveal]
  show ?case
  proof (cases v)
    case (Inl e)
    then show ?thesis
      using law reveal Cons.prems(2) errors_is_unique [of e ErrNotFound]
      by (auto simp: crypto_error_def credentialed_def split: if_splits)
  next
    case (Inr x)
    with Cons.prems(2) reveal have rest: "load_fields svc p fs (cr(cf_name f \<mapsto> x)) s1 = (r, s')"
      by simp
    from law have "wf s1" by simp
    from Cons.IH [OF this rest] law Inr show ?thesis
      by (cases r) (auto simp: credentialed_def fun_eq_iff)
  qed
qed

end

context reliable_credential_repo
begin

lemma Reveal_healthy:
  assumes "wf s" and "healthy s" and "cs_repo svc = repo"
  shows "secrets s p f = None \<Longrightarrow>
      \<exists>e s'. Reveal svc p f s = (Inl e, s') \<and> errors_is e ErrNotFound \<and> healthy s'"
    and "opens_to (cs_masterKey svc) p f (secrets s p f) = Some v \<Longrightarrow>
      \<exists>s'. Reveal svc p f s = (Inr v, s') \<and> healthy s'"
proof -
  show "\<exists>e s'. Reveal svc p f s = (Inl e, s') \<and> errors_is e ErrNotFound \<and> healthy s'"
    if "secrets s p f = None"
    using GetSecret_absent [OF assms(1,2) that] assms(3) by (auto simp: Reveal_def)
  show "\<exists>s'. Reveal svc p f s = (Inr v, s') \<and> healthy s'"
    if v: "opens_to (cs_masterKey svc) p f (secrets s p f) = Some v"
  proof -
    from v have "secrets s p f \<noteq> None" by (cases "secrets s p f") (simp_all add: opens_to_def)
    from GetSecret_healthy [OF assms(1,2) this] obtain c s' where
      get: "cred_GetSecret repo p f s = (Inr c, s')" "healthy s'" by blast
    with GetSecret_law [OF assms(1) get(1)] v assms(3) show ?thesis
      by (auto simp: Reveal_def opens_to_def split: sum.splits)
  qed
qed

lemma load_fields_healthy:
  assumes "wf s" and "healthy s" and "cs_repo svc = repo"
    and "\<forall>f \<in> set fs. secrets s p (cf_name f) = None \<or>
      opens_to (cs_masterKey svc) p (cf_name f) (secrets s p (cf_name f)) \<noteq> None"
  shows "\<exists>s'. healthy s' \<and> load_fields svc p fs cr s =
    (if credentialed svc (secrets s) p fs
     then Inr (\<lambda>n. if n \<in> cf_name ` set fs then opens_to (cs_masterKey svc) p n (secrets s p n) else cr n)
     else Inl (Sentinel ErrProviderUncredentialed), s')"
  using assms(1,2,4)
proof (induction fs arbitrary: cr s)
  case Nil
  then show ?case by (auto simp: credentialed_def)
next
  case (Cons f fs)
  show ?case
  proof (cases "secrets s p (cf_name f)")
    case None
    from Reveal_healthy(1) [OF Cons.prems(1,2) assms(3) None] None show ?thesis
      by (auto simp: credentialed_def opens_to_def)
  next
    case (Some blob)
    with Cons.prems(3) obtain v where
      v: "opens_to (cs_masterKey svc) p (cf_name f) (secrets s p (cf_name f)) = Some v" by auto
    from Reveal_healthy(2) [OF Cons.prems(1,2) assms(3) v] obtain s1 where
      s1: "Reveal svc p (cf_name f) s = (Inr v, s1)" "healthy s1" by blast
    from Reveal_client [OF Cons.prems(1) assms(3) s1(1)] have keep: "wf s1" "secrets s1 = secrets s"
      by auto
    have "\<forall>f \<in> set fs. secrets s1 p (cf_name f) = None \<or>
      opens_to (cs_masterKey svc) p (cf_name f) (secrets s1 p (cf_name f)) \<noteq> None"
      using Cons.prems(3) keep by simp
    from Cons.IH [OF keep(1) s1(2) this, of "cr(cf_name f \<mapsto> v)"] obtain s2 where s2: "healthy s2"
      "load_fields svc p fs (cr(cf_name f \<mapsto> v)) s1 =
        (if credentialed svc (secrets s) p fs
         then Inr (\<lambda>n. if n \<in> cf_name ` set fs then opens_to (cs_masterKey svc) p n (secrets s p n)
                      else (cr(cf_name f \<mapsto> v)) n)
         else Inl (Sentinel ErrProviderUncredentialed), s2)"
      unfolding keep by blast
    have "credentialed svc (secrets s) p (f # fs) = credentialed svc (secrets s) p fs"
      using v by (simp add: credentialed_def)
    moreover have "(\<lambda>n. if n \<in> cf_name ` set fs then opens_to (cs_masterKey svc) p n (secrets s p n)
          else (cr(cf_name f \<mapsto> v)) n)
        = (\<lambda>n. if n \<in> cf_name ` set (f # fs) then opens_to (cs_masterKey svc) p n (secrets s p n)
          else cr n)"
      using v by (auto simp: fun_eq_iff)
    ultimately show ?thesis using s1(1) s2 by (intro exI [of _ s2]) (simp add: fun_upd_def)
  qed
qed

end

section \<open>Fetching\<close>

lemma FetchUsage_dead:
  "\<not> (service_metadata svc p \<noteq> None \<and> HasFetcher svc p) \<Longrightarrow>
   FetchUsage svc p cr s = (Inl (Sentinel ErrFetcherNotFound), s)"
  by (auto simp: FetchUsage_def HasFetcher_def has_def lookup_def split: option.splits)

lemma FetchUsage_live:
  "service_metadata svc p = Some m \<Longrightarrow> svc_fetchers svc p = Some (Some f) \<Longrightarrow>
   FetchUsage svc p cr s =
     (case within_runtime (ft_FetchUsage f cr) s of
        (Inl e, s1) \<Rightarrow> (Inl (Wrap (''provider: fetch '' @ p) e), s1)
      | (Inr ms, s1) \<Rightarrow> (Inr ms, s1))"
  by (simp add: FetchUsage_def lookup_def)

lemma HasFetcher_iff: "HasFetcher svc p \<longleftrightarrow> (\<exists>f. svc_fetchers svc p = Some (Some f))"
  by (auto simp: HasFetcher_def has_def split: option.splits)

lemma FetchUsage_more:
  assumes "FetchUsage svc p cr s = (r, s')"
  shows "runtime.more s' = runtime.more s"
    and "r = Inr ms \<Longrightarrow> service_metadata svc p \<noteq> None \<and> HasFetcher svc p"
proof -
  have more: "runtime.more (snd (within_runtime g s)) = runtime.more s" for g :: "runtime \<Rightarrow> 'x \<times> runtime"
    by (rule runtime_more_frame)
  show "runtime.more s' = runtime.more s"
  proof (cases "service_metadata svc p \<noteq> None \<and> HasFetcher svc p")
    case True
    then obtain m f where "service_metadata svc p = Some m" "svc_fetchers svc p = Some (Some f)"
      by (auto simp: HasFetcher_iff)
    with assms more [of "ft_FetchUsage f cr"] show ?thesis
      by (auto simp: FetchUsage_live split: prod.splits sum.splits)
  next
    case False
    from FetchUsage_dead [OF this, of cr s] assms show ?thesis by simp
  qed
  show "r = Inr ms \<Longrightarrow> service_metadata svc p \<noteq> None \<and> HasFetcher svc p"
    using assms FetchUsage_dead [of svc p cr s] by (metis Inl_Inr_False Pair_inject)
qed

section \<open>The two halves of a collection\<close>

text \<open>What comes before the fetch, and what comes after it.\<close>

definition gather ::
    "('z runtime_scheme) collector \<Rightarrow> string \<Rightarrow> 'z runtime_scheme \<Rightarrow> creds result \<times> 'z runtime_scheme" where
  "gather c p s =
     (case service_Get (col_providers c) p s of
        (Inl e, s1) \<Rightarrow> (Inl e, s1)
      | (Inr q, s1) \<Rightarrow>
          if \<not> p_enabled q then (Inl (Sentinel ErrProviderDisabled), s1) else loadCredentials c q s1)"

definition keep_usage ::
    "('z runtime_scheme) collector \<Rightarrow> string \<Rightarrow> usage_metric list \<Rightarrow> 'z runtime_scheme
       \<Rightarrow> snapshot result \<times> 'z runtime_scheme" where
  "keep_usage c p ms s =
     (case snap_Replace (col_snapshots c) p (toStoreMetrics ms) (time_UTC (rt_clock s 0)) (snd (time_Now s)) of
        (Inl e, s1) \<Rightarrow> (Inl (Wrap (''scheduler: replace snapshot '' @ p) e), s1)
      | (Inr _, s1) \<Rightarrow>
          (Inr \<lparr>snap_provider_id = p, snap_metrics = toStoreMetrics ms,
                snap_collected_at = time_UTC (rt_clock s 0), snap_last_error = None\<rparr>, s1))"

lemma Collect_halves:
  "Collect c p s =
     (case gather c p s of
        (Inl e, s1) \<Rightarrow> (Inl e, s1)
      | (Inr cr, s1) \<Rightarrow>
          (case FetchUsage (col_providers c) p cr s1 of
             (Inl e, s2) \<Rightarrow> (Inl e, s2)
           | (Inr ms, s2) \<Rightarrow> keep_usage c p ms s2))"
  by (simp add: Collect_def gather_def keep_usage_def time_Now_def Let_def split: prod.split sum.split)

section \<open>A collection over any store\<close>

context store_repos
begin

definition wired :: "('z runtime_scheme) collector \<Rightarrow> bool" where
  "wired c \<longleftrightarrow> svc_repo (col_providers c) = prov_repo \<and> cs_repo (col_credentials c) = cred_repo \<and>
     col_snapshots c = snap_repo"

lemma wiredD:
  "wired c \<Longrightarrow> svc_repo (col_providers c) = prov_repo"
  "wired c \<Longrightarrow> cs_repo (col_credentials c) = cred_repo"
  "wired c \<Longrightarrow> col_snapshots c = snap_repo"
  by (simp_all add: wired_def)

definition untouched :: "'z runtime_scheme \<Rightarrow> 'z runtime_scheme \<Rightarrow> bool" where
  "untouched s t \<longleftrightarrow> wf t \<and> enabled t = enabled s \<and> secrets t = secrets s \<and> latest t = latest s \<and>
     rest t = rest s"

lemma gather_client:
  assumes "wf s" and "wired c" and "gather c p s = (r, t)"
  shows "untouched s t \<and> rt_net t = rt_net s \<and>
    (case r of
       Inl e \<Rightarrow> \<not> errors_is e ErrAuth
     | Inr cr \<Rightarrow> enabled s p = Some True \<and>
         (\<exists>m. service_metadata (col_providers c) p = Some m \<and>
            credentialed (col_credentials c) (secrets s) p (md_fields m) \<and>
            cr = revealed (col_credentials c) (secrets s) p (md_fields m)))"
proof -
  note repos = wiredD [OF assms(2)]
  obtain g s1 where get: "service_Get (col_providers c) p s = (g, s1)" by fastforce
  note law1 = prov.service_Get_client [OF assms(1) repos(1) get]
  then have s1: "untouched s s1" "rt_net s1 = rt_net s" using prest_law [of s1 s] by (auto simp: untouched_def)
  show ?thesis
  proof (cases "\<exists>q. g = Inr q \<and> p_enabled q")
    case False
    with get assms(3) s1 law1 show ?thesis by (auto simp: gather_def split: sum.splits)
  next
    case True
    with law1 obtain m where m: "service_metadata (col_providers c) p = Some m" "enabled s p = Some True"
      and g: "g = Inr (with_state m True (HasFetcher (col_providers c) p))"
      by auto
    have "md_id m = p" using m(1) by (auto dest: service_metadata_SomeD)
    with get g assms(3) have load: "load_fields (col_credentials c) p (md_fields m) (\<lambda>_. None) s1 = (r, t)"
      by (simp add: gather_def loadCredentials_def)
    have "wf s1" using s1 by (simp add: untouched_def)
    note law2 = cred.load_fields_client [OF this repos(2) load]
    then have "untouched s1 t" "rt_net t = rt_net s1" using crest_law [of t s1] by (auto simp: untouched_def)
    moreover have "\<not> errors_is e ErrAuth" if "crypto_error e" for e
      using that errors_is_unique [of e ErrAuth] by (auto simp: crypto_error_def)
    ultimately show ?thesis using s1 law2 m by (cases r) (auto simp: untouched_def revealed_def)
  qed
qed

lemma keep_usage_client:
  assumes "wf s" and "wired c" and "keep_usage c p ms s = (r, t)"
  shows "wf t \<and> enabled t = enabled s \<and> secrets t = secrets s \<and> rest t = rest s \<and> rt_net t = rt_net s \<and>
    (case r of
       Inl e \<Rightarrow> latest t = latest s \<and> opaque e
     | Inr sn \<Rightarrow> snap_provider_id sn = p \<and> snap_metrics sn = toStoreMetrics ms \<and> snap_last_error sn = None \<and> zone (snap_collected_at sn) = 0 \<and>
         latest t = (latest s)(p \<mapsto> kept p (snap_metrics sn) (snap_collected_at sn)))"
proof -
  let ?s1 = "snd (time_Now s)"
  note same = runtime_law [OF runtime_more_frame(1) [of s]]
  then have "wf ?s1" using assms(1) by simp
  obtain u s2 where rep: "snap_Replace snap_repo p (toStoreMetrics ms) (time_UTC (rt_clock s 0)) ?s1 = (u, s2)"
    by fastforce
  note law = snap.Replace_law [OF \<open>wf ?s1\<close> rep]
  have "r = (case u of Inl e \<Rightarrow> Inl (Wrap (''scheduler: replace snapshot '' @ p) e)
      | Inr _ \<Rightarrow> Inr \<lparr>snap_provider_id = p, snap_metrics = toStoreMetrics ms,
                snap_collected_at = time_UTC (rt_clock s 0), snap_last_error = None\<rparr>)" "t = s2"
    using assms(3) rep wiredD(3) [OF assms(2)] by (auto simp: keep_usage_def split: sum.splits)
  moreover have "rt_net ?s1 = rt_net s" by (simp add: time_Now_def)
  ultimately show ?thesis using law same srest_law [of t ?s1] by (cases u) auto
qed

lemma Collect_client:
  assumes "wf s" and "wired c" and "Collect c p s = (r, s')"
  shows "wf s' \<and> enabled s' = enabled s \<and> secrets s' = secrets s \<and> rest s' = rest s \<and>
    (case r of
       Inl e \<Rightarrow> latest s' = latest s
     | Inr sn \<Rightarrow> (\<exists>m. service_metadata (col_providers c) p = Some m \<and>
           credentialed (col_credentials c) (secrets s) p (md_fields m)) \<and>
         enabled s p = Some True \<and> HasFetcher (col_providers c) p \<and>
         snap_provider_id sn = p \<and> snap_last_error sn = None \<and>
         zone (snap_collected_at sn) = 0 \<and>
         latest s' = (latest s)(p \<mapsto> kept p (snap_metrics sn) (snap_collected_at sn)))"
proof -
  obtain g s1 where first: "gather c p s = (g, s1)" by fastforce
  note law1 = gather_client [OF assms(1,2) first]
  show ?thesis
  proof (cases g)
    case (Inl e)
    with first assms(3) law1 show ?thesis by (auto simp: Collect_halves untouched_def)
  next
    case cr: (Inr cr)
    obtain f s2 where fetch: "FetchUsage (col_providers c) p cr s1 = (f, s2)" by fastforce
    have s2: "untouched s s2"
      using runtime_law [OF FetchUsage_more(1) [OF fetch]] law1 by (auto simp: untouched_def)
    show ?thesis
    proof (cases f)
      case (Inl e)
      with first cr fetch assms(3) s2 show ?thesis by (auto simp: Collect_halves untouched_def)
    next
      case (Inr ms)
      with first cr fetch assms(3) have keep: "keep_usage c p ms s2 = (r, s')" by (simp add: Collect_halves)
      have "wf s2" using s2 by (simp add: untouched_def)
      note law3 = keep_usage_client [OF this assms(2) keep]
      from law1 cr obtain m where m: "service_metadata (col_providers c) p = Some m"
        "credentialed (col_credentials c) (secrets s) p (md_fields m)" "enabled s p = Some True" by auto
      moreover have "HasFetcher (col_providers c) p" using FetchUsage_more(2) [OF fetch] Inr by simp
      ultimately show ?thesis using law3 s2 by (cases r) (auto simp: untouched_def)
    qed
  qed
qed

end

context reliable_store_repos
begin

text \<open>Every refusal, in the order the code checks, and otherwise the fetch and its outcome.\<close>

definition collect_outcome ::
    "('z runtime_scheme) collector \<Rightarrow> string \<Rightarrow> metadata \<Rightarrow> 'z runtime_scheme \<Rightarrow> bool" where
  "collect_outcome c p m s \<longleftrightarrow>
     (if enabled s p = None then
        \<exists>s'. Collect c p s = (Inl (Sentinel ErrNotFound), s') \<and> rt_net s' = rt_net s
      else if enabled s p = Some False then
        \<exists>s'. Collect c p s = (Inl (Sentinel ErrProviderDisabled), s') \<and> rt_net s' = rt_net s
      else if \<not> credentialed (col_credentials c) (secrets s) p (md_fields m) then
        \<exists>s'. Collect c p s = (Inl (Sentinel ErrProviderUncredentialed), s') \<and> rt_net s' = rt_net s
      else (case svc_fetchers (col_providers c) p of
          Some (Some f) \<Rightarrow>
            \<exists>s1 :: 'z runtime_scheme. rt_net s1 = rt_net s \<and>
              (case ft_FetchUsage f (revealed (col_credentials c) (secrets s) p (md_fields m))
                      (runtime.truncate s1) of
                 (Inl e, rt) \<Rightarrow>
                   \<exists>s'. Collect c p s = (Inl (Wrap (''provider: fetch '' @ p) e), s')
               | (Inr ms, rt) \<Rightarrow> \<not> storable (toStoreMetrics ms) \<or>
                   (\<exists>s'. healthy s' \<and> Collect c p s =
                     (Inr \<lparr>snap_provider_id = p, snap_metrics = toStoreMetrics ms,
                           snap_collected_at = time_UTC (rt_clock rt 0), snap_last_error = None\<rparr>, s')))
        | _ \<Rightarrow> \<exists>s'. Collect c p s = (Inl (Sentinel ErrFetcherNotFound), s') \<and> rt_net s' = rt_net s))"

text \<open>What the first half comes to, and the second.\<close>

lemma gather_healthy:
  assumes "wf s" and "healthy s" and "wired c" and m: "service_metadata (col_providers c) p = Some m"
    and readable: "\<forall>f \<in> set (md_fields m). secrets s p (cf_name f) = None \<or>
      opens_to (cs_masterKey (col_credentials c)) p (cf_name f) (secrets s p (cf_name f)) \<noteq> None"
  shows "\<exists>t. healthy t \<and> wf t \<and> rt_net t = rt_net s \<and> gather c p s =
    ((case enabled s p of
        None \<Rightarrow> Inl (Sentinel ErrNotFound)
      | Some b \<Rightarrow>
          if \<not> b then Inl (Sentinel ErrProviderDisabled)
          else if credentialed (col_credentials c) (secrets s) p (md_fields m)
          then Inr (revealed (col_credentials c) (secrets s) p (md_fields m))
          else Inl (Sentinel ErrProviderUncredentialed)), t)"
proof -
  note repos = wiredD [OF assms(3)]
  show ?thesis
  proof (cases "enabled s p")
    case None
    obtain t where get: "prov_Get prov_repo p s = (Inl (Sentinel ErrNotFound), t)" "healthy t"
      using rprov.Get_absent [OF assms(1,2) None] by blast
    have "rt_net t = rt_net s \<and> wf t" using prov.Get_law [OF assms(1) get(1)] prest_law [of t s] by simp
    with get None m repos show ?thesis by (auto simp: gather_def service_Get_def)
  next
    case (Some b)
    then have "enabled s p \<noteq> None" by simp
    from rprov.Get_healthy [OF assms(1,2) this] obtain row s1 where
      get: "prov_Get prov_repo p s = (Inr row, s1)" "healthy s1" by blast
    note law1 = prov.Get_law [OF assms(1) get(1)]
    then have s1: "wf s1" "secrets s1 = secrets s" "rt_net s1 = rt_net s" and row: "row_enabled row = b"
      using prest_law [of s1 s] Some by auto
    have md: "md_id m = p" using m by (auto dest: service_metadata_SomeD)
    have Get: "service_Get (col_providers c) p s = (Inr (with_state m b (HasFetcher (col_providers c) p)), s1)"
      using get(1) m repos row by (simp add: service_Get_def)
    obtain t where t: "healthy t" "load_fields (col_credentials c) p (md_fields m) (\<lambda>_. None) s1 =
        (if credentialed (col_credentials c) (secrets s) p (md_fields m)
         then Inr (revealed (col_credentials c) (secrets s) p (md_fields m))
         else Inl (Sentinel ErrProviderUncredentialed), t)"
      using rcred.load_fields_healthy [OF s1(1) get(2) repos(2) readable [folded s1(2)], of "\<lambda>_. None"]
      unfolding s1(2) revealed_def by blast
    have "wf t \<and> rt_net t = rt_net s"
      using cred.load_fields_client [OF s1(1) repos(2) t(2)] crest_law [of t s1] s1 by auto
    with Get Some t s1 md get(2) show ?thesis by (auto simp: gather_def loadCredentials_def)
  qed
qed

lemma keep_usage_healthy:
  assumes "wf s" and "healthy s" and "wired c" and "storable (toStoreMetrics ms)"
  shows "\<exists>t. healthy t \<and> keep_usage c p ms s =
    (Inr \<lparr>snap_provider_id = p, snap_metrics = toStoreMetrics ms,
          snap_collected_at = time_UTC (rt_clock s 0), snap_last_error = None\<rparr>, t)"
proof -
  have more: "runtime.more (snd (time_Now s)) = runtime.more s" by (rule runtime_more_frame)
  then have "wf (snd (time_Now s))" "healthy (snd (time_Now s))"
    using runtime_law [OF more] runtime_healthy [OF more] assms(1,2) by auto
  from rsnap.Replace_healthy [OF this assms(4), of p "time_UTC (rt_clock s 0)"] wiredD(3) [OF assms(3)]
  show ?thesis by (auto simp: keep_usage_def)
qed

lemma Collect_healthy:
  assumes "wf s" and "healthy s" and "wired c" and m: "service_metadata (col_providers c) p = Some m"
    and readable: "\<forall>f \<in> set (md_fields m). secrets s p (cf_name f) = None \<or>
      opens_to (cs_masterKey (col_credentials c)) p (cf_name f) (secrets s p (cf_name f)) \<noteq> None"
  shows "collect_outcome c p m s"
proof -
  obtain s1 where s1: "healthy s1" "wf s1" "rt_net s1 = rt_net s"
    and first: "gather c p s = ((case enabled s p of
        None \<Rightarrow> Inl (Sentinel ErrNotFound)
      | Some b \<Rightarrow>
          if \<not> b then Inl (Sentinel ErrProviderDisabled)
          else if credentialed (col_credentials c) (secrets s) p (md_fields m)
          then Inr (revealed (col_credentials c) (secrets s) p (md_fields m))
          else Inl (Sentinel ErrProviderUncredentialed)), s1)"
    using gather_healthy [OF assms] by blast
  let ?cr = "revealed (col_credentials c) (secrets s) p (md_fields m)"
  show ?thesis
  proof (cases "enabled s p = Some True \<and> credentialed (col_credentials c) (secrets s) p (md_fields m)")
    case False
    then show ?thesis using first s1(3)
      by (auto simp: collect_outcome_def Collect_halves split: option.splits if_splits)
  next
    case True
    with first have first: "gather c p s = (Inr ?cr, s1)" by simp
    show ?thesis
    proof (cases "\<exists>f. svc_fetchers (col_providers c) p = Some (Some f)")
      case False
      then have "\<not> (service_metadata (col_providers c) p \<noteq> None \<and> HasFetcher (col_providers c) p)"
        by (simp add: HasFetcher_iff)
      from FetchUsage_dead [OF this] first True False s1(3) show ?thesis
        by (auto simp: collect_outcome_def Collect_halves split: option.splits)
    next
      case live: True
      then obtain f where f: "svc_fetchers (col_providers c) p = Some (Some f)" by blast
      obtain fr rt where run: "ft_FetchUsage f ?cr (runtime.truncate s1) = (fr, rt)" by fastforce
      obtain s2 where within: "within_runtime (ft_FetchUsage f ?cr) s1 = (fr, s2)"
        and clock: "rt_clock s2 = rt_clock rt" and more: "runtime.more s2 = runtime.more s1"
        using run by (auto simp: within_runtime_def)
      note fetch = FetchUsage_live [OF m f, of ?cr s1, unfolded within prod.case]
      have s2: "wf s2" "healthy s2" using runtime_law [OF more] runtime_healthy [OF more] s1 by auto
      have "case (fr, rt) of
          (Inl e, rt) \<Rightarrow> \<exists>s'. Collect c p s = (Inl (Wrap (''provider: fetch '' @ p) e), s')
        | (Inr ms, rt) \<Rightarrow> \<not> storable (toStoreMetrics ms) \<or>
            (\<exists>s'. healthy s' \<and> Collect c p s =
              (Inr \<lparr>snap_provider_id = p, snap_metrics = toStoreMetrics ms,
                    snap_collected_at = time_UTC (rt_clock rt 0), snap_last_error = None\<rparr>, s'))"
        using fetch first keep_usage_healthy [OF s2 assms(3)] clock
        by (auto simp: Collect_halves split: sum.split)
      with run f True s1(3) show ?thesis by (auto simp: collect_outcome_def)
    qed
  qed
qed

end

section \<open>The cancellation signal\<close>

text \<open>A fetcher that does not poll the signal itself.\<close>

definition quiet :: "'s provider_service \<Rightarrow> bool" where
  "quiet svc \<longleftrightarrow>
     (\<forall>p f cr rt. svc_fetchers svc p = Some (Some f) \<longrightarrow>
        rt_ctx (snd (ft_FetchUsage f cr rt)) = rt_ctx rt)"

lemma FetchUsage_ctx:
  assumes "quiet svc" and "FetchUsage svc p cr s = (r, s')"
  shows "rt_ctx s' = rt_ctx s"
proof (cases "service_metadata svc p \<noteq> None \<and> HasFetcher svc p")
  case True
  then obtain m f where f: "service_metadata svc p = Some m" "svc_fetchers svc p = Some (Some f)"
    by (auto simp: HasFetcher_iff)
  have "rt_ctx (snd (within_runtime (ft_FetchUsage f cr) s)) = rt_ctx s"
    using assms(1) f(2) by (simp add: quiet_def within_runtime_def runtime.truncate_def split: prod.split)
      (metis snd_conv runtime.select_convs(4))
  with assms(2) f show ?thesis by (auto simp: FetchUsage_live split: prod.splits sum.splits)
next
  case False
  from FetchUsage_dead [OF this, of cr s] assms(2) show ?thesis by simp
qed

context store_repos
begin

lemma Collect_ctx:
  assumes "wf s" and "wired c" and "quiet (col_providers c)" and "Collect c p s = (r, s')"
  shows "rt_ctx s' = rt_ctx s"
proof -
  have repos: "svc_repo (col_providers c) = prov_repo" "cs_repo (col_credentials c) = cred_repo"
    "col_snapshots c = snap_repo" using assms(2) by (auto simp: wired_def)
  obtain g s1 where get: "service_Get (col_providers c) p s = (g, s1)" by fastforce
  have s1: "wf s1" "rt_ctx s1 = rt_ctx s"
    using prov.service_Get_client [OF assms(1) repos(1) get] prest_law [of s1 s] by auto
  have load: "wf s2 \<and> rt_ctx s2 = rt_ctx s" if "loadCredentials c q s1 = (l, s2)" for q l s2
    using cred.load_fields_client [OF s1(1) repos(2) that [unfolded loadCredentials_def]]
      crest_law [of s2 s1] s1(2) by auto
  have fetch: "wf s3 \<and> rt_ctx s3 = rt_ctx s2"
    if "FetchUsage (col_providers c) p cr s2 = (f, s3)" "wf s2" for cr f s2 s3
    using FetchUsage_ctx [OF assms(3) that(1)] runtime_law [OF FetchUsage_more(1) [OF that(1)]] that(2)
    by simp
  have replace: "rt_ctx s5 = rt_ctx s3"
    if "snap_Replace (col_snapshots c) p ms t (s3\<lparr>rt_clock := k\<rparr>) = (u, s5)" "wf s3" for ms t k u s3 s5
  proof -
    have "wf (s3\<lparr>rt_clock := k\<rparr>)" using runtime_law [of "s3\<lparr>rt_clock := k\<rparr>" s3] that(2) by simp
    from snap.Replace_law [OF this that(1) [unfolded repos(3)]]
    show ?thesis using srest_law [of s5 "s3\<lparr>rt_clock := k\<rparr>"] by simp
  qed
  show ?thesis
    using assms(4) get s1
    by (auto simp: Collect_def time_Now_def Let_def dest!: load
        split: sum.splits prod.splits if_splits) (metis fetch replace)+
qed

end

section \<open>A collection over SQLite\<close>

definition sqlite_wired :: "('z host_scheme) collector \<Rightarrow> bool" where
  "sqlite_wired c \<longleftrightarrow> svc_repo (col_providers c) = sqlite_providers \<and>
     cs_repo (col_credentials c) = sqlite_credentials \<and> col_snapshots c = sqlite_snapshots"

lemma sqlite_wired_iff: "sqlite_wired c \<longleftrightarrow> sqlite_store.wired c"
  by (simp add: sqlite_wired_def sqlite_store.wired_def)

text \<open>
  A collection, however it ends, changes no enabled flag, no stored credential, no cooldown
  entry and no other provider's snapshot. If it fails, at whatever step, the provider's own last
  good snapshot stays as well. If it succeeds, the provider is in the catalog, enabled, live and
  has all its declared credentials, and its snapshot is the one that was returned, with a
  collection time in UTC and no error.
\<close>
theorem Collect_frame:
  assumes "wf_db s" and "sqlite_wired c" and "Collect c p s = (r, s')"
  shows "wf_db s' \<and> enabled_in s' = enabled_in s \<and> secret_in s' = secret_in s \<and>
    entries s' = entries s \<and> (\<forall>q. q \<noteq> p \<longrightarrow> latest_in s' q = latest_in s q) \<and>
    (case r of
       Inl e \<Rightarrow> latest_in s' p = latest_in s p
     | Inr sn \<Rightarrow> (\<exists>m. service_metadata (col_providers c) p = Some m \<and>
           (\<forall>f \<in> set (md_fields m). opens_to (cs_masterKey (col_credentials c)) p (cf_name f)
              (secret_in s p (cf_name f)) \<noteq> None)) \<and>
         enabled_in s p = Some True \<and> HasFetcher (col_providers c) p \<and>
         snap_provider_id sn = p \<and> snap_last_error sn = None \<and> zone (snap_collected_at sn) = 0 \<and>
         latest_in s' p = Some (kept_snapshot p (snap_metrics sn) (snap_collected_at sn)))"
  using sqlite_store.Collect_client [OF assms(1) assms(2) [unfolded sqlite_wired_iff] assms(3)]
  by (cases r) (auto simp: beside_db_def credentialed_def)

text \<open>
  On a working database, for a provider of the catalog whose stored blobs are all sealed
  under this key: a collection is refused, in this order, as not found without a row, as disabled,
  as uncredentialed when any declared field is missing, and as fetcher-less, each time without a
  request to the network. Otherwise the fetcher is called with exactly the declared fields and
  their values; its error comes back wrapped, and metrics that can be stored come back as the
  new snapshot at the time read after the fetch.
\<close>
theorem Collect_outcome:
  fixes s :: "'z host_scheme"
  assumes "wf_db s" and "reliable_db s" and "sqlite_wired c"
    and "service_metadata (col_providers c) p = Some m"
    and "\<forall>f \<in> set (md_fields m). secret_in s p (cf_name f) = None \<or>
      opens_to (cs_masterKey (col_credentials c)) p (cf_name f) (secret_in s p (cf_name f)) \<noteq> None"
  shows "if enabled_in s p = None then
      \<exists>s'. Collect c p s = (Inl (Sentinel ErrNotFound), s') \<and> rt_net s' = rt_net s
    else if enabled_in s p = Some False then
      \<exists>s'. Collect c p s = (Inl (Sentinel ErrProviderDisabled), s') \<and> rt_net s' = rt_net s
    else if \<exists>f \<in> set (md_fields m). secret_in s p (cf_name f) = None then
      \<exists>s'. Collect c p s = (Inl (Sentinel ErrProviderUncredentialed), s') \<and> rt_net s' = rt_net s
    else (case svc_fetchers (col_providers c) p of
        Some (Some f) \<Rightarrow>
          \<exists>s1 :: 'z host_scheme. rt_net s1 = rt_net s \<and>
            (case ft_FetchUsage f (revealed (col_credentials c) (secret_in s) p (md_fields m))
                    (runtime.truncate s1) of
               (Inl e, rt) \<Rightarrow> \<exists>s'. Collect c p s = (Inl (Wrap (''provider: fetch '' @ p) e), s')
             | (Inr ms, rt) \<Rightarrow> \<not> storable_metrics (toStoreMetrics ms) \<or>
                 (\<exists>s'. reliable_db s' \<and> Collect c p s =
                   (Inr \<lparr>snap_provider_id = p, snap_metrics = toStoreMetrics ms,
                         snap_collected_at = time_UTC (rt_clock rt 0), snap_last_error = None\<rparr>, s')))
      | _ \<Rightarrow> \<exists>s'. Collect c p s = (Inl (Sentinel ErrFetcherNotFound), s') \<and> rt_net s' = rt_net s)"
proof -
  have "credentialed (col_credentials c) (secret_in s) p (md_fields m) \<longleftrightarrow>
      \<not> (\<exists>f \<in> set (md_fields m). secret_in s p (cf_name f) = None)"
    using assms(5) opens_to_SomeD by (fastforce simp: credentialed_def)
  with sqlite_store.Collect_healthy [OF assms(1,2) assms(3) [unfolded sqlite_wired_iff] assms(4,5)]
  show ?thesis unfolding sqlite_store.collect_outcome_def by simp
qed

section \<open>A concrete collection\<close>

text \<open>
  A database with one enabled provider, one sealed credential and no snapshot, and a catalog
  whose fetcher returns one metric.
\<close>

definition demo_key :: bytes where
  "demo_key = replicate 32 7"

definition demo_blob :: "string \<Rightarrow> string \<Rightarrow> bytes" where
  "demo_blob p f =
     version # replicate 12 0 @
       gcm_Seal (aes_encrypt demo_key) (replicate 12 0) (bytes_of_string ''k'') (AAD p f)"

definition ready_host :: "(nat \<Rightarrow> http_request \<Rightarrow> string + http_response) \<Rightarrow> host" where
  "ready_host net = empty_host
     \<lparr>rt_net := net,
      db_providers := [\<lparr>row_id = ''minimax'', row_enabled = True,
        row_created_at = \<lparr>instant = 0, zone = 0\<rparr>, row_updated_at = \<lparr>instant = 0, zone = 0\<rparr>\<rparr>],
      db_credentials := [\<lparr>cr_provider_id = ''minimax'', cr_field = ''subscription_key'',
        cr_ciphertext = demo_blob ''minimax'' ''subscription_key'',
        cr_created_at = \<lparr>instant = 0, zone = 0\<rparr>, cr_updated_at = \<lparr>instant = 0, zone = 0\<rparr>\<rparr>]\<rparr>"

lemma ready_host_simps [simp]:
  "wf_db (ready_host net)" "reliable_db (ready_host net)"
  "enabled_in (ready_host net) = [''minimax'' \<mapsto> True]"
  "secret_in (ready_host net) ''minimax'' ''subscription_key'' =
     Some (demo_blob ''minimax'' ''subscription_key'')"
  "rt_net (ready_host net) = net" "entries (ready_host net) = (\<lambda>_. None)"
  "latest_in (ready_host net) = (\<lambda>_. None)"
  by (auto simp: ready_host_def empty_host_def wf_db_def reliable_db_def enabled_in_def secret_in_def
      latest_in_def unique_keys_def fun_eq_iff)

lemma opens_to_demo_blob: "opens_to demo_key p f (Some (demo_blob p f)) = Some ''k''"
proof -
  have "Open demo_key (demo_blob p f) (AAD p f) = Inr (bytes_of_string ''k'')"
    unfolding demo_blob_def by (rule Open_framed) (simp_all add: demo_key_def KeySize_def NonceSize_def)
  then show ?thesis by (simp add: opens_to_def)
qed

definition demo_usage :: usage_metric where
  "demo_usage =
     \<lparr>um_name = ''token_plan_5h'', um_window = ''5h'', um_unit = ''prompts'', um_used = 5,
      um_limit = Some 8, um_remaining = Some 3,
      um_reset_at = Some \<lparr>instant = 1782563696000000000, zone = 0\<rparr>\<rparr>"

lemma toStoreMetrics_demo: "toStoreMetrics [demo_usage] = [demo_metric]"
  by (simp add: toStoreMetrics_def toStoreMetric_def demo_usage_def demo_metric_def)

definition demo_metadata :: metadata where
  "demo_metadata =
     \<lparr>md_id = ''minimax'', md_name = ''Minimax'',
      md_fields = [\<lparr>cf_name = ''subscription_key'', cf_label = ''Subscription Key'', cf_secret = True\<rparr>]\<rparr>"

lemma Registry_demo: "find (\<lambda>m. md_id m = ''minimax'') Registry = Some demo_metadata"
  by (simp add: Registry_def demo_metadata_def)

text \<open>The collector over this catalog, given what the fetcher of the provider does.\<close>

definition demo_collector ::
    "(creds \<Rightarrow> runtime \<Rightarrow> usage_metric list result \<times> runtime) \<Rightarrow> host collector" where
  "demo_collector fetch =
     NewCollector
       ((NewService sqlite_providers Registry)\<lparr>svc_fetchers :=
          [''minimax'' \<mapsto> Some \<lparr>ft_Metadata = demo_metadata, ft_FetchUsage = fetch\<rparr>]\<rparr>)
       (NewCredentialService sqlite_credentials demo_key (Some Clear)) sqlite_snapshots"

lemma demo_collector_simps [simp]:
  "sqlite_wired (demo_collector fetch)"
  "service_metadata (col_providers (demo_collector fetch)) ''minimax'' = Some demo_metadata"
  "svc_fetchers (col_providers (demo_collector fetch)) ''minimax'' =
     Some (Some \<lparr>ft_Metadata = demo_metadata, ft_FetchUsage = fetch\<rparr>)"
  "HasFetcher (col_providers (demo_collector fetch)) ''minimax''"
  "cs_masterKey (col_credentials (demo_collector fetch)) = demo_key"
  by (simp_all add: demo_collector_def NewCollector_def NewService_def NewCredentialService_def
      sqlite_wired_def service_metadata_def Registry_demo HasFetcher_def has_def)

definition steady :: "creds \<Rightarrow> runtime \<Rightarrow> usage_metric list result \<times> runtime" where
  "steady = (\<lambda>cr rt. (Inr [demo_usage], rt))"

definition no_net :: "nat \<Rightarrow> http_request \<Rightarrow> string + http_response" where
  "no_net = (\<lambda>i req. Inl ''connection refused'')"

theorem Collect_outcome_witness:
  "\<exists>sn s'. Collect (demo_collector steady) ''minimax'' (ready_host no_net) = (Inr sn, s') \<and>
     snap_metrics sn = [demo_metric]"
proof -
  have "\<forall>f \<in> set (md_fields demo_metadata). secret_in (ready_host no_net) ''minimax'' (cf_name f) = None \<or>
      opens_to (cs_masterKey (col_credentials (demo_collector steady))) ''minimax'' (cf_name f)
        (secret_in (ready_host no_net) ''minimax'' (cf_name f)) \<noteq> None"
    by (simp add: demo_metadata_def opens_to_demo_blob)
  note outcome = Collect_outcome [OF ready_host_simps(1,2) demo_collector_simps(1,2) this]
  have "storable_metrics [demo_metric]" by (simp add: storable_metrics_def storable_demo_metric)
  with outcome show ?thesis
    by (auto simp: demo_metadata_def steady_def toStoreMetrics_demo)
qed

theorem Collect_frame_witness:
  "\<exists>r s'. Collect (demo_collector (\<lambda>cr rt. (Inl (Sentinel ErrAuth), rt))) ''minimax'' (ready_host no_net)
       = (r, s') \<and> enabled_in s' ''minimax'' = Some True"
proof -
  obtain r s' where r: "Collect (demo_collector (\<lambda>cr rt. (Inl (Sentinel ErrAuth), rt))) ''minimax''
      (ready_host no_net) = (r, s')" by fastforce
  from Collect_frame [OF ready_host_simps(1) demo_collector_simps(1) r] r show ?thesis by simp
qed

end
