(* ===== verification/Api.thy ===== *)
theory Api
  imports Http Mime Collector
begin

text \<open>
  \<^verbatim>\<open>internal/api\<close> up to the middleware: the wire types generated from the OpenAPI
  document with their JSON encoding, the adapters from the services to the seams that the
  handlers depend on, and the handlers. A Go slice is a list, so nil and empty slices are one
  value, and both are encoded as an empty array, as the handlers arrange.
\<close>

section \<open>Wire types\<close>

type_synonym error_code = string

definition ErrorErrorCodeConflict :: error_code where
  "ErrorErrorCodeConflict = ''conflict''"

definition ErrorErrorCodeInternalError :: error_code where
  "ErrorErrorCodeInternalError = ''internal_error''"

definition ErrorErrorCodeNotFound :: error_code where
  "ErrorErrorCodeNotFound = ''not_found''"

definition ErrorErrorCodeUnsupportedMediaType :: error_code where
  "ErrorErrorCodeUnsupportedMediaType = ''unsupported_media_type''"

definition ErrorErrorCodeValidationError :: error_code where
  "ErrorErrorCodeValidationError = ''validation_error''"

definition Valid :: "error_code \<Rightarrow> bool" where
  "Valid e \<longleftrightarrow>
     (if e = ErrorErrorCodeConflict then True
      else if e = ErrorErrorCodeInternalError then True
      else if e = ErrorErrorCodeNotFound then True
      else if e = ErrorErrorCodeUnsupportedMediaType then True
      else if e = ErrorErrorCodeValidationError then True
      else False)"

record api_credential_field =
  acf_Label :: string
  acf_Name :: string
  acf_Secret :: bool

record credential_presence =
  cpr_Configured :: bool
  cpr_Name :: string

record credential_presence_list =
  cpl_Fields :: "credential_presence list"

record credential_values =
  cv_Values :: "(string \<times> string) list"

record api_error =
  err_Code :: error_code
  err_Details :: "(string \<times> string list) list option"
  err_Message :: string

record api_provider =
  ap_CredentialFields :: "api_credential_field list"
  ap_Enabled :: bool
  ap_Id :: string
  ap_Live :: bool
  ap_Name :: string

record api_usage_metric =
  aum_Limit :: "int64 option"
  aum_Name :: string
  aum_Remaining :: "int64 option"
  aum_ResetAt :: "gotime option"
  aum_Unit :: string
  aum_Used :: int64
  aum_Window :: string

record usage_snapshot =
  us_CollectedAt :: "gotime option"
  us_LastError :: "string option"
  us_Metrics :: "api_usage_metric list"

section \<open>Encoding\<close>

text \<open>A member, and a member with \<^verbatim>\<open>omitempty\<close> on a pointer. Only times can fail to encode.\<close>

definition member :: "string \<Rightarrow> json \<Rightarrow> (string \<times> json) list" where
  "member name v = [(json_quote name, v)]"

definition optional_member :: "string \<Rightarrow> json option \<Rightarrow> (string \<times> json) list" where
  "optional_member name v = (case v of None \<Rightarrow> [] | Some j \<Rightarrow> member name j)"

definition encode_credential_field :: "api_credential_field \<Rightarrow> json" where
  "encode_credential_field f =
     JObj (member ''label'' (json_of_string (acf_Label f)) @
           member ''name'' (json_of_string (acf_Name f)) @
           member ''secret'' (JBool (acf_Secret f)))"

definition encode_provider :: "api_provider \<Rightarrow> json" where
  "encode_provider p =
     JObj (member ''credentialFields'' (JArr (map encode_credential_field (ap_CredentialFields p))) @
           member ''enabled'' (JBool (ap_Enabled p)) @
           member ''id'' (json_of_string (ap_Id p)) @
           member ''live'' (JBool (ap_Live p)) @
           member ''name'' (json_of_string (ap_Name p)))"

definition encode_presence :: "credential_presence \<Rightarrow> json" where
  "encode_presence c =
     JObj (member ''configured'' (JBool (cpr_Configured c)) @
           member ''name'' (json_of_string (cpr_Name c)))"

definition encode_presence_list :: "credential_presence_list \<Rightarrow> json" where
  "encode_presence_list l = JObj (member ''fields'' (JArr (map encode_presence (cpl_Fields l))))"

text \<open>A Go map is encoded with its keys sorted.\<close>

definition encode_details :: "(string \<times> string list) list \<Rightarrow> json" where
  "encode_details d =
     JObj (concat (map (\<lambda>(k, names). member k (JArr (map json_of_string names))) (sort_key fst d)))"

definition encode_error :: "api_error \<Rightarrow> json" where
  "encode_error e =
     JObj (member ''error''
       (JObj (member ''code'' (json_of_string (err_Code e)) @
              optional_member ''details'' (map_option encode_details (err_Details e)) @
              member ''message'' (json_of_string (err_Message e)))))"

definition encode_usage_metric :: "api_usage_metric \<Rightarrow> json option" where
  "encode_usage_metric m =
     (case (case aum_ResetAt m of None \<Rightarrow> Some None
            | Some t \<Rightarrow> map_option Some (json_of_time t)) of
        None \<Rightarrow> None
      | Some reset \<Rightarrow>
          Some (JObj (optional_member ''limit'' (map_option json_of_int64 (aum_Limit m)) @
                      member ''name'' (json_of_string (aum_Name m)) @
                      optional_member ''remaining'' (map_option json_of_int64 (aum_Remaining m)) @
                      optional_member ''resetAt'' reset @
                      member ''unit'' (json_of_string (aum_Unit m)) @
                      member ''used'' (json_of_int64 (aum_Used m)) @
                      member ''window'' (json_of_string (aum_Window m)))))"

definition encode_usage_snapshot :: "usage_snapshot \<Rightarrow> json option" where
  "encode_usage_snapshot s =
     (case (json_of_time_option (us_CollectedAt s), json_all encode_usage_metric (us_Metrics s)) of
        (Some collected, Some metrics) \<Rightarrow>
          Some (JObj (member ''collectedAt'' collected @
                      optional_member ''lastError'' (map_option json_of_string (us_LastError s)) @
                      member ''metrics'' (JArr metrics)))
      | _ \<Rightarrow> None)"

section \<open>Writing responses\<close>

definition newline :: string where
  "newline = [CHR 0x0A]"

text \<open>\<open>v\<close> is \<open>None\<close> if it cannot be encoded; the status is out by then.\<close>

definition writeJSON ::
    "int \<Rightarrow> json option \<Rightarrow> response_writer \<Rightarrow> 'z runtime_scheme \<Rightarrow> response_writer \<times> 'z runtime_scheme"
where
  "writeJSON status v w s =
     (let w1 = WriteHeader status (header_Set ''Content-Type'' ''application/json'' w)
      in case v of
           None \<Rightarrow> (w1, slog Error ''encode response'' [(''error'', error_text json_error)] s)
         | Some j \<Rightarrow>
             (case Write (json_text j @ newline) w1 of
                (ok, w2) \<Rightarrow>
                  (w2, if ok then s else slog Error ''encode response'' [(''error'', ''write'')] s)))"

definition writeErrorWithDetails ::
    "int \<Rightarrow> error_code \<Rightarrow> string \<Rightarrow> (string \<times> string list) list \<Rightarrow> response_writer
       \<Rightarrow> 'z runtime_scheme \<Rightarrow> response_writer \<times> 'z runtime_scheme" where
  "writeErrorWithDetails status ec message details w s =
     (let body = \<lparr>err_Code = ec,
                  err_Details = (if length details > 0 then Some details else None),
                  err_Message = message\<rparr>
      in writeJSON status (Some (encode_error body)) w s)"

definition writeError ::
    "int \<Rightarrow> error_code \<Rightarrow> string \<Rightarrow> response_writer \<Rightarrow> 'z runtime_scheme
       \<Rightarrow> response_writer \<times> 'z runtime_scheme" where
  "writeError status ec message w s = writeErrorWithDetails status ec message [] w s"

definition internal_error ::
    "response_writer \<Rightarrow> 'z runtime_scheme \<Rightarrow> response_writer \<times> 'z runtime_scheme" where
  "internal_error w s = writeError 500 ErrorErrorCodeInternalError ''internal server error'' w s"

definition methodNotAllowed ::
    "string \<Rightarrow> response_writer \<Rightarrow> 'z runtime_scheme \<Rightarrow> response_writer \<times> 'z runtime_scheme" where
  "methodNotAllowed allow w s =
     writeError 405 ErrorErrorCodeValidationError ''method not allowed'' (header_Set ''Allow'' allow w) s"

section \<open>Seams\<close>

text \<open>
  The interfaces the handlers depend on. An implementation of a Go interface can panic, whatever
  its signature says, so an operation answers a result or the value of a panic. The adapters below
  never do: what they call answers with errors.
\<close>

type_synonym ('s, 'a) seam_call = "'s \<Rightarrow> 'a result or_panic \<times> 's"

record 's api_provider_repository =
  ListProviders :: "('s, api_provider list) seam_call"
  GetProvider :: "string \<Rightarrow> ('s, api_provider) seam_call"
  EnableProvider :: "string \<Rightarrow> ('s, api_provider) seam_call"
  DisableProvider :: "string \<Rightarrow> ('s, api_provider) seam_call"

record 's api_credential_repository =
  SetCredentials :: "string \<Rightarrow> (string \<times> string) list \<Rightarrow> ('s, unit) seam_call"
  GetCredentialPresence :: "string \<Rightarrow> ('s, credential_presence list) seam_call"
  DeleteCredentials :: "string \<Rightarrow> ('s, unit) seam_call"

record 's usage_getter =
  GetUsage :: "string \<Rightarrow> ('s, usage_snapshot) seam_call"

record 's usage_refresher =
  RefreshUsage :: "string \<Rightarrow> ('s, usage_snapshot) seam_call"

text \<open>An operation that answers.\<close>

definition returns :: "('s \<Rightarrow> 'a result \<times> 's) \<Rightarrow> ('s, 'a) seam_call" where
  "returns f s = (case f s of (r, t) \<Rightarrow> (Inr r, t))"

lemma returns_simps [simp]:
  "f s = (r, t) \<Longrightarrow> returns f s = (Inr r, t)"
  "snd (returns f s) = snd (f s)" "fst (returns f s) = Inr (fst (f s))"
  by (simp_all add: returns_def split: prod.split)

section \<open>Adapters\<close>

definition toAPIProvider :: "provider \<Rightarrow> api_provider" where
  "toAPIProvider p =
     \<lparr>ap_CredentialFields =
        map (\<lambda>f. \<lparr>acf_Label = cf_label f, acf_Name = cf_name f, acf_Secret = cf_secret f\<rparr>) (md_fields p),
      ap_Enabled = p_enabled p, ap_Id = md_id p, ap_Live = p_live p, ap_Name = md_name p\<rparr>"

definition provider_answer ::
    "provider result \<times> 's \<Rightarrow> api_provider result \<times> 's" where
  "provider_answer r =
     (case r of (Inl e, s) \<Rightarrow> (Inl e, s) | (Inr p, s) \<Rightarrow> (Inr (toAPIProvider p), s))"

definition NewProviderRepository :: "'s provider_service \<Rightarrow> 's api_provider_repository" where
  "NewProviderRepository svc =
     \<lparr>ListProviders = returns (\<lambda>s. case service_List svc s of
        (Inl e, s1) \<Rightarrow> (Inl e, s1) | (Inr ps, s1) \<Rightarrow> (Inr (map toAPIProvider ps), s1)),
      GetProvider = (\<lambda>i. returns (\<lambda>s. provider_answer (service_Get svc i s))),
      EnableProvider = (\<lambda>i. returns (\<lambda>s. provider_answer (service_SetEnabled svc i True s))),
      DisableProvider = (\<lambda>i. returns (\<lambda>s. provider_answer (service_SetEnabled svc i False s)))\<rparr>"

text \<open>
  \<open>order\<close> is the order in which Go ranges over the submitted map, which the language leaves
  open: some permutation of the entries.
\<close>

record 's credential_adapter =
  ca_providers :: "'s provider_service"
  ca_credentials :: "'s credential_service"
  ca_order :: "(string \<times> string) list \<Rightarrow> (string \<times> string) list"

definition validateCredentialFields ::
    "credential_field list \<Rightarrow> (string \<times> string) list \<Rightarrow> goerr option" where
  "validateCredentialFields declared values =
     (let declaredNames = remdups (map cf_name declared);
          missing = filter (\<lambda>name. map_of values name = None) declaredNames;
          unknown = filter (\<lambda>name. name \<notin> set declaredNames) (map fst values)
      in if length missing = 0 \<and> length unknown = 0 then None
         else Some (InvalidCredentialFields (sort missing) (sort unknown)))"

definition adapter_SetCredentials ::
    "('z runtime_scheme) credential_adapter \<Rightarrow> string \<Rightarrow> (string \<times> string) list
       \<Rightarrow> 'z runtime_scheme \<Rightarrow> unit result \<times> 'z runtime_scheme" where
  "adapter_SetCredentials a providerID values s =
     (case service_Get (ca_providers a) providerID s of
        (Inl e, s1) \<Rightarrow> (Inl e, s1)
      | (Inr p, s1) \<Rightarrow>
          (case validateCredentialFields (md_fields p) values of
             Some e \<Rightarrow> (Inl e, s1)
           | None \<Rightarrow> SetValues (ca_credentials a) providerID (ca_order a values) s1))"

definition adapter_GetCredentialPresence ::
    "'s credential_adapter \<Rightarrow> string \<Rightarrow> 's \<Rightarrow> credential_presence list result \<times> 's" where
  "adapter_GetCredentialPresence a providerID s =
     (case service_Get (ca_providers a) providerID s of
        (Inl e, s1) \<Rightarrow> (Inl e, s1)
      | (Inr p, s1) \<Rightarrow>
          (case Presence (ca_credentials a) providerID s1 of
             (Inl e, s2) \<Rightarrow> (Inl e, s2)
           | (Inr presence, s2) \<Rightarrow>
               (Inr (map (\<lambda>f. \<lparr>cpr_Configured = presence (cf_name f), cpr_Name = cf_name f\<rparr>)
                       (md_fields p)), s2)))"

definition adapter_DeleteCredentials ::
    "'s credential_adapter \<Rightarrow> string \<Rightarrow> 's \<Rightarrow> unit result \<times> 's" where
  "adapter_DeleteCredentials a providerID s =
     (case service_Get (ca_providers a) providerID s of
        (Inl e, s1) \<Rightarrow> (Inl e, s1)
      | (Inr _, s1) \<Rightarrow> Delete (ca_credentials a) providerID s1)"

definition NewCredentialRepository ::
    "((string \<times> string) list \<Rightarrow> (string \<times> string) list) \<Rightarrow> ('z runtime_scheme) provider_service
       \<Rightarrow> ('z runtime_scheme) credential_service \<Rightarrow> ('z runtime_scheme) api_credential_repository" where
  "NewCredentialRepository order providers credentials =
     (let a = \<lparr>ca_providers = providers, ca_credentials = credentials, ca_order = order\<rparr>
      in \<lparr>SetCredentials = (\<lambda>i values. returns (adapter_SetCredentials a i values)),
          GetCredentialPresence = (\<lambda>i. returns (adapter_GetCredentialPresence a i)),
          DeleteCredentials = (\<lambda>i. returns (adapter_DeleteCredentials a i))\<rparr>)"

definition toAPIUsageMetric :: "metric \<Rightarrow> api_usage_metric" where
  "toAPIUsageMetric m =
     \<lparr>aum_Limit = m_limit m, aum_Name = m_name m, aum_Remaining = m_remaining m,
      aum_ResetAt = m_reset_at m, aum_Unit = m_unit m, aum_Used = m_used m, aum_Window = m_window m\<rparr>"

definition toAPIUsageSnapshot :: "snapshot \<Rightarrow> usage_snapshot" where
  "toAPIUsageSnapshot snap =
     \<lparr>us_CollectedAt = Some (snap_collected_at snap), us_LastError = snap_last_error snap,
      us_Metrics = map toAPIUsageMetric (snap_metrics snap)\<rparr>"

text \<open>A provider that was never collected.\<close>

definition pending_snapshot :: usage_snapshot where
  "pending_snapshot = \<lparr>us_CollectedAt = None, us_LastError = None, us_Metrics = []\<rparr>"

definition adapter_GetUsage ::
    "'s provider_service \<Rightarrow> 's snapshot_repository \<Rightarrow> string \<Rightarrow> 's \<Rightarrow> usage_snapshot result \<times> 's"
where
  "adapter_GetUsage providers snapshots providerID s =
     (case service_Get providers providerID s of
        (Inl e, s1) \<Rightarrow> (Inl e, s1)
      | (Inr _, s1) \<Rightarrow>
          (case snap_GetSnapshot snapshots providerID s1 of
             (Inl e, s2) \<Rightarrow>
               (if errors_is e ErrNotFound then (Inr pending_snapshot, s2) else (Inl e, s2))
           | (Inr snap, s2) \<Rightarrow> (Inr (toAPIUsageSnapshot snap), s2)))"

definition NewUsageGetter :: "'s provider_service \<Rightarrow> 's snapshot_repository \<Rightarrow> 's usage_getter" where
  "NewUsageGetter providers snapshots = \<lparr>GetUsage = (\<lambda>i. returns (adapter_GetUsage providers snapshots i))\<rparr>"

definition adapter_RefreshUsage ::
    "('z runtime_scheme) collector \<Rightarrow> string \<Rightarrow> 'z runtime_scheme
       \<Rightarrow> usage_snapshot result \<times> 'z runtime_scheme" where
  "adapter_RefreshUsage col providerID s =
     (case Collect col providerID s of
        (Inl e, s1) \<Rightarrow> (Inl e, s1)
      | (Inr snap, s1) \<Rightarrow> (Inr (toAPIUsageSnapshot snap), s1))"

definition NewUsageRefresher :: "('z runtime_scheme) collector \<Rightarrow> ('z runtime_scheme) usage_refresher" where
  "NewUsageRefresher col = \<lparr>RefreshUsage = (\<lambda>i. returns (adapter_RefreshUsage col i))\<rparr>"

end
