(* ===== verification/Handlers.thy ===== *)
theory Handlers
  imports Api
begin

text \<open>
  The handlers of \<^verbatim>\<open>internal/api\<close> and its middleware: request ids, logging with
  the status recorder, panic recovery, and the versioned routes. Every handler is written as the
  source has it, over the interface values it depends on.
\<close>

section \<open>Handlers\<close>

definition finish :: "response_writer \<times> 's \<Rightarrow> string option \<times> response_writer \<times> 's" where
  "finish r = (None, r)"

text \<open>A call through a seam: a panic unwinds the handler, with nothing written yet.\<close>

definition calling ::
    "'a result or_panic \<times> 's \<Rightarrow> response_writer
       \<Rightarrow> ('a result \<times> 's \<Rightarrow> string option \<times> response_writer \<times> 's)
       \<Rightarrow> string option \<times> response_writer \<times> 's" where
  "calling c w answer =
     (case c of (Inl v, s) \<Rightarrow> (Some v, w, s) | (Inr r, s) \<Rightarrow> answer (r, s))"

lemma calling_simps [simp]:
  "calling (Inl v, s) w k = (Some v, w, s)" "calling (Inr r, s) w k = k (r, s)"
  "calling (returns f s) w k = k (f s)"
  by (simp_all add: calling_def returns_def split: prod.split)

definition handleProvidersCollection ::
    "('z runtime_scheme) api_provider_repository \<Rightarrow> ('z runtime_scheme) http_handler" where
  "handleProvidersCollection repo r w s =
     (if wq_method r \<noteq> ''GET'' then finish (methodNotAllowed ''GET'' w s)
      else calling (ListProviders repo s) w (\<lambda>answer. case answer of
        (Inl e, s1) \<Rightarrow>
          finish (writeError 500 ErrorErrorCodeInternalError ''internal server error'' w s1)
      | (Inr providers, s1) \<Rightarrow>
          finish (writeJSON 200 (Some (JArr (map encode_provider providers))) w s1)))"

definition respondProvider ::
    "(string \<Rightarrow> ('z runtime_scheme, api_provider) seam_call) \<Rightarrow> ('z runtime_scheme) http_handler" where
  "respondProvider fn r w s =
     calling (fn (PathValue ''id'' r) s) w (\<lambda>answer. case answer of
        (Inl e, s1) \<Rightarrow>
          if errors_is e ErrNotFound
          then finish (writeError 404 ErrorErrorCodeNotFound ''provider not found'' w s1)
          else finish (writeError 500 ErrorErrorCodeInternalError ''internal server error'' w s1)
      | (Inr p, s1) \<Rightarrow> finish (writeJSON 200 (Some (encode_provider p)) w s1))"

definition handleProviderItem ::
    "('z runtime_scheme) api_provider_repository \<Rightarrow> ('z runtime_scheme) http_handler" where
  "handleProviderItem repo r w s =
     (if wq_method r \<noteq> ''GET'' then finish (methodNotAllowed ''GET'' w s)
      else respondProvider (GetProvider repo) r w s)"

definition handleProviderEnable ::
    "('z runtime_scheme) api_provider_repository \<Rightarrow> ('z runtime_scheme) http_handler" where
  "handleProviderEnable repo r w s =
     (if wq_method r \<noteq> ''POST'' then finish (methodNotAllowed ''POST'' w s)
      else respondProvider (EnableProvider repo) r w s)"

definition handleProviderDisable ::
    "('z runtime_scheme) api_provider_repository \<Rightarrow> ('z runtime_scheme) http_handler" where
  "handleProviderDisable repo r w s =
     (if wq_method r \<noteq> ''POST'' then finish (methodNotAllowed ''POST'' w s)
      else respondProvider (DisableProvider repo) r w s)"

definition handleNotFound :: "('z runtime_scheme) http_handler" where
  "handleNotFound r w s = finish (writeError 404 ErrorErrorCodeNotFound ''resource not found'' w s)"

subsection \<open>Credentials\<close>

definition dec_CredentialValues :: "credential_values decoder" where
  "dec_CredentialValues = dec_struct [''values'']
     (\<lambda>n v c. map_option (\<lambda>x. c\<lparr>cv_Values := x\<rparr>) (dec_string_map v (cv_Values c)))"

definition writeCredentialError ::
    "goerr \<Rightarrow> response_writer \<Rightarrow> 'z runtime_scheme \<Rightarrow> response_writer \<times> 'z runtime_scheme" where
  "writeCredentialError err w s =
     (case errors_as_fields err of
        Some (missing, unknown) \<Rightarrow>
          (let details = (if length missing > 0 then [(''missing'', missing)] else []) @
                         (if length unknown > 0 then [(''unknown'', unknown)] else [])
           in writeErrorWithDetails 400 ErrorErrorCodeValidationError ''invalid credential fields''
                details w s)
      | None \<Rightarrow>
          if errors_is err ErrNotFound
          then writeError 404 ErrorErrorCodeNotFound ''provider not found'' w s
          else writeError 500 ErrorErrorCodeInternalError ''internal server error'' w s)"

definition handleSetCredentials ::
    "('z runtime_scheme) api_credential_repository \<Rightarrow> ('z runtime_scheme) http_handler" where
  "handleSetCredentials repo r w s =
     (if ParseMediaType (wq_content_type r) \<noteq> Some ''application/json''
      then finish (writeError 415 ErrorErrorCodeUnsupportedMediaType
             ''Content-Type must be application/json'' w s)
      else case decode_first dec_CredentialValues \<lparr>cv_Values = []\<rparr> (wq_body r) of
        Inl e \<Rightarrow> finish (writeError 400 ErrorErrorCodeValidationError ''invalid request body'' w s)
      | Inr body \<Rightarrow>
          calling (SetCredentials repo (PathValue ''id'' r) (cv_Values body) s) w (\<lambda>answer. case answer of
             (Inl e, s1) \<Rightarrow> finish (writeCredentialError e w s1)
           | (Inr _, s1) \<Rightarrow> finish (WriteHeader 204 w, s1)))"

definition handleGetCredentials ::
    "('z runtime_scheme) api_credential_repository \<Rightarrow> ('z runtime_scheme) http_handler" where
  "handleGetCredentials repo r w s =
     calling (GetCredentialPresence repo (PathValue ''id'' r) s) w (\<lambda>answer. case answer of
        (Inl e, s1) \<Rightarrow> finish (writeCredentialError e w s1)
      | (Inr fs, s1) \<Rightarrow>
          finish (writeJSON 200 (Some (encode_presence_list \<lparr>cpl_Fields = fs\<rparr>)) w s1))"

definition handleDeleteCredentials ::
    "('z runtime_scheme) api_credential_repository \<Rightarrow> ('z runtime_scheme) http_handler" where
  "handleDeleteCredentials repo r w s =
     calling (DeleteCredentials repo (PathValue ''id'' r) s) w (\<lambda>answer. case answer of
        (Inl e, s1) \<Rightarrow> finish (writeCredentialError e w s1)
      | (Inr _, s1) \<Rightarrow> finish (WriteHeader 204 w, s1))"

definition handleProviderCredentials ::
    "('z runtime_scheme) api_credential_repository \<Rightarrow> ('z runtime_scheme) http_handler" where
  "handleProviderCredentials repo r w s =
     (if wq_method r = ''PUT'' then handleSetCredentials repo r w s
      else if wq_method r = ''GET'' then handleGetCredentials repo r w s
      else if wq_method r = ''DELETE'' then handleDeleteCredentials repo r w s
      else finish (methodNotAllowed ''PUT, GET, DELETE'' w s))"

subsection \<open>Usage\<close>

definition handleProviderUsage ::
    "('z runtime_scheme) usage_getter \<Rightarrow> ('z runtime_scheme) http_handler" where
  "handleProviderUsage getter r w s =
     (if wq_method r \<noteq> ''GET'' then finish (methodNotAllowed ''GET'' w s)
      else calling (GetUsage getter (PathValue ''id'' r) s) w (\<lambda>answer. case answer of
        (Inl e, s1) \<Rightarrow>
          if errors_is e ErrNotFound
          then finish (writeError 404 ErrorErrorCodeNotFound ''provider not found'' w s1)
          else finish (writeError 500 ErrorErrorCodeInternalError ''internal server error'' w s1)
      | (Inr snap, s1) \<Rightarrow> finish (writeJSON 200 (encode_usage_snapshot snap) w s1)))"

definition writeRefreshError ::
    "goerr \<Rightarrow> response_writer \<Rightarrow> 'z runtime_scheme \<Rightarrow> response_writer \<times> 'z runtime_scheme" where
  "writeRefreshError err w s =
     (if errors_is err ErrNotFound
      then writeError 404 ErrorErrorCodeNotFound ''provider not found'' w s
      else if errors_is err ErrProviderDisabled
      then writeError 409 ErrorErrorCodeConflict ''provider is disabled'' w s
      else if errors_is err ErrProviderUncredentialed
      then writeError 409 ErrorErrorCodeConflict ''provider is missing required credentials'' w s
      else if errors_is err ErrFetcherNotFound
      then writeError 409 ErrorErrorCodeConflict ''provider has no registered fetcher'' w s
      else writeError 500 ErrorErrorCodeInternalError ''internal server error'' w s)"

definition handleProviderRefresh ::
    "('z runtime_scheme) usage_refresher \<Rightarrow> ('z runtime_scheme) http_handler" where
  "handleProviderRefresh refresher r w s =
     (if wq_method r \<noteq> ''POST'' then finish (methodNotAllowed ''POST'' w s)
      else calling (RefreshUsage refresher (PathValue ''id'' r) s) w (\<lambda>answer. case answer of
        (Inl e, s1) \<Rightarrow> finish (writeRefreshError e w s1)
      | (Inr snap, s1) \<Rightarrow> finish (writeJSON 200 (encode_usage_snapshot snap) w s1)))"

section \<open>Middleware\<close>

definition contextWithRequestID :: "string \<Rightarrow> web_request \<Rightarrow> web_request" where
  "contextWithRequestID i r = r\<lparr>wq_request_id := Some i\<rparr>"

definition requestIDFromContext :: "web_request \<Rightarrow> string" where
  "requestIDFromContext r = (case wq_request_id r of None \<Rightarrow> [] | Some i \<Rightarrow> i)"

definition hex_of_byte :: "byte \<Rightarrow> string" where
  "hex_of_byte b = [hex_digit (unat b div 16), hex_digit (unat b mod 16)]"

definition newRequestID :: "'z runtime_scheme \<Rightarrow> string \<times> 'z runtime_scheme" where
  "newRequestID s =
     (case rand_Read 16 s of
        (Inl e, s1) \<Rightarrow> ([], s1)
      | (Inr b, s1) \<Rightarrow> (concat (map hex_of_byte b), s1))"

definition withRequestID :: "('z runtime_scheme) http_handler \<Rightarrow> ('z runtime_scheme) http_handler" where
  "withRequestID h r w s =
     (case newRequestID s of (i, s1) \<Rightarrow>
        h (contextWithRequestID i r) (header_Set ''X-Request-Id'' i w) s1)"

definition push_recorder :: "response_writer \<Rightarrow> response_writer" where
  "push_recorder w = w\<lparr>rw_recorders := 200 # rw_recorders w\<rparr>"

definition pop_recorder :: "response_writer \<Rightarrow> response_writer" where
  "pop_recorder w = w\<lparr>rw_recorders := tl (rw_recorders w)\<rparr>"

definition recorded_status :: "response_writer \<Rightarrow> int" where
  "recorded_status w = (case rw_recorders w of [] \<Rightarrow> 200 | n # _ \<Rightarrow> n)"

definition strip_newlines :: "string \<Rightarrow> string" where
  "strip_newlines s = filter (\<lambda>c. c \<noteq> CHR 0x0A) (filter (\<lambda>c. c \<noteq> CHR 0x0D) s)"

text \<open>A panic passes through without a log line.\<close>

definition withLogging :: "('z runtime_scheme) http_handler \<Rightarrow> ('z runtime_scheme) http_handler" where
  "withLogging h r w s =
     (case time_Now s of (start, s1) \<Rightarrow>
        (case h r (push_recorder w) s1 of
           (Some v, w2, s2) \<Rightarrow> (Some v, pop_recorder w2, s2)
         | (None, w2, s2) \<Rightarrow>
             (case time_Now s2 of (t, s3) \<Rightarrow>
                (None, pop_recorder w2,
                 slog Info ''http request''
                   [(''method'', strip_newlines (wq_method r)),
                    (''path'', strip_newlines (url_path r)),
                    (''status'', string_of_int (recorded_status w2)),
                    (''duration'', string_of_int (instant t - instant start)),
                    (''requestId'', requestIDFromContext r)] s3))))"

definition withRecovery :: "('z runtime_scheme) http_handler \<Rightarrow> ('z runtime_scheme) http_handler" where
  "withRecovery h r w s =
     (case h r w s of
        (Some v, w1, s1) \<Rightarrow>
          finish (writeError 500 ErrorErrorCodeInternalError ''internal server error'' w1
            (slog Error ''panic recovered''
               [(''error'', v), (''path'', strip_newlines (url_path r))] s1))
      | (None, w1, s1) \<Rightarrow> (None, w1, s1))"

definition chain :: "('h \<Rightarrow> 'h) list \<Rightarrow> 'h \<Rightarrow> 'h" where
  "chain mw h = foldl (\<lambda>h m. m h) h (rev mw)"

section \<open>The versioned routes\<close>

definition any_method :: "pattern_segment list \<Rightarrow> 's http_handler \<Rightarrow> 's route" where
  "any_method segs h = \<lparr>rt_method = None, rt_segments = segs, rt_handler = h\<rparr>"

definition provider_route :: "pattern_segment list \<Rightarrow> pattern_segment list" where
  "provider_route segs = [Lit ''api'', Lit ''v1'', Lit ''providers'', Wild ''id''] @ segs"

definition api_routes ::
    "('z runtime_scheme) api_provider_repository \<Rightarrow> ('z runtime_scheme) api_credential_repository
       \<Rightarrow> ('z runtime_scheme) usage_getter \<Rightarrow> ('z runtime_scheme) usage_refresher
       \<Rightarrow> ('z runtime_scheme) route list" where
  "api_routes repo credentials snapshots refresher =
     [any_method [Lit ''api'', Lit ''v1'', Lit ''providers''] (handleProvidersCollection repo),
      any_method (provider_route []) (handleProviderItem repo),
      any_method (provider_route [Lit ''enable'']) (handleProviderEnable repo),
      any_method (provider_route [Lit ''disable'']) (handleProviderDisable repo),
      any_method (provider_route [Lit ''credentials'']) (handleProviderCredentials credentials),
      any_method (provider_route [Lit ''usage'']) (handleProviderUsage snapshots),
      any_method (provider_route [Lit ''refresh'']) (handleProviderRefresh refresher),
      any_method [Lit ''api'', Lit ''v1'', Multi] handleNotFound]"

definition NewHandler ::
    "('z runtime_scheme) api_provider_repository \<Rightarrow> ('z runtime_scheme) api_credential_repository
       \<Rightarrow> ('z runtime_scheme) usage_getter \<Rightarrow> ('z runtime_scheme) usage_refresher
       \<Rightarrow> ('z runtime_scheme) http_handler" where
  "NewHandler repo credentials snapshots refresher =
     chain [withRequestID, withLogging, withRecovery]
       (ServeMux (api_routes repo credentials snapshots refresher))"

end
