(* ===== verification/Handler_Laws.thy ===== *)
theory Handler_Laws
  imports Handlers
begin

text \<open>
  What holds of the HTTP layer whatever stands behind its seams: every request is answered once,
  with a status of the contract, a request id and a log line, and an internal error shows the
  client nothing but the generic envelope; a panic becomes such an error; and the routes.
\<close>

section \<open>Writing\<close>

definition error_body :: "error_code \<Rightarrow> string \<Rightarrow> string" where
  "error_body c msg =
     json_text (encode_error \<lparr>err_Code = c, err_Details = None, err_Message = msg\<rparr>) @ newline"

definition internal_body :: string where
  "internal_body = error_body ErrorErrorCodeInternalError ''internal server error''"

text \<open>A response that is complete: status, body and the state of the program behind it.\<close>

definition responds :: "response_writer \<Rightarrow> int \<Rightarrow> string \<Rightarrow> bool" where
  "responds w status body \<longleftrightarrow> sent_status w = Some status \<and> rw_body w = body"

definition open_writer :: "response_writer \<Rightarrow> bool" where
  "open_writer w \<longleftrightarrow> rw_sent w = None \<and> rw_body w = [] \<and> \<not> rw_broken w"

lemma open_new_writer [simp]: "open_writer new_writer"
  by (simp add: open_writer_def new_writer_def)

lemma open_writer_simps [simp]:
  "open_writer (header_Set k v w) = open_writer w"
  "open_writer (push_recorder w) = open_writer w"
  by (simp_all add: open_writer_def push_recorder_def)

lemma writeJSON_simps [simp]:
  "rw_sent w = None \<Longrightarrow> rw_sent (fst (writeJSON st v w s)) =
     Some (st, rw_header (header_Set ''Content-Type'' ''application/json'' w))"
  "rw_recorders (fst (writeJSON st v w s)) = map (\<lambda>_. st) (rw_recorders w)"
  "rw_broken (fst (writeJSON st v w s)) = rw_broken w"
  "rw_header (fst (writeJSON st v w s)) = rw_header (header_Set ''Content-Type'' ''application/json'' w)"
  by (auto simp: writeJSON_def Let_def Write_def split: option.split prod.split)

lemma writeJSON_body:
  "rw_sent w = None \<Longrightarrow> rw_body (fst (writeJSON st (Some j) w s)) =
     rw_body w @ (if rw_broken w \<or> \<not> body_allowed st then [] else json_text j @ newline)"
  by (simp add: writeJSON_def Let_def Write_def split: prod.split)

lemma writeJSON_more [simp]: "runtime.more (snd (writeJSON st v w s)) = runtime.more s"
  by (auto simp: writeJSON_def Let_def frame_simps split: option.split prod.split)

lemma writeJSON_open:
  "open_writer w \<Longrightarrow> body_allowed st \<Longrightarrow> snd (writeJSON st (Some j) w s) = s"
  by (auto simp: writeJSON_def open_writer_def Let_def Write_def split: prod.split)

lemma writeJSON_responds:
  "open_writer w \<Longrightarrow> body_allowed st \<Longrightarrow>
   responds (fst (writeJSON st (Some j) w s)) st (json_text j @ newline)"
  by (simp add: responds_def open_writer_def sent_status_def writeJSON_body)

lemmas write_error_defs = writeError_def writeErrorWithDetails_def Let_def

lemma writeError_simps [simp]:
  "runtime.more (snd (writeError st c m w s)) = runtime.more s"
  "open_writer w \<Longrightarrow> body_allowed st \<Longrightarrow> snd (writeError st c m w s) = s"
  "open_writer w \<Longrightarrow> body_allowed st \<Longrightarrow> responds (fst (writeError st c m w s)) st (error_body c m)"
  using writeJSON_responds [of w st]
  by (simp_all add: write_error_defs writeJSON_open error_body_def)

lemma finish_simps [simp]: "finish r = (None, fst r, snd r)"
  by (simp add: finish_def)

section \<open>Every handler answers\<close>

text \<open>The statuses of the API contract.\<close>

definition contract_statuses :: "int set" where
  "contract_statuses = {200, 204, 400, 404, 405, 409, 415, 500}"

definition answered :: "int set \<Rightarrow> response_writer \<Rightarrow> response_writer \<Rightarrow> bool" where
  "answered S w w' \<longleftrightarrow>
     (\<exists>st hs. rw_sent w' = Some (st, hs) \<and> st \<in> S \<and>
        rw_recorders w' = map (\<lambda>_. st) (rw_recorders w) \<and>
        map_of hs ''X-Request-Id'' = map_of (rw_header w) ''X-Request-Id'' \<and>
        (st = 500 \<longrightarrow> \<not> rw_broken w \<longrightarrow> rw_body w' = rw_body w @ internal_body))"

text \<open>A handler answers, or it panics before it has written anything.\<close>

definition settled :: "int set \<Rightarrow> response_writer \<Rightarrow> string option \<times> response_writer \<times> 's \<Rightarrow> bool" where
  "settled S w out = (case out of (None, w', s) \<Rightarrow> answered S w w' | (Some v, w', s) \<Rightarrow> w' = w)"

definition settles :: "'s http_handler \<Rightarrow> bool" where
  "settles h \<longleftrightarrow> (\<forall>r w s. rw_sent w = None \<longrightarrow> settled contract_statuses w (h r w s))"

named_theorems answer_intros "a written response is an answer"

lemma answered_writeJSON [answer_intros]:
  "rw_sent w = None \<Longrightarrow> st \<in> S \<Longrightarrow> st \<noteq> 500 \<Longrightarrow> answered S w (fst (writeJSON st v w s))"
  by (simp add: answered_def)

lemma answered_writeError [answer_intros]:
  "rw_sent w = None \<Longrightarrow> st \<in> S \<Longrightarrow> st \<noteq> 500 \<Longrightarrow> answered S w (fst (writeError st c m w s))"
  by (simp add: write_error_defs answer_intros)

lemma answered_internal [answer_intros]:
  "rw_sent w = None \<Longrightarrow> 500 \<in> S \<Longrightarrow>
   answered S w (fst (writeError 500 ErrorErrorCodeInternalError ''internal server error'' w s))"
  by (simp add: answered_def write_error_defs internal_body_def error_body_def
      writeJSON_body body_allowed_def)

lemma answered_methodNotAllowed [answer_intros]:
  "rw_sent w = None \<Longrightarrow> 405 \<in> S \<Longrightarrow> answered S w (fst (methodNotAllowed allow w s))"
  by (simp add: answered_def methodNotAllowed_def write_error_defs)

lemma answered_status [answer_intros]:
  "rw_sent w = None \<Longrightarrow> st \<in> S \<Longrightarrow> st \<noteq> 500 \<Longrightarrow> answered S w (WriteHeader st w)"
  by (simp add: answered_def)

lemma answered_credential_error [answer_intros]:
  "rw_sent w = None \<Longrightarrow> answered contract_statuses w (fst (writeCredentialError e w s))"
  by (auto simp: writeCredentialError_def writeErrorWithDetails_def Let_def contract_statuses_def
      intro!: answer_intros split: option.split)

lemma answered_refresh_error [answer_intros]:
  "rw_sent w = None \<Longrightarrow> answered contract_statuses w (fst (writeRefreshError e w s))"
  by (auto simp: writeRefreshError_def contract_statuses_def intro!: answer_intros)

lemmas handler_defs = handleProvidersCollection_def handleProviderItem_def handleProviderEnable_def
  handleProviderDisable_def respondProvider_def handleNotFound_def handleProviderCredentials_def
  handleSetCredentials_def handleGetCredentials_def handleDeleteCredentials_def
  handleProviderUsage_def handleProviderRefresh_def

lemma statuses_in [simp]:
  "200 \<in> contract_statuses" "204 \<in> contract_statuses" "400 \<in> contract_statuses"
  "404 \<in> contract_statuses" "405 \<in> contract_statuses" "409 \<in> contract_statuses"
  "415 \<in> contract_statuses" "500 \<in> contract_statuses"
  by (simp_all add: contract_statuses_def)

lemma settled_simps [simp]:
  "settled S w (None, out) = answered S w (fst out)" "settled S w (Some v, out) = (fst out = w)"
  by (simp_all add: settled_def split: prod.split)

lemma settled_calling:
  assumes "\<And>e s. settled S w (k (Inl e, s))" and "\<And>a s. settled S w (k (Inr a, s))"
  shows "settled S w (calling c w k)"
proof -
  obtain r t where c: "c = (r, t)" by fastforce
  show ?thesis
  proof (cases r)
    case (Inr a)
    then show ?thesis using assms c by (cases a) simp_all
  qed (simp add: c)
qed

lemma handlers_settle:
  "settles (handleProvidersCollection repo)" "settles (handleProviderItem repo)"
  "settles (handleProviderEnable repo)" "settles (handleProviderDisable repo)"
  "settles (handleProviderCredentials crepo)" "settles (handleProviderUsage getter)"
  "settles (handleProviderRefresh refresher)" "settles handleNotFound"
  unfolding settles_def handler_defs
  by (auto intro!: settled_calling answer_intros split: sum.split)

lemma match_path_in: "match_path ps segs = Some (a, vs) \<Longrightarrow> a \<in> snd ` set ps"
proof (induction segs arbitrary: ps a vs)
  case Nil
  then obtain q where "find (\<lambda>(r, _). r = []) ps = Some (q, a)" by (auto simp: leaf_def)
  then have "(q, a) \<in> set ps" by (auto simp: find_Some_iff dest: nth_mem)
  then show ?case by force
next
  case (Cons seg rest)
  have leaf: "leaf q ps = Some b \<Longrightarrow> b \<in> snd ` set ps" for q b
    by (force simp: leaf_def find_Some_iff in_set_conv_nth)
  have sub: "snd ` set (below q ps) \<subseteq> snd ` set ps" "snd ` set (below_wild ps) \<subseteq> snd ` set ps" for q
    by (force simp: below_def below_wild_def)+
  consider (literal) "match_path (below (Lit seg) ps) rest = Some (a, vs)"
    | (wild) us where "match_path (below_wild ps) rest = Some (a, us)"
    | (multi) "leaf [Multi] ps = Some a"
    using Cons.prems by (auto split: option.splits if_splits)
  then show ?case using Cons.IH leaf sub by cases blast+
qed

lemma mux_match_in: "mux_match routes m path = Some (rt, vs) \<Longrightarrow> rt \<in> set routes"
proof -
  have "snd ` set (routes_for k routes) \<subseteq> set routes" for k by (auto simp: routes_for_def)
  then show "mux_match routes m path = Some (rt, vs) \<Longrightarrow> ?thesis"
    unfolding mux_match_def by (fastforce dest: match_path_in split: option.splits if_splits)
qed

lemma findHandler_in: "findHandler routes r = Handle rt vs \<Longrightarrow> rt \<in> set routes"
  by (auto simp: findHandler_def matchOrRedirect_def Let_def dest: mux_match_in
      split: if_splits option.splits prod.splits)

lemma answered_http_Error:
  "rw_sent w = None \<Longrightarrow> st \<in> S \<Longrightarrow> st \<noteq> 500 \<Longrightarrow> answered S w (http_Error m st w)"
  by (simp add: answered_def http_Error_def)

lemma answered_header:
  "k \<noteq> ''X-Request-Id'' \<Longrightarrow> answered S (header_Set k v w) w' \<Longrightarrow> answered S w w'"
  by (simp add: answered_def)

text \<open>The mux itself answers a path it redirects, and no other, with 301.\<close>

definition mux_statuses :: "'s route list \<Rightarrow> web_request \<Rightarrow> int set" where
  "mux_statuses routes r =
     (if wq_path r \<noteq> ''*'' \<and> findHandler routes r = Redirect then {301} else contract_statuses)"

lemma ServeMux_settles:
  assumes "\<forall>rt \<in> set routes. settles (rt_handler rt)" and "rw_sent w = None"
  shows "settled (mux_statuses routes r) w (ServeMux routes r w s)"
proof (cases "wq_path r = ''*''")
  case True
  have "answered contract_statuses w (WriteHeader 400 (header_Set ''Connection'' ''close'' w))"
    using assms(2) by (intro answered_header [OF _ answered_status]) (simp_all add: contract_statuses_def)
  with True show ?thesis by (simp add: ServeMux_def settled_def mux_statuses_def)
next
  case False
  show ?thesis
  proof (cases "findHandler routes r")
    case (Handle rt vs)
    with assms findHandler_in [OF Handle] False show ?thesis
      by (simp add: ServeMux_def settles_def mux_statuses_def)
  next
    case (MethodNotAllowed ms)
    have "answered contract_statuses w (http_Error ''Method Not Allowed'' 405
        (header_Set ''Allow'' (joined '', '' ms) w))"
      using assms(2)
      by (intro answered_header [OF _ answered_http_Error]) (simp_all add: contract_statuses_def)
    with MethodNotAllowed False show ?thesis by (simp add: ServeMux_def settled_def mux_statuses_def)
  qed (use False assms(2) in \<open>simp_all add: ServeMux_def settled_def mux_statuses_def answered_http_Error
         answered_status contract_statuses_def\<close>)
qed

lemma api_routes_settle: "\<forall>rt \<in> set (api_routes repo credentials snapshots refresher). settles (rt_handler rt)"
  by (simp add: api_routes_def any_method_def handlers_settle)

section \<open>Middleware\<close>

lemma chain_three: "chain [a, b, c] h = a (b (c h))"
  by (simp add: chain_def)

lemma withRecovery_none: "fst (h r w s) = None \<Longrightarrow> withRecovery h r w s = h r w s"
  by (cases "h r w s") (simp add: withRecovery_def)

lemma withRecovery_settled:
  assumes "settled S w (h r w s)" and "rw_sent w = None" and "500 \<in> S \<or> fst (h r w s) = None"
  shows "fst (withRecovery h r w s) = None \<and> answered S w (fst (snd (withRecovery h r w s)))"
proof (cases "h r w s")
  case (fields p w1 s1)
  with assms show ?thesis
    by (cases p) (auto simp: withRecovery_def settled_def answered_internal)
qed

text \<open>
  C24: A panic anywhere below the recovery middleware never reaches the server, and its value is
  logged and not sent: the log gains the panic's line. A client to whom nothing was sent gets the
  status 500 with the generic envelope. When a status was sent before the panic, that status
  stands (so the answer is not a 500, whatever the envelope says), and the envelope is added to
  what was written, if the connection and the status allow a body.
\<close>
theorem withRecovery_recovers:
  assumes "h r w s = (Some v, w1, s1)"
  shows "case withRecovery h r w s of (p, w2, s2) \<Rightarrow>
    p = None \<and>
    (\<exists>more. rt_log s2 = rt_log s1 @ \<lparr>log_lvl = Error, log_msg = ''panic recovered'',
       log_attrs = [(''error'', v), (''path'', strip_newlines (url_path r))]\<rparr> # more) \<and>
    (case sent_status w1 of
       None \<Rightarrow> sent_status w2 = Some 500 \<and>
         rw_body w2 = rw_body w1 @ (if rw_broken w1 then [] else internal_body)
     | Some st \<Rightarrow> sent_status w2 = Some st \<and>
         rw_body w2 = rw_body w1 @ (if rw_broken w1 \<or> \<not> body_allowed st then [] else internal_body))"
proof -
  let ?s = "slog Error ''panic recovered'' [(''error'', v), (''path'', strip_newlines (url_path r))] s1"
  let ?ans = "writeError 500 ErrorErrorCodeInternalError ''internal server error'' w1 ?s"
  have run: "withRecovery h r w s = (None, fst ?ans, snd ?ans)"
    using assms by (simp add: withRecovery_def)
  have log: "rt_log (snd ?ans) = rt_log ?s \<or> (\<exists>l. rt_log (snd ?ans) = rt_log ?s @ [l])"
    by (auto simp: write_error_defs writeJSON_def slog_def split: prod.split)
  have status: "sent_status (fst ?ans) = Some (case sent_status w1 of Some st \<Rightarrow> st | None \<Rightarrow> 500)"
    by (auto simp: sent_status_def write_error_defs writeJSON_def header_Set_def WriteHeader_def
        Write_def split: option.split prod.split)
  have body: "rw_body (fst ?ans) = rw_body w1 @ (if rw_broken w1 \<or>
      \<not> body_allowed (case sent_status w1 of Some st \<Rightarrow> st | None \<Rightarrow> 500) then [] else internal_body)"
    by (auto simp: sent_status_def write_error_defs writeJSON_def header_Set_def WriteHeader_def
        Write_def internal_body_def error_body_def split: option.splits prod.splits)
  have "body_allowed 500" by (simp add: body_allowed_def)
  with log status body show ?thesis
    by (cases "sent_status w1") (auto simp: run slog_def simp del: writeError_simps)
qed

definition request_log :: "web_request \<Rightarrow> int \<Rightarrow> int \<Rightarrow> string \<Rightarrow> log_entry" where
  "request_log r st d i =
     \<lparr>log_lvl = Info, log_msg = ''http request'',
      log_attrs = [(''method'', strip_newlines (wq_method r)), (''path'', strip_newlines (url_path r)),
        (''status'', string_of_int st), (''duration'', string_of_int d), (''requestId'', i)]\<rparr>"

lemma withLogging_answers:
  assumes "\<And>s. fst (h r (push_recorder w) s) = None \<and>
      answered S (push_recorder w) (fst (snd (h r (push_recorder w) s)))"
  shows "case withLogging h r w s of (p, w1, s1) \<Rightarrow> p = None \<and> answered S w w1 \<and>
    (\<exists>st d. sent_status w1 = Some st \<and>
       last (rt_log s1) = request_log r st d (requestIDFromContext r))"
proof -
  obtain start s0 where now: "time_Now s = (start, s0)" by fastforce
  obtain p w1 s1 where h: "h r (push_recorder w) s0 = (p, w1, s1)" by (metis prod_cases3)
  with assms [of s0] have p: "p = None" and a: "answered S (push_recorder w) w1" by simp_all
  obtain t s2 where now1: "time_Now s1 = (t, s2)" by fastforce
  from a obtain st where "answered S w (pop_recorder w1)" "sent_status (pop_recorder w1) = Some st"
      "recorded_status w1 = st"
    by (auto simp: answered_def pop_recorder_def push_recorder_def recorded_status_def sent_status_def)
  then show ?thesis
    using now h p now1 by (auto simp: withLogging_def slog_def request_log_def)
qed

lemma findHandler_request_id [simp]: "findHandler routes (contextWithRequestID i r) = findHandler routes r"
  by (simp add: findHandler_def contextWithRequestID_def Let_def cong: if_cong)

lemma ServeMux_redirect_returns:
  "301 \<in> mux_statuses routes r \<Longrightarrow> fst (ServeMux routes r w s) = None"
  by (auto simp: mux_statuses_def contract_statuses_def ServeMux_def split: if_splits)

text \<open>
  C23: The contract of the API handler, whatever the request and whatever the implementations of
  the interfaces behind it answer or panic with: no panic escapes to the server; the request is
  answered exactly once, with a status of the API contract (or 301 when the mux redirects the path
  to its clean form) and the freshly drawn request id as X-Request-Id; the last log line of the
  request states this status and this id; and a 500 has the generic envelope as its whole body,
  so neither an internal error nor a panic value ever reaches the client.
\<close>
theorem NewHandler_contract:
  "case NewHandler repo credentials snapshots refresher r new_writer s of (p, w, s') \<Rightarrow>
     p = None \<and>
     (\<exists>st hs d. rw_sent w = Some (st, hs) \<and>
        (if wq_path r \<noteq> ''*'' \<and> findHandler (api_routes repo credentials snapshots refresher) r = Redirect
         then st = 301 else st \<in> {200, 204, 400, 404, 405, 409, 415, 500}) \<and>
        map_of hs ''X-Request-Id'' = Some (fst (newRequestID s)) \<and>
        last (rt_log s') = request_log r st d (fst (newRequestID s)) \<and>
        (if st = 500 then rw_body w = internal_body else True))"
proof -
  let ?routes = "api_routes repo credentials snapshots refresher"
  let ?mux = "ServeMux ?routes" and ?S = "mux_statuses ?routes r"
  obtain i s0 where i: "newRequestID s = (i, s0)" by fastforce
  let ?w = "header_Set ''X-Request-Id'' i new_writer" and ?r = "contextWithRequestID i r"
  have w: "rw_sent (push_recorder ?w) = None" by (simp add: new_writer_def push_recorder_def)
  have S: "mux_statuses ?routes ?r = ?S" unfolding mux_statuses_def by (simp add: contextWithRequestID_def [symmetric]) (simp add: contextWithRequestID_def)
  have "fst (withRecovery ?mux ?r (push_recorder ?w) u) = None \<and>
      answered ?S (push_recorder ?w) (fst (snd (withRecovery ?mux ?r (push_recorder ?w) u)))" for u
  proof (rule withRecovery_settled [OF _ w])
    show "settled ?S (push_recorder ?w) (?mux ?r (push_recorder ?w) u)"
      using ServeMux_settles [OF api_routes_settle [of repo credentials snapshots refresher] w, where r = ?r and s = u] S by simp
    have "301 \<in> ?S \<or> 500 \<in> ?S" by (simp add: mux_statuses_def contract_statuses_def)
    then show "500 \<in> ?S \<or> fst (?mux ?r (push_recorder ?w) u) = None"
      using ServeMux_redirect_returns [of ?routes ?r] by (auto simp: S)
  qed
  then have law: "case withLogging (withRecovery ?mux) ?r ?w s0 of (p, w1, s1) \<Rightarrow>
      p = None \<and> answered ?S ?w w1 \<and>
      (\<exists>st d. sent_status w1 = Some st \<and>
         last (rt_log s1) = request_log ?r st d (requestIDFromContext ?r))"
    by (rule withLogging_answers)
  obtain p w1 s1 where run: "withLogging (withRecovery ?mux) ?r ?w s0 = (p, w1, s1)"
    by (metis prod_cases3)
  with law obtain st d where p: "p = None" and ans: "answered ?S ?w w1"
    and st: "sent_status w1 = Some st"
    and line: "last (rt_log s1) = request_log ?r st d (requestIDFromContext ?r)" by auto
  from ans st obtain hs where "rw_sent w1 = Some (st, hs)" "st \<in> ?S"
      "map_of hs ''X-Request-Id'' = Some i" "st = 500 \<Longrightarrow> rw_body w1 = internal_body"
    by (auto simp: answered_def sent_status_def new_writer_def)
  moreover have "last (rt_log s1) = request_log r st d i"
    using line by (simp add: request_log_def contextWithRequestID_def requestIDFromContext_def url_path_def)
  moreover have "NewHandler repo credentials snapshots refresher r new_writer s = (p, w1, s1)"
    using run by (simp add: NewHandler_def chain_three withRequestID_def i)
  ultimately show ?thesis using p i by (auto simp: mux_statuses_def contract_statuses_def)
qed

section \<open>Routing\<close>

lemma api_routes_methods: "routes_for (Some m) (api_routes repo credentials snapshots refresher) = []"
  by (simp add: routes_for_def api_routes_def any_method_def)

lemma mux_match_any:
  "(\<And>k. routes_for (Some k) routes = []) \<Longrightarrow>
   mux_match routes m path = match_path (routes_for None routes) (segments path)"
  by (simp add: mux_match_def)

lemma ServeMux_direct:
  assumes none: "\<And>k. routes_for (Some k) routes = []"
    and segs: "list_all plain_segment segs" "segs \<noteq> []" and path: "wq_path r = rooted segs"
    and hit: "match_path (routes_for None routes) segs = Some (rt, vs)"
    and exact: "last (rt_segments rt) = Multi \<Longrightarrow>
      \<not> exactMatch (match_path (routes_for None routes) (segs @ [''/''])) (rooted segs @ ''/'')"
  shows "ServeMux routes r w s =
    rt_handler rt (r\<lparr>wq_path_values := zip (wild_names (rt_segments rt)) vs\<rparr>) w s"
proof -
  have "mux_match routes m (rooted segs) = Some (rt, vs)"
    and "mux_match routes m (rooted segs @ ''/'') = match_path (routes_for None routes) (segs @ [''/''])"
    for m
    using hit segs by (simp_all add: mux_match_any [OF none] segments_rooted segments_rooted_slash)
  then have "matchOrRedirect routes m (rooted segs) = (Some (rt, vs), False)" for m
    using exact by (auto simp: matchOrRedirect_def exactMatch_def Let_def)
  moreover have "rooted segs \<noteq> ''*''" using segs by (cases segs) (simp_all add: rooted_Cons)
  ultimately show ?thesis
    using path segs cleanPath_rooted by (simp add: ServeMux_def findHandler_def Let_def)
qed

lemma slashes_rooted:
  "list_all plain_segment segs \<Longrightarrow>
   length (filter (\<lambda>c. c = CHR ''/'') (rooted segs @ ''/'')) = length segs + 1"
  by (induction segs) (auto simp: rooted_def plain_segment_def filter_empty_conv)

definition provider_path :: "string \<Rightarrow> string list \<Rightarrow> string" where
  "provider_path i rest = rooted ([''api'', ''v1'', ''providers'', i] @ rest)"

definition at_path :: "web_request \<Rightarrow> string \<Rightarrow> string \<Rightarrow> web_request" where
  "at_path r p i = r\<lparr>wq_path := p, wq_path_values := [(''id'', i)]\<rparr>"

lemmas match_defs = routes_for_def api_routes_def any_method_def provider_route_def below_def
  below_wild_def leaf_def

lemma plain_literals [simp]:
  "plain_segment ''api''" "plain_segment ''v1''" "plain_segment ''providers''"
  "plain_segment ''enable''" "plain_segment ''disable''" "plain_segment ''credentials''"
  "plain_segment ''usage''" "plain_segment ''refresh''"
  by (simp_all add: plain_segment_def)

text \<open>
  The route table of the contract: what answers the path \<^verbatim>\<open>/api/v1/...\<close> with these
  further segments, and with which path value.
\<close>

definition api_target ::
    "('z runtime_scheme) api_provider_repository \<Rightarrow> ('z runtime_scheme) api_credential_repository
       \<Rightarrow> ('z runtime_scheme) usage_getter \<Rightarrow> ('z runtime_scheme) usage_refresher
       \<Rightarrow> string list \<Rightarrow> (string \<times> string) list \<times> ('z runtime_scheme) http_handler" where
  "api_target repo credentials snapshots refresher segs =
     (if segs = [''providers''] then ([], handleProvidersCollection repo)
      else case segs of
        [p, i] \<Rightarrow>
          if p = ''providers'' then ([(''id'', i)], handleProviderItem repo) else ([], handleNotFound)
      | [p, i, x] \<Rightarrow>
          if p \<noteq> ''providers'' then ([], handleNotFound)
          else if x = ''enable'' then ([(''id'', i)], handleProviderEnable repo)
          else if x = ''disable'' then ([(''id'', i)], handleProviderDisable repo)
          else if x = ''credentials'' then ([(''id'', i)], handleProviderCredentials credentials)
          else if x = ''usage'' then ([(''id'', i)], handleProviderUsage snapshots)
          else if x = ''refresh'' then ([(''id'', i)], handleProviderRefresh refresher)
          else ([], handleNotFound)
      | _ \<Rightarrow> ([], handleNotFound))"

definition with_values :: "(string \<times> string) list \<Rightarrow> web_request \<Rightarrow> web_request" where
  "with_values vs r = r\<lparr>wq_path_values := vs\<rparr>"

text \<open>The routes below a provider, below the collection and below the version, in turn.\<close>

lemmas below_defs = below_def below_wild_def leaf_def

lemma match_none [simp]: "match_path [] segs = None"
  by (induction segs) (simp_all add: below_defs)

lemma match_end [simp]: "match_path [([], h)] segs = (if segs = [] then Some (h, []) else None)"
  by (cases segs) (simp_all add: below_defs)

lemma match_action:
  "match_path [([], r2), ([Lit ''enable''], r3), ([Lit ''disable''], r4), ([Lit ''credentials''], r5),
       ([Lit ''usage''], r6), ([Lit ''refresh''], r7)] segs =
     (case segs of [] \<Rightarrow> Some (r2, [])
      | [x] \<Rightarrow> if x = ''enable'' then Some (r3, []) else if x = ''disable'' then Some (r4, [])
          else if x = ''credentials'' then Some (r5, []) else if x = ''usage'' then Some (r6, [])
          else if x = ''refresh'' then Some (r7, []) else None
      | _ \<Rightarrow> None)"
  by (cases segs) (auto simp: below_defs split: list.split)

lemma match_provider:
  "match_path [([], r1), ([Wild ''id''], r2), ([Wild ''id'', Lit ''enable''], r3),
       ([Wild ''id'', Lit ''disable''], r4), ([Wild ''id'', Lit ''credentials''], r5),
       ([Wild ''id'', Lit ''usage''], r6), ([Wild ''id'', Lit ''refresh''], r7)] segs =
     (case segs of [] \<Rightarrow> Some (r1, [])
      | i # rest \<Rightarrow> if i = ''/'' then None else map_option (\<lambda>(h, vs). (h, i # vs))
          (match_path [([], r2), ([Lit ''enable''], r3), ([Lit ''disable''], r4),
             ([Lit ''credentials''], r5), ([Lit ''usage''], r6), ([Lit ''refresh''], r7)] rest))"
  by (cases segs) (simp_all add: below_defs split: option.split)

lemma match_version:
  "match_path (routes_for None (api_routes repo credentials snapshots refresher)) (''api'' # ''v1'' # p # rest) =
     (case (if p \<noteq> ''providers'' then None else match_path
       [([], any_method [Lit ''api'', Lit ''v1'', Lit ''providers''] (handleProvidersCollection repo)),
        ([Wild ''id''], any_method (provider_route []) (handleProviderItem repo)),
        ([Wild ''id'', Lit ''enable''], any_method (provider_route [Lit ''enable'']) (handleProviderEnable repo)),
        ([Wild ''id'', Lit ''disable''], any_method (provider_route [Lit ''disable'']) (handleProviderDisable repo)),
        ([Wild ''id'', Lit ''credentials''],
          any_method (provider_route [Lit ''credentials'']) (handleProviderCredentials credentials)),
        ([Wild ''id'', Lit ''usage''], any_method (provider_route [Lit ''usage'']) (handleProviderUsage snapshots)),
        ([Wild ''id'', Lit ''refresh''], any_method (provider_route [Lit ''refresh'']) (handleProviderRefresh refresher))]
        rest) of
        Some m \<Rightarrow> Some m
      | None \<Rightarrow> Some (any_method [Lit ''api'', Lit ''v1'', Multi] handleNotFound, []))"
  by (simp add: match_defs split: option.split)

lemma api_match:
  assumes "list_all plain_segment segs" and "segs \<noteq> []"
  shows "\<exists>rt vs. match_path (routes_for None (api_routes repo credentials snapshots refresher))
      (''api'' # ''v1'' # segs) = Some (rt, vs) \<and>
      (zip (wild_names (rt_segments rt)) vs, rt_handler rt) = api_target repo credentials snapshots refresher segs \<and>
      (last (rt_segments rt) = Multi \<longrightarrow>
        match_path (routes_for None (api_routes repo credentials snapshots refresher))
          (''api'' # ''v1'' # segs @ [''/'']) = Some (rt, []) \<and> length (rt_segments rt) = 3)"
proof -
  have plain: "plain_segment x \<Longrightarrow> x \<noteq> ''/''" for x by (auto simp: plain_segment_def)
  note rules = match_version match_provider match_action api_target_def any_method_def provider_route_def plain
  obtain p rest where segs: "segs = p # rest" using assms(2) by (cases segs) simp_all
  show ?thesis
  proof (cases "p = ''providers''")
    case False
    then show ?thesis by (cases rest rule: remdups_adj.cases) (simp_all add: segs rules del: match_path.simps split: list.split)
  next
    case p: True
    consider "rest = []" | (item) i where "rest = [i]" | (action) i x where "rest = [i, x]"
      | (deep) i x y more where "rest = i # x # y # more" by (metis list.exhaust)
    then show ?thesis
    proof cases
      case (action i x)
      with assms(1) have "i \<noteq> ''/''" "x \<noteq> ''/''" by (simp_all add: segs plain)
      then show ?thesis by (simp add: segs p action rules del: match_path.simps)
    qed (use assms(1) in \<open>simp_all add: segs p rules del: match_path.simps\<close>)
  qed
qed

lemma ServeMux_api:
  assumes segs: "list_all plain_segment segs" "segs \<noteq> []" and path: "wq_path r = rooted ([''api'', ''v1''] @ segs)"
    and target: "api_target repo credentials snapshots refresher segs = (vs, h)"
  shows "ServeMux (api_routes repo credentials snapshots refresher) r w s = h (with_values vs r) w s"
proof -
  obtain rt us where hit: "match_path (routes_for None (api_routes repo credentials snapshots refresher))
        (''api'' # ''v1'' # segs) = Some (rt, us)"
    and rt: "zip (wild_names (rt_segments rt)) us = vs" "rt_handler rt = h"
    and slash: "last (rt_segments rt) = Multi \<Longrightarrow>
        match_path (routes_for None (api_routes repo credentials snapshots refresher))
          (''api'' # ''v1'' # segs @ [''/'']) = Some (rt, []) \<and> length (rt_segments rt) = 3"
    using api_match [OF segs, of repo credentials snapshots refresher] target by auto
  have plain: "list_all plain_segment (''api'' # ''v1'' # segs)" using segs by simp
  have "length (filter (\<lambda>c. c = CHR ''/'') (rooted (''api'' # ''v1'' # segs) @ ''/'')) > 3"
    using slashes_rooted [OF plain] segs(2) by (cases segs) simp_all
  then have "last (rt_segments rt) = Multi \<Longrightarrow>
      \<not> exactMatch (match_path (routes_for None (api_routes repo credentials snapshots refresher))
          ((''api'' # ''v1'' # segs) @ [''/''])) (rooted (''api'' # ''v1'' # segs) @ ''/'')"
    using slash by (auto simp: exactMatch_def)
  then show ?thesis
    using ServeMux_direct [OF api_routes_methods plain _ _ hit, of r] path rt
    by (simp add: with_values_def)
qed

lemma chain_inner:
  assumes "\<And>i w s. h (contextWithRequestID i r) w s = k (contextWithRequestID i r) w s"
  shows "chain [withRequestID, withLogging, withRecovery] h r w s =
    chain [withRequestID, withLogging, withRecovery] k r w s"
  by (auto simp: chain_three withRequestID_def withLogging_def withRecovery_def assms
      split: prod.split)

text \<open>
  C35: The route table of the API handler: a request for any path below \<^verbatim>\<open>/api/v1/\<close> whose
  further segments are plain reaches, behind the request id, the log and the recovery, the handler
  that the contract names: \<^verbatim>\<open>providers\<close> the collection, \<^verbatim>\<open>providers/{id}\<close> the item,
  \<^verbatim>\<open>providers/{id}/\<close> with \<^verbatim>\<open>enable\<close>, \<^verbatim>\<open>disable\<close>, \<^verbatim>\<open>credentials\<close>, \<^verbatim>\<open>usage\<close> or
  \<^verbatim>\<open>refresh\<close> that action, with exactly this id as the path value, and every other path the
  structured 404. The method plays no part: the handlers check it.
\<close>
theorem api_routing:
  assumes "list_all plain_segment segs" and "segs \<noteq> []"
    and "wq_path r = rooted ([''api'', ''v1''] @ segs)"
  shows "case api_target repo credentials snapshots refresher segs of (vs, h) \<Rightarrow>
    NewHandler repo credentials snapshots refresher r w s =
    chain [withRequestID, withLogging, withRecovery] (\<lambda>r. h (with_values vs r)) r w s"
proof -
  obtain vs h where target: "api_target repo credentials snapshots refresher segs = (vs, h)" by fastforce
  have "ServeMux (api_routes repo credentials snapshots refresher) (contextWithRequestID i r) w s =
      h (with_values vs (contextWithRequestID i r)) w s" for i w s
    using assms target by (intro ServeMux_api) (auto simp: contextWithRequestID_def)
  then show ?thesis unfolding target NewHandler_def prod.case by (rule chain_inner)
qed

text \<open>The collection, the usage of a provider, and a path of no route.\<close>

theorem api_routing_witness:
  "\<forall>(repo :: runtime api_provider_repository) credentials snapshots refresher (r :: web_request) w s.
    (let behind = chain [withRequestID, withLogging, withRecovery];
         handler = NewHandler repo credentials snapshots refresher;
         r1 = r\<lparr>wq_path := ''/api/v1/providers''\<rparr>;
         r2 = r\<lparr>wq_path := ''/api/v1/providers/openai/usage''\<rparr>;
         r3 = r\<lparr>wq_path := ''/api/v1/health''\<rparr>
     in handler r1 w s = behind (\<lambda>r. handleProvidersCollection repo (with_values [] r)) r1 w s \<and>
        handler r2 w s = behind (\<lambda>r. handleProviderUsage snapshots (with_values [(''id'', ''openai'')] r)) r2 w s \<and>
        handler r3 w s = behind (\<lambda>r. handleNotFound (with_values [] r)) r3 w s)"
proof -
  have plain: "plain_segment ''openai''" "plain_segment ''health''" by (simp_all add: plain_segment_def)
  show ?thesis
    apply (intro allI)
    subgoal for repo credentials snapshots refresher r w s
    using plain
      api_routing [of "[''providers'']" "r\<lparr>wq_path := ''/api/v1/providers''\<rparr>" repo credentials snapshots refresher w s]
      api_routing [of "[''providers'', ''openai'', ''usage'']" "r\<lparr>wq_path := ''/api/v1/providers/openai/usage''\<rparr>"
        repo credentials snapshots refresher w s]
      api_routing [of "[''health'']" "r\<lparr>wq_path := ''/api/v1/health''\<rparr>" repo credentials snapshots refresher w s]
    by (simp add: api_target_def rooted_def Let_def)
    done
qed

text \<open>A handler that panics when it has sent a status, and one that has sent nothing.\<close>

theorem withRecovery_recovers_witness:
  "sent_status (fst (snd (withRecovery (\<lambda>r w s. (Some ''boom'', WriteHeader 204 w, s))
      \<lparr>wq_method = ''GET'', wq_path = ''/'', wq_content_type = [], wq_body = [],
       wq_path_values = [], wq_request_id = None\<rparr> new_writer calm_runtime))) = Some 204 \<and>
   sent_status (fst (snd (withRecovery (\<lambda>r w s. (Some ''boom'', w, s))
      \<lparr>wq_method = ''GET'', wq_path = ''/'', wq_content_type = [], wq_body = [],
       wq_path_values = [], wq_request_id = None\<rparr> new_writer calm_runtime))) = Some 500"
proof -
  let ?r = "\<lparr>wq_method = ''GET'', wq_path = ''/'', wq_content_type = [], wq_body = [],
    wq_path_values = [], wq_request_id = None\<rparr>"
  note recovers = withRecovery_recovers [where r = ?r and v = "''boom''" and w = new_writer and s = calm_runtime]
  show ?thesis
    using recovers [where h = "\<lambda>r w s. (Some ''boom'', WriteHeader 204 w, s)"]
      recovers [where h = "\<lambda>r w s. (Some ''boom'', w, s)"]
    by (auto simp: sent_status_def new_writer_def split: prod.splits)
qed

end
