(* ===== verification/Server.thy ===== *)
theory Server
  imports Handler_Laws
begin

text \<open>
  \<^verbatim>\<open>internal/server/server.go\<close> and \<^verbatim>\<open>internal/docs/docs.go\<close>: the
  top-level routes. The two embedded files (the Swagger page and the OpenAPI document) are data
  of the build, so their contents are arguments.
\<close>

section \<open>Handlers\<close>

definition handleHealthz :: "('z runtime_scheme) http_handler" where
  "handleHealthz r w s =
     (let w1 = WriteHeader 200 (header_Set ''Content-Type'' ''application/json'' w)
      in case Write (json_text (JObj (member ''status'' (json_of_string ''ok''))) @ newline) w1 of
           (ok, w2) \<Rightarrow>
             finish (w2, if ok then s else slog Error ''encode healthz response'' [(''error'', ''write'')] s))"

definition HandleUI :: "string \<Rightarrow> 's http_handler" where
  "HandleUI uiHTML r w s =
     finish (snd (Write uiHTML (header_Set ''Content-Type'' ''text/html; charset=utf-8'' w)), s)"

definition HandleSpec :: "string \<Rightarrow> 's http_handler" where
  "HandleSpec spec r w s =
     finish (snd (Write spec (header_Set ''Content-Type'' ''application/yaml'' w)), s)"

definition server_routes ::
    "string \<Rightarrow> string \<Rightarrow> ('z runtime_scheme) http_handler \<Rightarrow> ('z runtime_scheme) route list" where
  "server_routes uiHTML spec api =
     [\<lparr>rt_method = Some ''GET'', rt_segments = [Lit ''healthz''], rt_handler = handleHealthz\<rparr>,
      \<lparr>rt_method = Some ''GET'', rt_segments = [Lit ''swaggerui''], rt_handler = HandleUI uiHTML\<rparr>,
      \<lparr>rt_method = Some ''GET'', rt_segments = [Lit ''swaggerui'', Lit ''openapi.yaml''],
       rt_handler = HandleSpec spec\<rparr>,
      any_method [Lit ''api'', Lit ''v1'', Multi] api]"

definition server_New ::
    "string \<Rightarrow> string \<Rightarrow> ('z runtime_scheme) api_provider_repository
       \<Rightarrow> ('z runtime_scheme) api_credential_repository \<Rightarrow> ('z runtime_scheme) usage_getter
       \<Rightarrow> ('z runtime_scheme) usage_refresher \<Rightarrow> ('z runtime_scheme) http_handler" where
  "server_New uiHTML spec providers credentials snapshots refresher =
     ServeMux (server_routes uiHTML spec (NewHandler providers credentials snapshots refresher))"

section \<open>Routes\<close>

lemma server_routes_simps:
  "routes_for (Some m) (server_routes ui spec api) =
     (if m = ''GET'' then
        [([Lit ''healthz''],
          \<lparr>rt_method = Some ''GET'', rt_segments = [Lit ''healthz''], rt_handler = handleHealthz\<rparr>),
         ([Lit ''swaggerui''],
          \<lparr>rt_method = Some ''GET'', rt_segments = [Lit ''swaggerui''], rt_handler = HandleUI ui\<rparr>),
         ([Lit ''swaggerui'', Lit ''openapi.yaml''],
          \<lparr>rt_method = Some ''GET'', rt_segments = [Lit ''swaggerui'', Lit ''openapi.yaml''],
           rt_handler = HandleSpec spec\<rparr>)]
      else [])"
  "routes_for None (server_routes ui spec api) =
     [([Lit ''api'', Lit ''v1'', Multi], any_method [Lit ''api'', Lit ''v1'', Multi] api)]"
  by (simp_all add: routes_for_def server_routes_def any_method_def)

lemma match_api_method:
  "match_path (routes_for (Some ''GET'') (server_routes ui spec api)) (''api'' # segs) = None"
  by (simp add: server_routes_simps below_def below_wild_def leaf_def)

lemma match_api_any:
  "match_path (routes_for None (server_routes ui spec api)) (''api'' # ''v1'' # seg # rest) =
     Some (any_method [Lit ''api'', Lit ''v1'', Multi] api, [])"
  by (simp add: server_routes_simps below_def below_wild_def leaf_def)

lemma only_GET_routes:
  "m \<noteq> ''GET'' \<Longrightarrow> routes_for (Some m) (server_routes ui spec api) = []"
  by (simp add: server_routes_simps)

lemma mux_match_api:
  assumes "segments p = ''api'' # ''v1'' # seg # rest"
  shows "mux_match (server_routes ui spec api) m p = Some (any_method [Lit ''api'', Lit ''v1'', Multi] api, [])"
  by (cases "m = ''GET''")
    (simp_all add: mux_match_def assms match_api_method match_api_any only_GET_routes del: match_path.simps)

definition health_route :: "('z runtime_scheme) route" where
  "health_route = \<lparr>rt_method = Some ''GET'', rt_segments = [Lit ''healthz''], rt_handler = handleHealthz\<rparr>"

lemma match_health:
  "match_path (routes_for (Some ''GET'') (server_routes ui spec api)) [''healthz''] = Some (health_route, [])"
  by (simp add: server_routes_simps below_def leaf_def health_route_def)

lemma match_health_any:
  "match_path (routes_for None (server_routes ui spec api)) [''healthz''] = None"
  by (simp add: server_routes_simps below_def below_wild_def leaf_def)

lemma match_health_slash:
  "match_path (routes_for (Some ''GET'') (server_routes ui spec api)) [''healthz'', ''/''] = None"
  by (simp add: server_routes_simps below_def below_wild_def leaf_def)

lemma match_health_any_slash:
  "match_path (routes_for None (server_routes ui spec api)) [''healthz'', ''/''] = None"
  by (simp add: server_routes_simps below_def below_wild_def leaf_def)

lemmas match_health_simps =
  match_health match_health_any match_health_slash match_health_any_slash only_GET_routes

lemma mux_match_health:
  assumes "segments p = [''healthz'']"
  shows "mux_match (server_routes ui spec api) m p =
     (if m = ''GET'' \<or> m = ''HEAD'' then Some (health_route, []) else None)"
proof -
  consider (get) "m = ''GET''" | (head) "m = ''HEAD''" | (other) "m \<noteq> ''GET''" "m \<noteq> ''HEAD''" by blast
  then show ?thesis
    by cases (simp_all add: mux_match_def assms match_health_simps del: match_path.simps)
qed

lemma mux_match_health_slash:
  assumes "segments p = [''healthz'', ''/'']"
  shows "mux_match (server_routes ui spec api) m p = None"
  by (cases "m = ''GET''") (simp_all add: mux_match_def assms match_health_simps del: match_path.simps)

definition health_body :: string where
  "health_body = json_text (JObj (member ''status'' (json_of_string ''ok''))) @ newline"

lemma server_api:
  assumes "list_all plain_segment segs" and "segs \<noteq> []"
  shows "server_New ui spec providers credentials snapshots refresher
      (r\<lparr>wq_path := rooted ([''api'', ''v1''] @ segs)\<rparr>) w s =
    NewHandler providers credentials snapshots refresher
      (r\<lparr>wq_path := rooted ([''api'', ''v1''] @ segs), wq_path_values := []\<rparr>) w s"
proof -
  let ?api = "NewHandler providers credentials snapshots refresher"
  let ?routes = "server_routes ui spec ?api"
  let ?segs = "[''api'', ''v1''] @ segs"
  have plain: "list_all plain_segment ?segs" "?segs \<noteq> []" using assms(1) by simp_all
  obtain seg rest where segs: "segs = seg # rest" using assms(2) by (cases segs) auto
  have "segments (rooted ?segs) = ''api'' # ''v1'' # seg # rest"
    and "segments (rooted ?segs @ ''/'') = ''api'' # ''v1'' # seg # rest @ [''/'']"
    using segments_rooted [OF plain] segments_rooted_slash [OF plain] segs by simp_all
  note hits = mux_match_api [OF this(1)] mux_match_api [OF this(2)]
  have "length (filter (\<lambda>c. c = CHR ''/'') (rooted ?segs @ ''/'')) \<noteq> 3"
    using slashes_rooted [OF plain(1)] segs by simp
  then have "\<not> exactMatch (mux_match ?routes m (rooted ?segs @ ''/'')) (rooted ?segs @ ''/'')" for m
    unfolding hits(2) by (simp add: exactMatch_def any_method_def)
  then have "matchOrRedirect ?routes m (rooted ?segs) =
      (Some (any_method [Lit ''api'', Lit ''v1'', Multi] ?api, []), False)" for m
    unfolding matchOrRedirect_def hits(1) Let_def by simp
  moreover have "rooted ?segs \<noteq> ''*''" by (simp add: rooted_Cons)
  ultimately show ?thesis
    using cleanPath_rooted [OF plain]
    by (simp add: server_New_def ServeMux_def findHandler_def Let_def any_method_def)
qed

lemma findHandler_health:
  "findHandler (server_routes ui spec api) (r\<lparr>wq_path := ''/healthz''\<rparr>) =
     (if wq_method r = ''GET'' \<or> wq_method r = ''HEAD'' then Handle health_route []
      else MethodNotAllowed [''GET'', ''HEAD''])"
proof -
  let ?routes = "server_routes ui spec api"
  have h: "list_all plain_segment [''healthz'']" "rooted [''healthz''] = ''/healthz''"
    by (simp_all add: plain_segment_def rooted_def)
  have clean: "cleanPath ''/healthz'' = ''/healthz''" using cleanPath_rooted [OF h(1)] h(2) by simp
  have segs: "segments ''/healthz'' = [''healthz'']" "segments ''/healthz/'' = [''healthz'', ''/'']"
    using segments_rooted [OF h(1)] segments_rooted_slash [OF h(1)] h(2) by simp_all
  note hits = mux_match_health [OF segs(1)] mux_match_health_slash [OF segs(2)]
  have listed: "map rt_method ?routes = [Some ''GET'', Some ''GET'', Some ''GET'', None]"
    by (simp add: server_routes_def any_method_def)
  have hit: "match_path (routes_for (Some ''GET'') ?routes) (segments ''/healthz'') \<noteq> None"
    unfolding segs match_health by simp
  have methods: "matchingMethods ?routes ''/healthz'' = [''GET'', ''HEAD'']"
    unfolding matchingMethods_def ends_in_slash_def listed Let_def using hit by simp
  show ?thesis
    by (auto simp: findHandler_def matchOrRedirect_def hits clean Let_def exactMatch_def health_route_def methods)
qed

text \<open>
  The top-level routes: every clean path below /api/v1 reaches the API handler, whatever the
  method; the health check answers 200 to GET and HEAD with a fixed body and without touching the
  program's state, so it is up whenever the server is; and another method on it is refused with
  405 and the allowed methods.
\<close>
theorem server_dispatch:
  assumes "list_all plain_segment segs" and "segs \<noteq> []"
  shows "server_New ui spec providers credentials snapshots refresher
      (r\<lparr>wq_path := rooted ([''api'', ''v1''] @ segs)\<rparr>) w s =
    NewHandler providers credentials snapshots refresher
      (r\<lparr>wq_path := rooted ([''api'', ''v1''] @ segs), wq_path_values := []\<rparr>) w s \<and>
    (case server_New ui spec providers credentials snapshots refresher
        (r\<lparr>wq_path := ''/healthz''\<rparr>) new_writer s of (p, w', s') \<Rightarrow>
       p = None \<and> s' = s \<and>
       (if wq_method r = ''GET'' \<or> wq_method r = ''HEAD'' then responds w' 200 health_body
        else sent_status w' = Some 405 \<and> map_of (rw_header w') ''Allow'' = Some ''GET, HEAD''))"
  unfolding server_api [OF assms]
  by (auto simp: server_New_def ServeMux_def findHandler_health health_route_def handleHealthz_def
      health_body_def responds_def sent_status_def Write_def body_allowed_def http_Error_def new_writer_def)

definition health_request :: web_request where
  "health_request =
     \<lparr>wq_method = ''GET'', wq_path = ''/healthz'', wq_content_type = [], wq_body = [],
      wq_path_values = [], wq_request_id = None\<rparr>"

theorem server_dispatch_witness:
  "\<forall>(providers :: runtime api_provider_repository) credentials snapshots refresher.
     case server_New [] [] providers credentials snapshots refresher health_request new_writer
       calm_runtime of (p, w, s) \<Rightarrow> responds w 200 health_body"
proof (intro allI)
  fix providers :: "runtime api_provider_repository" and credentials snapshots refresher
  have "list_all plain_segment [''providers'']" by simp
  from server_dispatch [OF this, of "[]" "[]" providers credentials snapshots refresher health_request
      new_writer calm_runtime]
  show "case server_New [] [] providers credentials snapshots refresher health_request new_writer
      calm_runtime of (p, w, s) \<Rightarrow> responds w 200 health_body"
    by (auto simp: health_request_def split: prod.splits)
qed

end
