(* ===== verification/Working.thy ===== *)
theory Working
  imports Collector
begin

text \<open>
  The services over a database that answers every call: a read leaves the program state exactly as
  it was, so what each operation answers is a function of the tables, and so is every refusal of a
  collection up to its fetch.
\<close>

section \<open>Reads\<close>

lemma db_call_reliable:
  assumes "reliable_db s"
  shows "db_call s = (None, s)"
proof -
  have "advance (db_faults s) = db_faults s" using assms by (auto simp: reliable_db_def advance_def fun_eq_iff)
  then show ?thesis using assms by (simp add: db_call_def reliable_db_def)
qed

lemma Get_reliable:
  assumes "reliable_db s" and "svc_repo svc = sqlite_providers"
  shows "service_Get svc p s =
    (case service_metadata svc p of
       None \<Rightarrow> Inl (Sentinel ErrNotFound)
     | Some m \<Rightarrow> (case enabled_in s p of
           None \<Rightarrow> Inl (Sentinel ErrNotFound)
         | Some b \<Rightarrow> Inr (with_state m b (HasFetcher svc p))), s)"
  using assms by (simp add: service_Get_def sqlite_providers_def sqlite_Get_def db_call_reliable
      enabled_in_def Let_def split: option.split)

lemma Reveal_reliable:
  assumes "reliable_db s" and "cs_repo svc = sqlite_credentials"
  shows "Reveal svc p f s =
    (case secret_in s p f of
       None \<Rightarrow> Inl (Wrap (''credential: get secret '' @ p @ ''/'' @ f) (Sentinel ErrNotFound))
     | Some blob \<Rightarrow> (case Open (cs_masterKey svc) blob (AAD p f) of
           Inl e \<Rightarrow> Inl (Wrap (''credential: open '' @ p @ ''/'' @ f) e)
         | Inr pt \<Rightarrow> Inr (string_of_bytes pt)), s)"
  using assms by (simp add: Reveal_def sqlite_credentials_def sqlite_GetSecret_def db_call_reliable
      secret_in_def Let_def split: option.split sum.split)

section \<open>What a collection finds\<close>

text \<open>The first declared field whose stored value does not open under the master key.\<close>

definition unreadable :: "'s credential_service \<Rightarrow> (string \<Rightarrow> string \<Rightarrow> bytes option) \<Rightarrow> string
    \<Rightarrow> credential_field list \<Rightarrow> string option" where
  "unreadable svc secrets p fs =
     find (\<lambda>f. opens_to (cs_masterKey svc) p f (secrets p f) = None) (map cf_name fs)"

lemma unreadable_Cons:
  "unreadable svc secrets p (f # fs) =
     (if opens_to (cs_masterKey svc) p (cf_name f) (secrets p (cf_name f)) = None then Some (cf_name f)
      else unreadable svc secrets p fs)"
  by (simp add: unreadable_def)

lemma unreadable_None_iff: "unreadable svc secrets p fs = None \<longleftrightarrow> credentialed svc secrets p fs"
  by (auto simp: unreadable_def find_None_iff credentialed_def)

definition load_refusal :: "bytes option \<Rightarrow> goerr \<Rightarrow> bool" where
  "load_refusal stored e \<longleftrightarrow>
     (if stored = None then e = Sentinel ErrProviderUncredentialed else crypto_error e)"

lemma Reveal_unreadable:
  assumes "reliable_db s" and "cs_repo svc = sqlite_credentials"
    and "opens_to (cs_masterKey svc) p f (secret_in s p f) = None"
  shows "\<exists>e. Reveal svc p f s = (Inl e, s) \<and>
    (if secret_in s p f = None then errors_is e ErrNotFound
     else crypto_error e \<and> \<not> errors_is e ErrNotFound)"
  using assms(3) Reveal_reliable [OF assms(1,2)]
  by (auto simp: opens_to_def crypto_error_def errors_is_unique [of _ ErrNotFound]
      dest: Open_error_kinds split: option.splits sum.splits)

lemma Reveal_readable:
  assumes "reliable_db s" and "cs_repo svc = sqlite_credentials"
    and "opens_to (cs_masterKey svc) p f (secret_in s p f) = Some v"
  shows "Reveal svc p f s = (Inr v, s)"
  using assms(3) Reveal_reliable [OF assms(1,2)]
  by (auto simp: opens_to_def split: option.splits sum.splits)

lemma load_fields_reliable:
  assumes "reliable_db s" and "cs_repo svc = sqlite_credentials"
  shows "case unreadable svc (secret_in s) p fs of
      Some f \<Rightarrow> \<exists>e. load_fields svc p fs cr s = (Inl e, s) \<and> load_refusal (secret_in s p f) e
    | None \<Rightarrow> load_fields svc p fs cr s =
        (Inr (\<lambda>n. if n \<in> cf_name ` set fs then opens_to (cs_masterKey svc) p n (secret_in s p n) else cr n), s)"
proof (induction fs arbitrary: cr)
  case Nil
  then show ?case by (simp add: unreadable_def)
next
  case (Cons f fs)
  show ?case
  proof (cases "opens_to (cs_masterKey svc) p (cf_name f) (secret_in s p (cf_name f))")
    case None
    from Reveal_unreadable [OF assms None] None show ?thesis
      by (auto simp: unreadable_Cons load_refusal_def crypto_error_def split: if_splits)
  next
    case (Some v)
    note reveal = Reveal_readable [OF assms Some]
    have "(\<lambda>n. if n \<in> cf_name ` set fs then opens_to (cs_masterKey svc) p n (secret_in s p n)
          else (cr(cf_name f \<mapsto> v)) n) =
        (\<lambda>n. if n \<in> cf_name ` set (f # fs) then opens_to (cs_masterKey svc) p n (secret_in s p n) else cr n)"
      using Some by (auto simp: fun_eq_iff)
    with Cons.IH [of "cr(cf_name f \<mapsto> v)"] reveal Some show ?thesis
      by (cases "unreadable svc (secret_in s) p fs") (simp_all add: unreadable_Cons fun_upd_def)
  qed
qed

text \<open>
  Why a collection is refused before its fetch, as a function of the catalog and the tables, or
  the credentials it goes to the fetcher with.
\<close>

datatype refusal = Unknown_Provider | Provider_Off | Field_Missing | Field_Unreadable

definition readiness :: "('z host_scheme) collector \<Rightarrow> string \<Rightarrow> 'z host_scheme \<Rightarrow> refusal + creds" where
  "readiness c p s =
     (case service_metadata (col_providers c) p of
        None \<Rightarrow> Inl Unknown_Provider
      | Some m \<Rightarrow>
          (case enabled_in s p of
             None \<Rightarrow> Inl Unknown_Provider
           | Some b \<Rightarrow>
               if \<not> b then Inl Provider_Off
               else (case unreadable (col_credentials c) (secret_in s) p (md_fields m) of
                   Some f \<Rightarrow> Inl (if secret_in s p f = None then Field_Missing else Field_Unreadable)
                 | None \<Rightarrow> Inr (revealed (col_credentials c) (secret_in s) p (md_fields m)))))"

fun refuses :: "refusal \<Rightarrow> goerr \<Rightarrow> bool" where
  "refuses Unknown_Provider e = (e = Sentinel ErrNotFound)"
| "refuses Provider_Off e = (e = Sentinel ErrProviderDisabled)"
| "refuses Field_Missing e = (e = Sentinel ErrProviderUncredentialed)"
| "refuses Field_Unreadable e = crypto_error e"

lemma gather_reliable:
  assumes "reliable_db s" and "svc_repo (col_providers c) = sqlite_providers"
    and "cs_repo (col_credentials c) = sqlite_credentials"
  shows "case readiness c p s of
      Inl why \<Rightarrow> \<exists>e. gather c p s = (Inl e, s) \<and> refuses why e
    | Inr cr \<Rightarrow> gather c p s = (Inr cr, s)"
proof (cases "service_metadata (col_providers c) p")
  case None
  then show ?thesis by (simp add: readiness_def gather_def Get_reliable [OF assms(1,2)])
next
  case (Some m)
  have id: "md_id m = p" using Some by (auto dest: service_metadata_SomeD)
  note load = load_fields_reliable [OF assms(1,3), of p "md_fields m" "\<lambda>_. None"]
  show ?thesis
  proof (cases "enabled_in s p = Some True")
    case True
    then have "gather c p s = load_fields (col_credentials c) p (md_fields m) (\<lambda>_. None) s"
      using Some id by (simp add: gather_def Get_reliable [OF assms(1,2)] loadCredentials_def)
    with True Some load show ?thesis
      by (auto simp: readiness_def load_refusal_def revealed_def split: option.splits if_splits)
  next
    case False
    then show ?thesis
      using Some by (auto simp: readiness_def gather_def Get_reliable [OF assms(1,2)] split: option.split)
  qed
qed

text \<open>After the fetch, a working database keeps what can be encoded.\<close>

lemma within_runtime_reliable:
  "reliable_db s \<Longrightarrow> reliable_db (snd (within_runtime f s))"
  by (simp add: within_runtime_def reliable_db_def split: prod.split)

lemma keep_usage_reliable:
  assumes "reliable_db s" and "col_snapshots c = sqlite_snapshots"
  shows "case marshal_metrics (toStoreMetrics ms) of
      Inl _ \<Rightarrow> \<exists>e t. keep_usage c p ms s = (Inl e, t) \<and> opaque e \<and> rt_net t = rt_net s
    | Inr _ \<Rightarrow> \<exists>t. keep_usage c p ms s =
        (Inr \<lparr>snap_provider_id = p, snap_metrics = toStoreMetrics ms,
              snap_collected_at = time_UTC (rt_clock s 0), snap_last_error = None\<rparr>, t) \<and> rt_net t = rt_net s"
proof -
  have "reliable_db (snd (time_Now s))" using assms(1) by (simp add: time_Now_def reliable_db_def)
  note call = db_call_reliable [OF this, unfolded time_Now_def snd_conv]
  show ?thesis
    using assms(2) marshal_metrics_opaque
    by (auto simp: keep_usage_def sqlite_snapshots_def sqlite_Replace_def call time_Now_def Let_def
        split: sum.split)
qed

end
