(* ===== verification/Endpoints.thy ===== *)
theory Endpoints
  imports Handler_Laws Working "HOL-Library.Multiset"
begin

text \<open>
  What the endpoints of the API do over the database: the exact field set that a credential
  update must have, the statuses and effects of each route, and how the routes fit together.
\<close>

section \<open>The submitted credential fields\<close>

text \<open>
  C26: A credential update is accepted exactly when it names the declared fields, no more and no
  fewer. Otherwise the error lists what is missing and what is unknown, each sorted and complete,
  and at least one of them is not empty.
\<close>
theorem validateCredentialFields_correct:
  "case validateCredentialFields declared values of
     None \<Rightarrow> cf_name ` set declared = fst ` set values
   | Some e \<Rightarrow> \<exists>missing unknown. e = InvalidCredentialFields missing unknown \<and>
       sorted missing \<and> distinct missing \<and>
       set missing = cf_name ` set declared - fst ` set values \<and>
       sorted unknown \<and> set unknown = fst ` set values - cf_name ` set declared \<and>
       0 < length missing + length unknown"
  by (auto simp: validateCredentialFields_def Let_def map_of_eq_None_iff filter_empty_conv image_iff
      length_0_conv)

lemma validateCredentialFields_None_iff:
  "validateCredentialFields declared values = None \<longleftrightarrow> cf_name ` set declared = fst ` set values"
  by (auto simp: validateCredentialFields_def Let_def map_of_eq_None_iff filter_empty_conv image_iff
      length_0_conv)

lemma validateCredentialFields_SomeD:
  "validateCredentialFields declared values = Some e \<Longrightarrow> \<exists>ms us. e = InvalidCredentialFields ms us"
  by (auto simp: validateCredentialFields_def Let_def split: if_splits)

text \<open>A decoded body names each field once.\<close>

lemma put_entry_distinct:
  assumes "distinct (map fst es)"
  shows "distinct (map fst (put_entry k v es))"
proof (cases "k \<in> fst ` set es")
  case True
  have "map fst (map (\<lambda>(j, w). if j = k then (j, v) else (j, w)) es) = map fst es"
    by (simp add: case_prod_beta)
  with True assms show ?thesis by (simp only: put_entry_def if_True)
next
  case False
  with assms show ?thesis by (simp add: put_entry_def)
qed

lemma dec_entries_distinct:
  "dec_entries ms es = Some es' \<Longrightarrow> distinct (map fst es) \<Longrightarrow> distinct (map fst es')"
proof (induction ms arbitrary: es)
  case (Cons kv ms)
  then show ?case by (cases kv) (auto split: option.splits intro: put_entry_distinct)
qed simp

lemma dec_fields_invariant:
  assumes "\<And>n v r r'. P r \<Longrightarrow> dec n v r = Some r' \<Longrightarrow> P r'"
  shows "dec_fields names dec ms r = Some r' \<Longrightarrow> P r \<Longrightarrow> P r'"
proof (induction ms arbitrary: r)
  case (Cons kv ms)
  then show ?case by (cases kv) (auto split: option.splits intro: assms)
qed simp

lemma decoded_values_distinct:
  assumes "decode_first dec_CredentialValues \<lparr>cv_Values = []\<rparr> b = Inr body"
  shows "distinct (map fst (cv_Values body))"
proof -
  let ?P = "\<lambda>c. distinct (map fst (cv_Values c))"
  let ?dec = "\<lambda>n v c. map_option (\<lambda>x. c\<lparr>cv_Values := x\<rparr>) (dec_string_map v (cv_Values c))"
  have step: "?P c'" if "?P c" and "?dec n v c = Some c'" for n v c c'
    using that by (cases v) (auto dest: dec_entries_distinct)
  have "?P c'" if "dec_CredentialValues v \<lparr>cv_Values = []\<rparr> = Some c'" for v c'
  proof (cases v)
    case (JObj ms)
    with that have "dec_fields [''values''] ?dec ms \<lparr>cv_Values = []\<rparr> = Some c'"
      by (simp add: dec_CredentialValues_def)
    then show ?thesis
    proof (rule dec_fields_invariant [where P = ?P, rotated])
      show "?P r'" if "?P r" and "?dec n v r = Some r'" for n v r r' using step that by blast
    qed simp
  qed (use that in \<open>auto simp: dec_CredentialValues_def\<close>)
  then show ?thesis
    using assms by (auto simp: decode_first_def split: option.splits)
qed

section \<open>PUT credentials\<close>

text \<open>The services behind the API, all over the one database.\<close>

definition sqlite_services :: "('z host_scheme) provider_service \<Rightarrow> ('z host_scheme) credential_service \<Rightarrow> bool"
where
  "sqlite_services psvc csvc \<longleftrightarrow> svc_repo psvc = sqlite_providers \<and>
     cs_repo csvc = sqlite_credentials \<and> cs_cooldown csvc = Some Clear"

lemma providers_rest_tables:
  "providers_rest s' = providers_rest s \<Longrightarrow>
     secret_in s' = secret_in s \<and> latest_in s' = latest_in s \<and> entries s' = entries s"
  by (simp add: providers_rest_def outside_tables_def secret_in_def latest_in_def fun_eq_iff)

lemma credentials_rest_tables:
  "credentials_rest s' = credentials_rest s \<Longrightarrow>
     enabled_in s' = enabled_in s \<and> latest_in s' = latest_in s \<and> entries s' = entries s"
  by (simp add: credentials_rest_def outside_tables_def enabled_in_def latest_in_def fun_eq_iff)

lemma snapshots_rest_tables:
  "snapshots_rest s' = snapshots_rest s \<Longrightarrow>
     enabled_in s' = enabled_in s \<and> secret_in s' = secret_in s \<and> entries s' = entries s"
  by (simp add: snapshots_rest_def outside_tables_def enabled_in_def secret_in_def fun_eq_iff)

lemma same_more_tables:
  fixes s s' :: "'z host_scheme"
  assumes "runtime.more s' = runtime.more s"
  shows "wf_db s' = wf_db s" "enabled_in s' = enabled_in s" "secret_in s' = secret_in s"
    "latest_in s' = latest_in s" "entries s' = entries s" "reliable_db s' = reliable_db s"
  using sqlite_store.runtime_law [OF assms] sqlite_store.runtime_healthy [OF assms]
    host_more_cong [OF assms] by auto

lemmas tables_after_writeJSON = same_more_tables [OF writeJSON_more]

lemma Get_sqlite:
  assumes "wf_db s" and "svc_repo psvc = sqlite_providers" and "service_Get psvc p s = (r, s')"
  shows "wf_db s' \<and> enabled_in s' = enabled_in s \<and> secret_in s' = secret_in s \<and>
    latest_in s' = latest_in s \<and> entries s' = entries s \<and>
    (case r of
       Inl e \<Rightarrow> e = Sentinel ErrNotFound \<and> (service_metadata psvc p = None \<or> enabled_in s p = None)
          \<or> service_metadata psvc p \<noteq> None \<and> opaque e
     | Inr q \<Rightarrow> (\<exists>m b. service_metadata psvc p = Some m \<and> enabled_in s p = Some b \<and>
                    q = with_state m b (HasFetcher psvc p)))"
  using sqlite_prov.service_Get_client [OF assms] providers_rest_tables [of s' s] by simp

lemma set_values_sqlite:
  assumes "wf_db s" and "sqlite_services psvc csvc" and "distinct (map fst vs)"
    and "SetValues csvc p vs s = (r, s')"
  shows "wf_db s' \<and> enabled_in s' = enabled_in s \<and> latest_in s' = latest_in s \<and>
    (\<forall>q f. q \<noteq> p \<longrightarrow> secret_in s' q f = secret_in s q f) \<and>
    (\<forall>q. q \<noteq> p \<longrightarrow> entries s' q = entries s q) \<and>
    (case r of Inl e \<Rightarrow> opaque e \<or> errors_is e ErrInvalidKeyLength \<and> length (cs_masterKey csvc) \<noteq> KeySize
     | Inr _ \<Rightarrow> entries s' p = None \<and>
         (\<forall>(f, v) \<in> set vs. opens_to (cs_masterKey csvc) p f (secret_in s' p f) = Some v))"
proof -
  have repo: "cs_repo csvc = sqlite_credentials" "cs_cooldown csvc = Some Clear"
    using assms(2) by (auto simp: sqlite_services_def)
  obtain u s1 where set: "set_values csvc p vs s = (u, s1)" by fastforce
  note law = sqlite_gated.set_values_client [OF assms(1) repo(1) assms(3) set]
  have tables: "enabled_in (Clear p s1) = enabled_in s1" "latest_in (Clear p s1) = latest_in s1"
    "entries (Clear p s1) = (entries s1)(p := None)"
    by (simp_all add: Clear_def enabled_in_def latest_in_def fun_eq_iff)
  from law set assms(4) repo(2) credentials_rest_tables [of s1 s] tables show ?thesis
    by (cases u) (auto simp: SetValues_def)
qed

lemma permuted_entries:
  assumes "mset vs' = mset vs"
  shows "set vs' = set vs" and "distinct (map fst vs') = distinct (map fst vs)"
proof -
  show "set vs' = set vs" using assms by (rule mset_eq_setD)
  have "mset (map fst vs') = mset (map fst vs)" using assms by (simp add: mset_map)
  then show "distinct (map fst vs') = distinct (map fst vs)" by (rule mset_eq_imp_distinct_iff)
qed

lemma sent_writeError [simp]:
  "rw_sent w = None \<Longrightarrow> sent_status (fst (writeError st c m w s)) = Some st"
  "rw_sent w = None \<Longrightarrow> sent_status (fst (writeErrorWithDetails st c m d w s)) = Some st"
  "rw_sent w = None \<Longrightarrow> sent_status (fst (writeJSON st v w s)) = Some st"
  "rw_sent w = None \<Longrightarrow> sent_status (WriteHeader st w) = Some st"
  by (simp_all add: sent_status_def write_error_defs)

lemma new_writer_simps [simp]: "rw_sent new_writer = None" "rw_body new_writer = []"
  by (simp_all add: new_writer_def)

lemma internal_body_of_500 [simp]:
  "open_writer w \<Longrightarrow> rw_body (fst (writeError 500 ErrorErrorCodeInternalError
     ''internal server error'' w s)) = internal_body"
  using writeError_simps(3) [of w 500 ErrorErrorCodeInternalError "''internal server error''" s]
  by (simp add: responds_def internal_body_def body_allowed_def)

lemma opaque_credential_error:
  "opaque e \<Longrightarrow> writeCredentialError e w s =
     writeError 500 ErrorErrorCodeInternalError ''internal server error'' w s"
  "errors_is e ErrNotFound \<Longrightarrow> writeCredentialError e w s =
     writeError 404 ErrorErrorCodeNotFound ''provider not found'' w s"
  "errors_is e ErrInvalidKeyLength \<Longrightarrow> writeCredentialError e w s =
     writeError 500 ErrorErrorCodeInternalError ''internal server error'' w s"
  using errors_is_as_fields [of e] errors_is_unique [of e]
  by (auto simp: writeCredentialError_def opaque_def)

lemma body_allowed_simps [simp]:
  "body_allowed 200" "body_allowed 400" "body_allowed 404" "body_allowed 405" "body_allowed 409"
  "body_allowed 415" "body_allowed 500"
  by (simp_all add: body_allowed_def)

lemma state_of_error [simp]:
  "open_writer w \<Longrightarrow> body_allowed st \<Longrightarrow> snd (writeErrorWithDetails st c m d w s) = s"
  by (simp add: writeErrorWithDetails_def Let_def writeJSON_open)

lemma opaque_fields: "\<not> opaque (InvalidCredentialFields ms us)"
  by (simp add: opaque_def)

lemma invalid_fields_error:
  "writeCredentialError (InvalidCredentialFields ms us) w s =
     writeErrorWithDetails 400 ErrorErrorCodeValidationError ''invalid credential fields''
       ((if length ms > 0 then [(''missing'', ms)] else []) @ (if length us > 0 then [(''unknown'', us)] else [])) w s"
  by (simp add: writeCredentialError_def Let_def)

lemma adapter_SetCredentials_sqlite:
  fixes psvc :: "('z host_scheme) provider_service"
  defines "ad \<equiv> \<lambda>csvc order. \<lparr>ca_providers = psvc, ca_credentials = csvc, ca_order = order\<rparr>"
  assumes "wf_db s" and "sqlite_services psvc csvc" and "mset (order vs) = mset vs" and "distinct (map fst vs)"
    and run: "adapter_SetCredentials (ad csvc order) p vs s = (u, s')"
  shows "wf_db s' \<and> enabled_in s' = enabled_in s \<and> latest_in s' = latest_in s \<and>
    (\<forall>q f. q \<noteq> p \<longrightarrow> secret_in s' q f = secret_in s q f) \<and>
    (case u of
       Inl e \<Rightarrow> opaque e \<or> errors_is e ErrInvalidKeyLength \<or>
         (e = Sentinel ErrNotFound \<or> (\<exists>ms us. e = InvalidCredentialFields ms us)) \<and>
         secret_in s' = secret_in s \<and> entries s' = entries s
     | Inr _ \<Rightarrow> entries s' p = None \<and>
         (\<exists>m. service_metadata psvc p = Some m \<and> cf_name ` set (md_fields m) = fst ` set vs) \<and>
         (\<forall>(f, v) \<in> set vs. opens_to (cs_masterKey csvc) p f (secret_in s' p f) = Some v))"
proof -
  have vs: "set (order vs) = set vs" "distinct (map fst (order vs))"
    using permuted_entries [OF assms(4)] assms(5) by simp_all
  obtain g s1 where get: "service_Get psvc p s = (g, s1)" by fastforce
  have repo: "svc_repo psvc = sqlite_providers" using assms(3) by (simp add: sqlite_services_def)
  note law = Get_sqlite [OF assms(2) repo get]
  show ?thesis
  proof (cases g)
    case (Inl e)
    with run get law show ?thesis by (auto simp: adapter_SetCredentials_def ad_def)
  next
    case q: (Inr q)
    show ?thesis
    proof (cases "validateCredentialFields (md_fields q) vs")
      case (Some e)
      with run get law q show ?thesis
        by (auto simp: adapter_SetCredentials_def ad_def dest: validateCredentialFields_SomeD)
    next
      case None
      then have fields: "cf_name ` set (md_fields q) = fst ` set vs"
        by (simp add: validateCredentialFields_None_iff)
      have "wf_db s1" using law by simp
      moreover have "SetValues csvc p (order vs) s1 = (u, s')"
        using run get q None by (simp add: adapter_SetCredentials_def ad_def)
      ultimately show ?thesis
        using set_values_sqlite [OF _ assms(3) vs(2), of s1 p u s'] fields law q vs(1) by (cases u) auto
    qed
  qed
qed

text \<open>What an update of credentials must answer, and what a PUT must.\<close>

definition update_status :: "('z host_scheme) provider_service \<Rightarrow> 'z host_scheme \<Rightarrow> string
    \<Rightarrow> (string \<times> string) list \<Rightarrow> int" where
  "update_status psvc s p vs =
     (case service_metadata psvc p of
        None \<Rightarrow> 404
      | Some m \<Rightarrow> if enabled_in s p = None then 404
          else if cf_name ` set (md_fields m) = fst ` set vs then 204 else 400)"

definition put_status :: "('z host_scheme) provider_service \<Rightarrow> 'z host_scheme \<Rightarrow> web_request \<Rightarrow> int" where
  "put_status psvc s r =
     (if ParseMediaType (wq_content_type r) \<noteq> Some ''application/json'' then 415
      else case decode_first dec_CredentialValues \<lparr>cv_Values = []\<rparr> (wq_body r) of
          Inl _ \<Rightarrow> 400
        | Inr body \<Rightarrow> update_status psvc s (PathValue ''id'' r) (cv_Values body))"

lemma adapter_SetCredentials_status:
  fixes psvc :: "('z host_scheme) provider_service"
  defines "ad \<equiv> \<lambda>csvc order. \<lparr>ca_providers = psvc, ca_credentials = csvc, ca_order = order\<rparr>"
  assumes "wf_db s" and "sqlite_services psvc csvc" and "mset (order vs) = mset vs" and "distinct (map fst vs)"
    and run: "adapter_SetCredentials (ad csvc order) p vs s = (u, s')"
  shows "case u of
      Inl e \<Rightarrow> opaque e \<or> errors_is e ErrInvalidKeyLength \<or>
        e = Sentinel ErrNotFound \<and> update_status psvc s p vs = 404 \<or>
        (\<exists>ms us. e = InvalidCredentialFields ms us) \<and> update_status psvc s p vs = 400
    | Inr _ \<Rightarrow> update_status psvc s p vs = 204"
proof -
  have vs: "distinct (map fst (order vs))" using permuted_entries [OF assms(4)] assms(5) by simp
  obtain g s1 where get: "service_Get psvc p s = (g, s1)" by fastforce
  have repo: "svc_repo psvc = sqlite_providers" using assms(3) by (simp add: sqlite_services_def)
  note law = Get_sqlite [OF assms(2) repo get]
  show ?thesis
  proof (cases g)
    case (Inl e)
    with run get law show ?thesis
      by (auto simp: adapter_SetCredentials_def ad_def update_status_def split: option.splits)
  next
    case q: (Inr q)
    with law obtain m b where m: "service_metadata psvc p = Some m" "enabled_in s p = Some b"
      "md_fields q = md_fields m" by auto
    show ?thesis
    proof (cases "validateCredentialFields (md_fields q) vs")
      case (Some e)
      then have "cf_name ` set (md_fields q) \<noteq> fst ` set vs"
        by (simp flip: validateCredentialFields_None_iff)
      then have "update_status psvc s p vs = 400" using m by (simp add: update_status_def)
      moreover have "u = Inl e" using Some run get q by (simp add: adapter_SetCredentials_def ad_def)
      ultimately show ?thesis using validateCredentialFields_SomeD [OF Some] by simp
    next
      case None
      then have "update_status psvc s p vs = 204"
        using m by (simp add: update_status_def validateCredentialFields_None_iff)
      moreover have "SetValues csvc p (order vs) s1 = (u, s')" and "wf_db s1"
        using run get q None law by (simp_all add: adapter_SetCredentials_def ad_def)
      ultimately show ?thesis using set_values_sqlite [OF _ assms(3) vs, of s1 p u s'] by (cases u) auto
    qed
  qed
qed

text \<open>A working system: every database call succeeds, random bytes can be drawn, and the key fits.\<close>

definition working :: "('z host_scheme) credential_service \<Rightarrow> 'z host_scheme \<Rightarrow> bool" where
  "working csvc s \<longleftrightarrow> reliable_db s \<and> entropy s \<and> length (cs_masterKey csvc) = KeySize"

lemma adapter_SetCredentials_working:
  fixes psvc :: "('z host_scheme) provider_service"
  assumes "wf_db s" and "sqlite_services psvc csvc" and "working csvc s"
    and run: "adapter_SetCredentials \<lparr>ca_providers = psvc, ca_credentials = csvc, ca_order = order\<rparr> p vs s = (Inl e, s')"
  shows "\<not> opaque e \<and> \<not> errors_is e ErrInvalidKeyLength"
proof -
  have repos: "svc_repo psvc = sqlite_providers" "cs_repo csvc = sqlite_credentials" "cs_cooldown csvc = Some Clear"
    using assms(2) by (simp_all add: sqlite_services_def)
  have key: "reliable_db s" "entropy s" "length (cs_masterKey csvc) = KeySize"
    using assms(3) by (simp_all add: working_def)
  obtain t where "set_values csvc p (order vs) s = (Inr (), t)"
    using sqlite_working.set_values_works [OF repos(2) key(3) assms(1) key(1,2)] by blast
  then show ?thesis
    using run repos(3)
    by (auto simp: adapter_SetCredentials_def Get_reliable [OF key(1) repos(1)] SetValues_def opaque_def
        dest: validateCredentialFields_SomeD split: option.splits)
qed

lemma adapter_SetCredentials_succeeds:
  fixes psvc :: "('z host_scheme) provider_service"
  assumes "wf_db s" and "sqlite_services psvc csvc" and "working csvc s" and "update_status psvc s p vs = 204"
  shows "\<exists>t. adapter_SetCredentials \<lparr>ca_providers = psvc, ca_credentials = csvc, ca_order = order\<rparr> p vs s =
    (Inr (), t) \<and> reliable_db t"
proof -
  have repos: "svc_repo psvc = sqlite_providers" "cs_repo csvc = sqlite_credentials" "cs_cooldown csvc = Some Clear"
    using assms(2) by (simp_all add: sqlite_services_def)
  have key: "reliable_db s" "entropy s" "length (cs_masterKey csvc) = KeySize"
    using assms(3) by (simp_all add: working_def)
  from assms(4) obtain m b where m: "service_metadata psvc p = Some m" "enabled_in s p = Some b"
    "cf_name ` set (md_fields m) = fst ` set vs"
    by (auto simp: update_status_def split: option.splits if_splits)
  then have "validateCredentialFields (md_fields m) vs = None" by (simp add: validateCredentialFields_None_iff)
  moreover obtain t where "set_values csvc p (order vs) s = (Inr (), t)" "reliable_db t"
    using sqlite_working.set_values_works [OF repos(2) key(3) assms(1) key(1,2)] by blast
  ultimately show ?thesis
    using repos(3) m
    by (simp add: adapter_SetCredentials_def Get_reliable [OF key(1) repos(1)] SetValues_def Clear_def
        reliable_db_def)
qed


section \<open>Providers\<close>

definition provider_body :: "('z host_scheme) provider_service \<Rightarrow> metadata \<Rightarrow> bool \<Rightarrow> string" where
  "provider_body psvc m b =
     json_text (encode_provider (toAPIProvider (with_state m b (HasFetcher psvc (md_id m))))) @ newline"

definition not_found_body :: string where
  "not_found_body = error_body ErrorErrorCodeNotFound ''provider not found''"

lemma service_metadata_id: "service_metadata svc p = Some m \<Longrightarrow> md_id m = p"
  by (auto dest: service_metadata_SomeD)

lemma Get_answers:
  assumes "wf_db s" and "reliable_db s" and "svc_repo psvc = sqlite_providers"
    and "service_metadata psvc p \<noteq> None \<Longrightarrow> enabled_in s p \<noteq> None"
  obtains s' where "wf_db s'" and "reliable_db s'" and "enabled_in s' = enabled_in s"
    and "secret_in s' = secret_in s" and "latest_in s' = latest_in s" and "entries s' = entries s"
    and "service_Get psvc p s = (case service_metadata psvc p of
        None \<Rightarrow> Inl (Sentinel ErrNotFound)
      | Some m \<Rightarrow> Inr (with_state m (enabled_in s p = Some True) (HasFetcher psvc p)), s')"
proof (cases "service_metadata psvc p")
  case None
  with that [of s] assms show ?thesis by (simp add: service_Get_def)
next
  case (Some m)
  with assms(4) have "enabled_in s p \<noteq> None" by simp
  then obtain row s' where
    get: "prov_Get sqlite_providers p s = (Inr row, s')" "reliable_db s'"
    using sqlite_prov.Get_healthy [OF assms(1,2)] by blast
  then have "service_Get psvc p s = (Inr (with_state m (row_enabled row) (HasFetcher psvc p)), s')"
    using Some assms(3) by (simp add: service_Get_def)
  moreover have "enabled_in s p = Some (row_enabled row)"
    using sqlite_prov.Get_law [OF assms(1) get(1)] by simp
  ultimately show ?thesis
    using that [of s'] get(2) Some Get_sqlite [OF assms(1,3)] by auto
qed

lemma SetEnabled_answers:
  assumes "wf_db s" and "reliable_db s" and "svc_repo psvc = sqlite_providers"
    and "service_metadata psvc p = Some m" and "enabled_in s p \<noteq> None"
  obtains s' where "wf_db s'" and "reliable_db s'" and "enabled_in s' = (enabled_in s)(p \<mapsto> b)"
    and "secret_in s' = secret_in s" and "latest_in s' = latest_in s" and "entries s' = entries s"
    and "service_SetEnabled psvc p b s = (Inr (with_state m b (HasFetcher psvc p)), s')"
proof -
  obtain s' where set: "prov_SetEnabled sqlite_providers p b s = (Inr (), s')" "reliable_db s'"
    using sqlite_prov.SetEnabled_healthy [OF assms(1,2,5)] by blast
  then have "service_SetEnabled psvc p b s = (Inr (with_state m b (HasFetcher psvc p)), s')"
    using assms(3,4) by (simp add: service_SetEnabled_def)
  with that [of s'] set(2) show ?thesis
    using sqlite_prov.SetEnabled_law [OF assms(1) set(1)] providers_rest_tables [of s' s] by auto
qed

text \<open>
  C25: On a working, reconciled database, enabling or disabling a provider of the catalog answers
  200 with the provider in its new state and changes this one flag and nothing else; an unknown id
  answers 404 and changes nothing. A GET of the provider right afterwards answers the same.
\<close>
theorem enable_then_get:
  assumes "wf_db s" and "reliable_db s" and "svc_repo psvc = sqlite_providers"
    and "service_metadata psvc (PathValue ''id'' r) \<noteq> None \<longrightarrow> enabled_in s (PathValue ''id'' r) \<noteq> None"
    and "wq_method r = ''POST''"
    and "(if b then handleProviderEnable else handleProviderDisable) (NewProviderRepository psvc)
           r new_writer s = (p, w, s1)"
    and "handleProviderItem (NewProviderRepository psvc) (r\<lparr>wq_method := ''GET''\<rparr>) new_writer s1 =
           (p', w', s2)"
  shows "secret_in s2 = secret_in s \<and> latest_in s2 = latest_in s \<and> entries s2 = entries s \<and>
    (case service_metadata psvc (PathValue ''id'' r) of
       None \<Rightarrow> responds w 404 not_found_body \<and> responds w' 404 not_found_body \<and>
         enabled_in s2 = enabled_in s
     | Some m \<Rightarrow> responds w 200 (provider_body psvc m b) \<and> responds w' 200 (provider_body psvc m b) \<and>
         enabled_in s2 = (enabled_in s)(PathValue ''id'' r \<mapsto> b))"
proof -
  let ?i = "PathValue ''id'' r" and ?repo = "NewProviderRepository psvc"
  have id: "PathValue ''id'' (r\<lparr>wq_method := ''GET''\<rparr>) = ?i" by (simp add: PathValue_def)
  have set: "w = fst (snd (respondProvider (\<lambda>i. returns (\<lambda>s. provider_answer (service_SetEnabled psvc i b s))) r new_writer s))"
    "s1 = snd (snd (respondProvider (\<lambda>i. returns (\<lambda>s. provider_answer (service_SetEnabled psvc i b s))) r new_writer s))"
    using assms(5,6)
    by (auto simp: handleProviderEnable_def handleProviderDisable_def NewProviderRepository_def split: if_splits)
  have get: "w' = fst (snd (respondProvider (\<lambda>i. returns (\<lambda>s. provider_answer (service_Get psvc i s)))
        (r\<lparr>wq_method := ''GET''\<rparr>) new_writer s1))"
    "s2 = snd (snd (respondProvider (\<lambda>i. returns (\<lambda>s. provider_answer (service_Get psvc i s)))
        (r\<lparr>wq_method := ''GET''\<rparr>) new_writer s1))"
    using assms(7) by (simp_all add: handleProviderItem_def NewProviderRepository_def)
  note step = respondProvider_def provider_answer_def id not_found_body_def provider_body_def
    writeJSON_responds writeJSON_open
  show ?thesis
  proof (cases "service_metadata psvc ?i")
    case None
    then have "service_SetEnabled psvc ?i b s = (Inl (Sentinel ErrNotFound), s)"
      by (simp add: service_SetEnabled_def)
    moreover have "service_Get psvc ?i s = (Inl (Sentinel ErrNotFound), s)"
      using None by (simp add: service_Get_def)
    ultimately show ?thesis using None set get by (simp add: step)
  next
    case (Some m)
    with assms(4) have "enabled_in s ?i \<noteq> None" by simp
    then obtain s' where s': "wf_db s'" "reliable_db s'" "enabled_in s' = (enabled_in s)(?i \<mapsto> b)"
        "secret_in s' = secret_in s" "latest_in s' = latest_in s" "entries s' = entries s"
      and en: "service_SetEnabled psvc ?i b s = (Inr (with_state m b (HasFetcher psvc ?i)), s')"
      using SetEnabled_answers [OF assms(1-3) Some] by metis
    have first: "responds w 200 (provider_body psvc m b)" "s1 = s'"
      using set en service_metadata_id [OF Some] by (simp_all add: step)
    obtain s'' where s'': "enabled_in s'' = enabled_in s'" "secret_in s'' = secret_in s'"
        "latest_in s'' = latest_in s'" "entries s'' = entries s'"
      and gt: "service_Get psvc ?i s' = (Inr (with_state m b (HasFetcher psvc ?i)), s'')"
      using Get_answers [OF s'(1,2) assms(3), of ?i] s'(3) Some by auto
    have "responds w' 200 (provider_body psvc m b)" "s2 = s''"
      using get first(2) gt service_metadata_id [OF Some] by (simp_all add: step)
    with first(1) s' s'' Some show ?thesis by simp
  qed
qed

section \<open>Usage\<close>

definition usage_text :: "usage_snapshot \<Rightarrow> string" where
  "usage_text u = (case encode_usage_snapshot u of None \<Rightarrow> [] | Some j \<Rightarrow> json_text j @ newline)"

lemma writeJSON_usage:
  "open_writer w \<Longrightarrow> responds (fst (writeJSON 200 (encode_usage_snapshot u) w s)) 200 (usage_text u)"
  by (cases "encode_usage_snapshot u")
    (simp_all add: usage_text_def writeJSON_responds,
     simp add: responds_def sent_status_def open_writer_def writeJSON_def Let_def)

lemma adapter_GetUsage_sqlite:
  assumes "wf_db s" and "reliable_db s" and "svc_repo psvc = sqlite_providers"
    and "adapter_GetUsage psvc sqlite_snapshots i s = (g, t)"
  shows "enabled_in t = enabled_in s \<and> secret_in t = secret_in s \<and> latest_in t = latest_in s \<and>
    entries t = entries s \<and>
    (if service_metadata psvc i = None \<or> enabled_in s i = None then g = Inl (Sentinel ErrNotFound)
     else case latest_in s i of
         None \<Rightarrow> g = Inr pending_snapshot
       | Some (Inr sn) \<Rightarrow> g = Inr (toAPIUsageSnapshot sn)
       | Some (Inl _) \<Rightarrow> \<exists>e. g = Inl e \<and> opaque e)"
proof -
  note get = Get_reliable [OF assms(2,3), of i]
  obtain r s2 where snap: "snap_GetSnapshot sqlite_snapshots i s = (r, s2)" by fastforce
  note law = sqlite_snap.GetSnapshot_law [OF assms(1) snap]
  have keep: "enabled_in s2 = enabled_in s \<and> secret_in s2 = secret_in s \<and> latest_in s2 = latest_in s \<and>
      entries s2 = entries s"
    using law snapshots_rest_tables [of s2 s] by auto
  show ?thesis
  proof (cases "service_metadata psvc i = None \<or> enabled_in s i = None")
    case True
    with get assms(4) show ?thesis by (auto simp: adapter_GetUsage_def split: option.splits)
  next
    case False
    then have t: "t = s2" and g: "g = (case r of
        Inl e \<Rightarrow> if errors_is e ErrNotFound then Inr pending_snapshot else Inl e
      | Inr sn \<Rightarrow> Inr (toAPIUsageSnapshot sn))"
      using get snap assms(4) by (auto simp: adapter_GetUsage_def split: sum.splits if_splits)
    show ?thesis
    proof (cases "latest_in s i")
      case None
      then have "r = Inl (Sentinel ErrNotFound)"
        using sqlite_snap.GetSnapshot_absent [OF assms(1,2), of i] snap by simp
      with None False g t keep show ?thesis by simp
    next
      case stored: (Some x)
      show ?thesis
      proof (cases x)
        case (Inl f)
        then obtain e where "r = Inl e" "opaque e" using law stored by (cases r) auto
        with Inl stored False g t keep opaque_not_is show ?thesis by auto
      next
        case (Inr sn)
        then have "r = Inr sn"
          using sqlite_snap.GetSnapshot_healthy [OF assms(1,2), of i sn] stored snap by auto
        with Inr stored False g t keep show ?thesis by simp
      qed
    qed
  qed
qed

text \<open>
  C39: The usage endpoint on a working database: a provider that is not in the catalog or has no row
  is 404; a known one that was never collected is a pending snapshot with 200, not an error; a
  stored snapshot comes back as it is; a row that does not decode is the generic 500. Nothing is
  changed.
\<close>
theorem usage_endpoint:
  assumes "wf_db s" and "reliable_db s" and "svc_repo psvc = sqlite_providers"
    and "wq_method r = ''GET''"
    and "handleProviderUsage (NewUsageGetter psvc sqlite_snapshots) r new_writer s = (p, w, s')"
  shows "enabled_in s' = enabled_in s \<and> secret_in s' = secret_in s \<and> latest_in s' = latest_in s \<and>
    entries s' = entries s \<and>
    (if service_metadata psvc (PathValue ''id'' r) = None \<or> enabled_in s (PathValue ''id'' r) = None
     then responds w 404 not_found_body
     else case latest_in s (PathValue ''id'' r) of
         None \<Rightarrow> responds w 200 (usage_text pending_snapshot)
       | Some (Inr sn) \<Rightarrow> responds w 200 (usage_text (toAPIUsageSnapshot sn))
       | Some (Inl e) \<Rightarrow> responds w 500 internal_body)"
proof -
  let ?i = "PathValue ''id'' r"
  obtain g t where call: "adapter_GetUsage psvc sqlite_snapshots ?i s = (g, t)" by fastforce
  note answer = adapter_GetUsage_sqlite [OF assms(1-3) call]
  let ?ans = "case g of
      Inl e \<Rightarrow> if errors_is e ErrNotFound
        then writeError 404 ErrorErrorCodeNotFound ''provider not found'' new_writer t
        else writeError 500 ErrorErrorCodeInternalError ''internal server error'' new_writer t
    | Inr snap \<Rightarrow> writeJSON 200 (encode_usage_snapshot snap) new_writer t"
  have "w = fst ?ans" "s' = snd ?ans"
    using assms(4,5) call
    by (auto simp: handleProviderUsage_def NewUsageGetter_def split: prod.splits sum.splits if_splits)
  with answer show ?thesis
    by (auto simp: tables_after_writeJSON writeJSON_usage internal_body_def not_found_body_def opaque_not_is
        split: option.split sum.split if_split_asm)
qed

section \<open>Refresh\<close>

lemma Collect_sqlite:
  assumes "wf_db s" and "sqlite_wired c" and "Collect c p s = (r, s')"
  shows "wf_db s' \<and> enabled_in s' = enabled_in s \<and> secret_in s' = secret_in s \<and>
    entries s' = entries s \<and>
    (case r of
       Inl e \<Rightarrow> latest_in s' = latest_in s
     | Inr sn \<Rightarrow> service_metadata (col_providers c) p \<noteq> None \<and> enabled_in s p = Some True \<and>
         snap_provider_id sn = p \<and> snap_last_error sn = None \<and> zone (snap_collected_at sn) = 0 \<and>
         latest_in s' = (latest_in s)(p \<mapsto> kept_snapshot p (snap_metrics sn) (snap_collected_at sn)))"
  using sqlite_store.Collect_client [OF assms(1) assms(2) [unfolded sqlite_wired_iff] assms(3)]
  by (cases r) (auto simp: beside_db_def)

lemma writeJSON_net [simp]: "rt_net (snd (writeJSON st v w s)) = rt_net s"
  by (auto simp: writeJSON_def Let_def slog_def split: option.split prod.split)

lemma handleProviderRefresh_eq:
  assumes "wq_method r = ''POST''"
    and "handleProviderRefresh (NewUsageRefresher c) r new_writer s = (p, w, s')"
    and "Collect c (PathValue ''id'' r) s = (u, s1)"
  shows "case u of
      Inl e \<Rightarrow> w = fst (writeRefreshError e new_writer s1) \<and> s' = snd (writeRefreshError e new_writer s1)
    | Inr sn \<Rightarrow> responds w 200 (usage_text (toAPIUsageSnapshot sn)) \<and>
        runtime.more s' = runtime.more s1 \<and> rt_net s' = rt_net s1"
proof (cases u)
  case (Inl e)
  with assms show ?thesis
    by (auto simp: handleProviderRefresh_def NewUsageRefresher_def adapter_RefreshUsage_def)
next
  case (Inr sn)
  with assms have "w = fst (writeJSON 200 (encode_usage_snapshot (toAPIUsageSnapshot sn)) new_writer s1)"
      "s' = snd (writeJSON 200 (encode_usage_snapshot (toAPIUsageSnapshot sn)) new_writer s1)"
    by (auto simp: handleProviderRefresh_def NewUsageRefresher_def adapter_RefreshUsage_def)
  with Inr show ?thesis by (simp add: writeJSON_usage)
qed

lemma writeRefreshError_status:
  "sent_status (fst (writeRefreshError e new_writer s)) \<noteq> Some 200"
  "snd (writeRefreshError e new_writer s) = s"
  by (auto simp: writeRefreshError_def)

text \<open>
  C14: What a refresh shows is what is stored: after a refresh that answered 200 with metrics that
  can be stored, the usage endpoint answers 200 with the same body, byte for byte. Refreshing
  changes no flag, no credential and no cooldown (the manual path is never gated and never
  un-gates), and a refresh that is refused or fails leaves the last good snapshot in place.
\<close>
theorem refresh_then_usage:
  assumes "wf_db s" and "sqlite_wired c" and "wq_method r = ''POST''"
    and "handleProviderRefresh (NewUsageRefresher c) r new_writer s = (p, w, s1)"
    and "reliable_db s1" and "\<forall>sn s'. Collect c (PathValue ''id'' r) s = (Inr sn, s') \<longrightarrow>
      storable_metrics (snap_metrics sn)"
    and "handleProviderUsage (NewUsageGetter (col_providers c) sqlite_snapshots)
      (r\<lparr>wq_method := ''GET''\<rparr>) new_writer s1 = (p', w', s2)"
  shows "enabled_in s1 = enabled_in s \<and> secret_in s1 = secret_in s \<and> entries s1 = entries s \<and>
    (if sent_status w = Some 200 then responds w' 200 (rw_body w) \<and>
       (\<forall>q. q \<noteq> PathValue ''id'' r \<longrightarrow> latest_in s1 q = latest_in s q)
     else latest_in s1 = latest_in s)"
proof -
  let ?i = "PathValue ''id'' r"
  obtain u s0 where col: "Collect c ?i s = (u, s0)" by fastforce
  note law = Collect_sqlite [OF assms(1,2) col] and resp = handleProviderRefresh_eq [OF assms(3,4) col]
  show ?thesis
  proof (cases u)
    case (Inl e)
    with resp law show ?thesis by (simp add: writeRefreshError_status)
  next
    case (Inr sn)
    with resp have w: "responds w 200 (usage_text (toAPIUsageSnapshot sn))"
      and more: "runtime.more s1 = runtime.more s0" by auto
    note same = same_more_tables [OF more]
    from assms(6) col Inr have "storable_metrics (snap_metrics sn)" by simp
    moreover from law Inr have sn: "snap_provider_id sn = ?i" "snap_last_error sn = None"
      "zone (snap_collected_at sn) = 0" by auto
    moreover have "time_UTC (snap_collected_at sn) = snap_collected_at sn"
      using sn(3) by (simp add: time_UTC_id_iff)
    ultimately have "kept_snapshot ?i (snap_metrics sn) (snap_collected_at sn) = Inr sn"
      by (cases sn) (simp add: kept_snapshot_storable)
    with law Inr same have l: "latest_in s1 ?i = Some (Inr sn)" by simp
    have id: "PathValue ''id'' (r\<lparr>wq_method := ''GET''\<rparr>) = ?i" by (simp add: PathValue_def)
    have repo: "svc_repo (col_providers c) = sqlite_providers" using assms(2) by (simp add: sqlite_wired_def)
    from law Inr obtain m where m: "service_metadata (col_providers c) ?i = Some m" by auto
    have "wf_db s1" and on: "enabled_in s1 ?i = Some True" using law Inr same by auto
    obtain s3 where s3: "wf_db s3" "reliable_db s3" "latest_in s3 = latest_in s1"
      and get: "service_Get (col_providers c) ?i s1 =
        (Inr (with_state m True (HasFetcher (col_providers c) ?i)), s3)"
      by (rule Get_answers [OF \<open>wf_db s1\<close> assms(5) repo, of ?i]) (simp_all add: on m)
    obtain s4 where snap: "snap_GetSnapshot sqlite_snapshots ?i s3 = (Inr sn, s4)"
      using sqlite_snap.GetSnapshot_healthy [OF s3(1,2)] l s3(3) by metis
    have "w' = fst (writeJSON 200 (encode_usage_snapshot (toAPIUsageSnapshot sn)) new_writer s4)"
      using assms(7) get snap
      by (auto simp: handleProviderUsage_def NewUsageGetter_def adapter_GetUsage_def id)
    then have "responds w' 200 (usage_text (toAPIUsageSnapshot sn))" by (simp add: writeJSON_usage)
    with w law Inr same show ?thesis by (simp add: responds_def)
  qed
qed

text \<open>The answers to a refusal before the fetch, and to an error of the fetch.\<close>

definition conflict_body :: "string \<Rightarrow> string" where
  "conflict_body msg = error_body ErrorErrorCodeConflict msg"

fun refusal_answer :: "refusal \<Rightarrow> int \<times> string" where
  "refusal_answer Unknown_Provider = (404, not_found_body)"
| "refusal_answer Provider_Off = (409, conflict_body ''provider is disabled'')"
| "refusal_answer Field_Missing = (409, conflict_body ''provider is missing required credentials'')"
| "refusal_answer Field_Unreadable = (500, internal_body)"

definition error_answer :: "goerr \<Rightarrow> int \<times> string" where
  "error_answer e =
     (if errors_is e ErrNotFound then (404, not_found_body)
      else if errors_is e ErrProviderDisabled then (409, conflict_body ''provider is disabled'')
      else if errors_is e ErrProviderUncredentialed
        then (409, conflict_body ''provider is missing required credentials'')
      else if errors_is e ErrFetcherNotFound then (409, conflict_body ''provider has no registered fetcher'')
      else (500, internal_body))"

lemma writeRefreshError_answer:
  "case error_answer e of (st, body) \<Rightarrow> responds (fst (writeRefreshError e new_writer s)) st body"
  by (simp add: error_answer_def writeRefreshError_def not_found_body_def conflict_body_def internal_body_def)

lemma error_answer_refusal: "refuses why e \<Longrightarrow> error_answer e = refusal_answer why"
  by (cases why) (auto simp: error_answer_def crypto_error_def dest: errors_is_unique)

lemma error_answer_Wrap: "error_answer (Wrap m e) = error_answer e"
  by (simp add: error_answer_def)

lemma error_answer_opaque: "opaque e \<Longrightarrow> error_answer e = (500, internal_body)"
  by (simp add: error_answer_def opaque_def)

text \<open>
  C9: The answer to a refresh on a working database, every case of it. Without a network request:
  404 for a provider that is not in the catalog or has no row, 409 when it is disabled, and for
  the first declared credential field that cannot be read 409 when it is not stored and the generic 500
  when its stored value does not open under the key; 409 when it has no fetcher. Otherwise the
  fetcher is called once, with exactly the stored values: an error of the program's own among the
  four that the endpoint knows gets the status of that error, any other error (a refused key
  among them) the generic 500; usage that can be encoded is 200 with the snapshot, collected at the
  clock's time after the fetch, and usage that cannot is the generic 500.
\<close>
theorem refresh_statuses:
  fixes s :: "'z host_scheme"
  assumes "reliable_db s" and "sqlite_wired c" and "wq_method r = ''POST''"
    and "handleProviderRefresh (NewUsageRefresher c) r new_writer s = (p, w, s')"
  shows "case readiness c (PathValue ''id'' r) s of
      Inl why \<Rightarrow> responds w (fst (refusal_answer why)) (snd (refusal_answer why)) \<and> rt_net s' = rt_net s
    | Inr cr \<Rightarrow> (case svc_fetchers (col_providers c) (PathValue ''id'' r) of
        Some (Some f) \<Rightarrow> (case ft_FetchUsage f cr (runtime.truncate s) of
            (Inl e, rt) \<Rightarrow> responds w (fst (error_answer e)) (snd (error_answer e)) \<and> rt_net s' = rt_net rt
          | (Inr ms, rt) \<Rightarrow> rt_net s' = rt_net rt \<and>
              (case marshal_metrics (toStoreMetrics ms) of
                 Inl _ \<Rightarrow> responds w 500 internal_body
               | Inr _ \<Rightarrow> responds w 200 (usage_text (toAPIUsageSnapshot
                   \<lparr>snap_provider_id = PathValue ''id'' r, snap_metrics = toStoreMetrics ms,
                    snap_collected_at = time_UTC (rt_clock rt 0), snap_last_error = None\<rparr>))))
      | _ \<Rightarrow> responds w 409 (conflict_body ''provider has no registered fetcher'') \<and> rt_net s' = rt_net s)"
proof -
  let ?i = "PathValue ''id'' r" and ?svc = "col_providers c"
  have repos: "svc_repo ?svc = sqlite_providers" "cs_repo (col_credentials c) = sqlite_credentials"
    "col_snapshots c = sqlite_snapshots"
    using assms(2) by (simp_all add: sqlite_wired_def)
  obtain u t where col: "Collect c ?i s = (u, t)" by fastforce
  note resp = handleProviderRefresh_eq [OF assms(3,4) col]
  have failed: "responds w (fst (error_answer e)) (snd (error_answer e)) \<and> rt_net s' = rt_net t" if "u = Inl e" for e
    using resp that writeRefreshError_answer [of e t]
    by (simp add: writeRefreshError_status split: prod.splits)
  note gather = gather_reliable [OF assms(1) repos(1,2), of ?i]
  show ?thesis
  proof (cases "readiness c ?i s")
    case (Inl why)
    with gather obtain e where "gather c ?i s = (Inl e, s)" "refuses why e" by auto
    with col have "u = Inl e" "t = s" by (simp_all add: Collect_halves)
    with failed error_answer_refusal [OF \<open>refuses why e\<close>] Inl show ?thesis by simp
  next
    case (Inr cr)
    with gather have g: "gather c ?i s = (Inr cr, s)" by simp
    from Inr obtain m where m: "service_metadata ?svc ?i = Some m"
      by (auto simp: readiness_def split: option.splits)
    show ?thesis
    proof (cases "\<exists>f. svc_fetchers ?svc ?i = Some (Some f)")
      case False
      then have "u = Inl (Sentinel ErrFetcherNotFound)" "t = s"
        using col g FetchUsage_dead [of ?svc ?i cr s] by (simp_all add: Collect_halves HasFetcher_iff)
      with failed Inr False show ?thesis
        by (auto simp: error_answer_def split: option.split)
    next
      case True
      then obtain f where f: "svc_fetchers ?svc ?i = Some (Some f)" by blast
      obtain x rt where fetch: "ft_FetchUsage f cr (runtime.truncate s) = (x, rt)" by fastforce
      obtain s1 where run: "within_runtime (ft_FetchUsage f cr) s = (x, s1)"
        and s1: "rt_net s1 = rt_net rt" "rt_clock s1 = rt_clock rt"
        using fetch by (simp add: within_runtime_def)
      have "reliable_db s1" using within_runtime_reliable [OF assms(1)] run by (metis snd_conv)
      note keep = keep_usage_reliable [OF this repos(3), where p = ?i]
      note Collect_eq = col [unfolded Collect_halves g FetchUsage_live [OF m f] run prod.case sum.case]
      show ?thesis
      proof (cases x)
        case (Inl e)
        with Collect_eq have "u = Inl (Wrap (''provider: fetch '' @ ?i) e)" "t = s1" by simp_all
        with failed Inr f fetch Inl s1 show ?thesis by (simp add: error_answer_Wrap)
      next
        case ms: (Inr ms)
        with Collect_eq have kept: "keep_usage c ?i ms s1 = (u, t)" by simp
        show ?thesis
        proof (cases "marshal_metrics (toStoreMetrics ms)")
          case (Inl e)
          with keep [of ms] kept obtain e' where "u = Inl e'" "opaque e'" "rt_net t = rt_net s1" by auto
          with failed [of e'] Inr f fetch ms s1 Inl show ?thesis by (simp add: error_answer_opaque)
        next
          case (Inr blob)
          with keep [of ms] kept s1 have "u = Inr \<lparr>snap_provider_id = ?i, snap_metrics = toStoreMetrics ms,
              snap_collected_at = time_UTC (rt_clock rt 0), snap_last_error = None\<rparr>" "rt_net t = rt_net s1"
            by auto
          with resp \<open>readiness c ?i s = Inr cr\<close> f fetch ms s1 Inr show ?thesis
            by simp
        qed
      qed
    qed
  qed
qed

section \<open>Concrete instances\<close>

definition demo_request :: "string \<Rightarrow> string \<Rightarrow> web_request" where
  "demo_request m i =
     \<lparr>wq_method = m, wq_path = provider_path i [], wq_content_type = ''application/json'',
      wq_body = ''{}'', wq_path_values = [(''id'', i)], wq_request_id = None\<rparr>"

lemma demo_request_simps [simp]:
  "wq_method (demo_request m i) = m" "PathValue ''id'' (demo_request m i) = i"
  "demo_request m i\<lparr>wq_method := m'\<rparr> = demo_request m' i"
  by (simp_all add: demo_request_def PathValue_def)

lemma demo_services [simp]:
  "sqlite_services (col_providers (demo_collector fetch)) (col_credentials (demo_collector fetch))"
  "svc_repo (col_providers (demo_collector fetch)) = sqlite_providers"
  by (simp_all add: sqlite_services_def demo_collector_def NewCollector_def NewService_def
      NewCredentialService_def)

lemma one_credential_set:
  assumes "cs_repo csvc = sqlite_credentials" and "length (cs_masterKey csvc) = 32"
    and "rt_rand s 0 = Inr g" and "wf_db s" and "reliable_db s" and "cs_cooldown csvc = Some Clear"
  shows "\<exists>t. SetValues csvc p [(f, v)] s = (Inr (), t) \<and> reliable_db t \<and> rt_net t = rt_net s"
proof -
  have key: "length (cs_masterKey csvc) = KeySize" using assms(2) by (simp add: KeySize_def)
  obtain blob s1 where seal: "Seal (cs_masterKey csvc) (bytes_of_string v) (AAD p f) s = (Inr blob, s1)"
    using Seal_good_key [OF key assms(3)] by (simp add: Let_def)
  have s1: "wf_db s1" "reliable_db s1" "rt_net s1 = rt_net s" using Seal_state [OF seal] assms(4,5) by auto
  with sqlite_cred.Upsert_healthy obtain s2 where
    up: "cred_Upsert sqlite_credentials p f blob s1 = (Inr (), s2)" and "reliable_db s2" by blast
  moreover have "rt_net s2 = rt_net s1"
    using sqlite_cred.Upsert_law [OF s1(1) up] by (simp add: credentials_rest_def outside_tables_def)
  ultimately show ?thesis using seal s1(3) assms(1,6) by (simp add: SetValues_def Clear_def sqlite_defs)
qed

lemma one_field_set:
  assumes "cs_repo csvc = sqlite_credentials" and "length (cs_masterKey csvc) = 32"
    and "cs_cooldown csvc = Some Clear" and "service_Get psvc p s = (Inr q, u)"
    and "map cf_name (md_fields q) = [f]" and "rt_rand u 0 = Inr g" and "wf_db u" and "reliable_db u"
    and "order [(f, v)] = [(f, v)]"
  shows "\<exists>t. adapter_SetCredentials \<lparr>ca_providers = psvc, ca_credentials = csvc, ca_order = order\<rparr> p [(f, v)] s =
    (Inr (), t) \<and> reliable_db t \<and> rt_net t = rt_net u"
proof -
  have "cf_name ` set (md_fields q) = {f}" using assms(5) by (metis list.set_map list.simps(15) set_empty2)
  then have "validateCredentialFields (md_fields q) [(f, v)] = None"
    by (simp add: validateCredentialFields_None_iff)
  with one_credential_set [OF assms(1,2,6-8,3), of p f v] assms(4,9) show ?thesis
    by (simp add: adapter_SetCredentials_def)
qed

lemma ready_Get:
  "svc_repo psvc = sqlite_providers \<Longrightarrow> svc_registry psvc = Registry \<Longrightarrow>
     \<exists>q t. service_Get psvc ''minimax'' (ready_host net) = (Inr q, t) \<and>
       map cf_name (md_fields q) = [''subscription_key''] \<and> rt_rand t 0 = Inr (\<lambda>j. 0) \<and> reliable_db t \<and>
       rt_net t = net"
  by (simp add: reliable_db_def service_Get_def service_metadata_def Registry_demo demo_metadata_def sqlite_providers_def
      sqlite_Get_def db_call_def ready_host_def empty_host_def calm_runtime_def row_of_def Let_def)

definition demo_put :: web_request where
  "demo_put = (demo_request ''PUT'' ''minimax'')
     \<lparr>wq_body := json_text (JObj [(''values'', JObj [(''subscription_key'', json_of_string ''k2'')])])\<rparr>"

lemma demo_put_simps:
  "wq_method demo_put = ''PUT''" "PathValue ''id'' demo_put = ''minimax''"
  "ParseMediaType (wq_content_type demo_put) = Some ''application/json''"
  by (simp_all add: demo_put_def demo_request_def PathValue_def json_media_types)

lemma demo_put_body: "decode_first dec_CredentialValues \<lparr>cv_Values = []\<rparr> (wq_body demo_put) =
    Inr \<lparr>cv_Values = [(''subscription_key'', ''k2'')]\<rparr>"
  by code_simp


theorem enable_then_get_witness:
  "\<exists>w s1. handleProviderDisable (NewProviderRepository (col_providers (demo_collector steady)))
       (demo_request ''POST'' ''minimax'') new_writer (ready_host no_net) = (None, w, s1) \<and>
     responds w 200 (provider_body (col_providers (demo_collector steady)) demo_metadata False)"
proof -
  let ?repo = "NewProviderRepository (col_providers (demo_collector steady))"
  obtain p w s1 where run: "handleProviderDisable ?repo (demo_request ''POST'' ''minimax'')
      new_writer (ready_host no_net) = (p, w, s1)" by (metis prod_cases3)
  obtain p' w' s2 where get: "handleProviderItem ?repo
      ((demo_request ''POST'' ''minimax'')\<lparr>wq_method := ''GET''\<rparr>) new_writer s1 = (p', w', s2)"
    by (metis prod_cases3)
  have "p = None"
    using run by (auto simp: handleProviderDisable_def NewProviderRepository_def respondProvider_def
        split: prod.splits sum.splits if_splits)
  with enable_then_get [where b = False and w = w, OF ready_host_simps(1,2) demo_services(2) _ _ _ get] run
  show ?thesis by simp
qed

theorem usage_endpoint_witness:
  "\<exists>p w s'. handleProviderUsage (NewUsageGetter (col_providers (demo_collector steady)) sqlite_snapshots)
       (demo_request ''GET'' ''minimax'') new_writer (ready_host no_net) = (p, w, s') \<and>
     responds w 200 (usage_text pending_snapshot)"
proof -
  obtain p w s' where run: "handleProviderUsage
      (NewUsageGetter (col_providers (demo_collector steady)) sqlite_snapshots)
      (demo_request ''GET'' ''minimax'') new_writer (ready_host no_net) = (p, w, s')"
    by (metis prod_cases3)
  from usage_endpoint [OF ready_host_simps(1,2) demo_services(2) _ run] run show ?thesis by simp
qed

lemma demo_readable:
  "\<forall>f \<in> set (md_fields demo_metadata). secret_in (ready_host no_net) ''minimax'' (cf_name f) = None \<or>
      opens_to (cs_masterKey (col_credentials (demo_collector fetch))) ''minimax'' (cf_name f)
        (secret_in (ready_host no_net) ''minimax'' (cf_name f)) \<noteq> None"
  by (simp add: demo_metadata_def opens_to_demo_blob)

lemma fst_steady [simp]: "fst (steady cr rt) = Inr [demo_usage]"
  by (simp add: steady_def)

lemma storable_demo: "storable_metrics (toStoreMetrics [demo_usage])"
  by (simp add: toStoreMetrics_demo storable_metrics_def storable_demo_metric)

lemma demo_ready:
  "readiness (demo_collector fetch) ''minimax'' (ready_host net) =
     Inr (revealed (col_credentials (demo_collector fetch)) (secret_in (ready_host net)) ''minimax''
       (md_fields demo_metadata))"
proof -
  have "credentialed (col_credentials (demo_collector fetch)) (secret_in (ready_host net))
      ''minimax'' (md_fields demo_metadata)"
    by (simp add: credentialed_def demo_metadata_def opens_to_demo_blob)
  then show ?thesis by (simp add: readiness_def unreadable_None_iff [THEN iffD2])
qed

lemma demo_absent: "readiness (demo_collector fetch) ''gone'' s = Inl Unknown_Provider"
  by (simp add: readiness_def demo_collector_def NewCollector_def NewService_def service_metadata_def
      Registry_def)

text \<open>A refresh that fetches; one of an id that is not in the catalog; one whose fetcher is refused its key.\<close>

theorem refresh_statuses_witness:
  "\<exists>w1 w2 w3. fst (snd (handleProviderRefresh (NewUsageRefresher (demo_collector steady))
       (demo_request ''POST'' ''minimax'') new_writer (ready_host no_net))) = w1 \<and> sent_status w1 = Some 200 \<and>
     fst (snd (handleProviderRefresh (NewUsageRefresher (demo_collector steady))
       (demo_request ''POST'' ''gone'') new_writer (ready_host no_net))) = w2 \<and> responds w2 404 not_found_body \<and>
     fst (snd (handleProviderRefresh (NewUsageRefresher (demo_collector (\<lambda>cr rt. (Inl (Sentinel ErrAuth), rt))))
       (demo_request ''POST'' ''minimax'') new_writer (ready_host no_net))) = w3 \<and> responds w3 500 internal_body"
proof -
  let ?refused = "\<lambda>cr rt. (Inl (Sentinel ErrAuth), rt)"
  let ?run = "\<lambda>f i. handleProviderRefresh (NewUsageRefresher (demo_collector f))
      (demo_request ''POST'' i) new_writer (ready_host no_net)"
  obtain blob where storable: "marshal_metrics (toStoreMetrics [demo_usage]) = Inr blob"
    using unmarshal_marshal_metrics [OF storable_demo] by blast
  obtain p1 w1 s1 where r1: "?run steady ''minimax'' = (p1, w1, s1)" by (metis prod_cases3)
  obtain p2 w2 s2 where r2: "?run steady ''gone'' = (p2, w2, s2)" by (metis prod_cases3)
  obtain p3 w3 s3 where r3: "?run ?refused ''minimax'' = (p3, w3, s3)" by (metis prod_cases3)
  note law = refresh_statuses [OF ready_host_simps(2) demo_collector_simps(1) demo_request_simps(1)]
  have "sent_status w1 = Some 200"
    using law [OF r1] storable by (simp add: demo_ready responds_def steady_def)
  moreover have "responds w2 404 not_found_body" using law [OF r2] by (simp add: demo_absent)
  moreover have "responds w3 500 internal_body"
    using law [OF r3] by (simp add: demo_ready error_answer_def)
  ultimately show ?thesis using r1 r2 r3 by simp
qed

lemma demo_collect:
  obtains sn s' where "Collect (demo_collector steady) ''minimax'' (ready_host no_net) = (Inr sn, s')"
    and "reliable_db s'" and "snap_metrics sn = [demo_metric]"
proof -
  have "credentialed (col_credentials (demo_collector steady)) (secret_in (ready_host no_net))
      ''minimax'' (md_fields demo_metadata)"
    by (simp add: credentialed_def demo_metadata_def opens_to_demo_blob)
  with sqlite_store.Collect_healthy [OF ready_host_simps(1,2) _ demo_collector_simps(2) demo_readable,
      of steady] storable_demo that
  show ?thesis
    by (auto simp: sqlite_store.collect_outcome_def sqlite_wired_iff [symmetric] steady_def
        toStoreMetrics_demo)
qed

theorem refresh_then_usage_witness:
  "\<exists>w s1 w'. sent_status w = Some 200 \<and>
     snd (handleProviderRefresh (NewUsageRefresher (demo_collector steady))
       (demo_request ''POST'' ''minimax'') new_writer (ready_host no_net)) = (w, s1) \<and>
     fst (snd (handleProviderUsage (NewUsageGetter (col_providers (demo_collector steady)) sqlite_snapshots)
       (demo_request ''GET'' ''minimax'') new_writer s1)) = w' \<and>
     responds w' 200 (rw_body w)"
proof -
  let ?post = "demo_request ''POST'' ''minimax''"
  obtain sn s' where col: "Collect (demo_collector steady) ''minimax'' (ready_host no_net) = (Inr sn, s')"
    "reliable_db s'" "snap_metrics sn = [demo_metric]" by (rule demo_collect)
  obtain p w s1 where run: "handleProviderRefresh (NewUsageRefresher (demo_collector steady)) ?post
      new_writer (ready_host no_net) = (p, w, s1)" by (metis prod_cases3)
  obtain p' w' s2 where get: "handleProviderUsage (NewUsageGetter (col_providers (demo_collector steady))
      sqlite_snapshots) (?post\<lparr>wq_method := ''GET''\<rparr>) new_writer s1 = (p', w', s2)" by (metis prod_cases3)
  from handleProviderRefresh_eq [OF _ run, of "Inr sn" s'] col(1)
  have w: "responds w 200 (usage_text (toAPIUsageSnapshot sn))" and more: "runtime.more s1 = runtime.more s'"
    by simp_all
  have "reliable_db s1" using same_more_tables(6) [OF more] col(2) by simp
  moreover have "\<forall>sn' s''. Collect (demo_collector steady) (PathValue ''id'' ?post) (ready_host no_net) =
      (Inr sn', s'') \<longrightarrow> storable_metrics (snap_metrics sn')"
    using col storable_demo by (simp add: toStoreMetrics_demo)
  ultimately have "responds w' 200 (rw_body w)"
    using refresh_then_usage [OF ready_host_simps(1) demo_collector_simps(1) _ run _ _ get] w
    by (simp add: responds_def)
  with run get w show ?thesis by (auto simp: responds_def)
qed

end
