(* ===== verification/Runtime_Step.thy ===== *)
theory Runtime_Step
  imports Server Endpoints
begin

text \<open>
  How a relation between program states lifts from the operations behind the seams to the whole
  HTTP handler: reading the clock, drawing request ids, routing and logging are invisible to a
  relation that looks at the program's own state alone.
\<close>

lemma newRequestID_more: "newRequestID s = (i, s1) \<Longrightarrow> runtime.more s1 = runtime.more s"
  using runtime_more_frame(2) [of 16 s]
  by (auto simp: newRequestID_def split: prod.splits sum.splits)

locale runtime_step =
  fixes does :: "'z runtime_scheme \<Rightarrow> 'z runtime_scheme \<Rightarrow> bool"
  assumes does_refl: "does s s"
    and does_cong: "runtime.more s1 = runtime.more s2 \<Longrightarrow> runtime.more t1 = runtime.more t2 \<Longrightarrow>
      does s1 t1 = does s2 t2"
begin

definition performs :: "('z runtime_scheme) http_handler \<Rightarrow> bool" where
  "performs h \<longleftrightarrow> (\<forall>r w s. does s (snd (snd (h r w s))))"

definition op_does :: "('z runtime_scheme \<Rightarrow> 'a \<times> 'z runtime_scheme) \<Rightarrow> bool" where
  "op_does op \<longleftrightarrow> (\<forall>s. does s (snd (op s)))"

lemma does_then: "does s t \<Longrightarrow> runtime.more u = runtime.more t \<Longrightarrow> does s u"
  using does_cong [of s s u t] by simp

lemma does_after: "does s t \<Longrightarrow> runtime.more s' = runtime.more s \<Longrightarrow> does s' t"
  using does_cong [of s' s t t] by simp

lemma does_same: "runtime.more t = runtime.more s \<Longrightarrow> does s t"
  using does_then [OF does_refl] .

lemma op_doesD: "op_does op \<Longrightarrow> op s = (r, t) \<Longrightarrow> does s t"
  unfolding op_does_def by (metis snd_conv)

lemma more_of_errors [simp]:
  "runtime.more (snd (writeErrorWithDetails st c m d w s)) = runtime.more s"
  "runtime.more (snd (methodNotAllowed a w s)) = runtime.more s"
  "runtime.more (snd (writeError st c m w s)) = runtime.more s"
  unfolding methodNotAllowed_def writeError_def writeErrorWithDetails_def Let_def
  by (rule writeJSON_more)+

lemma more_of_refusals [simp]:
  "runtime.more (snd (writeCredentialError e w s)) = runtime.more s"
  "runtime.more (snd (writeRefreshError e w s)) = runtime.more s"
  by (simp_all add: writeCredentialError_def writeRefreshError_def Let_def split: option.split)

lemma state_of_finish [simp]: "snd (snd (finish r)) = snd r"
  by (simp add: finish_def)

text \<open>A handler calls one operation and then only writes the response.\<close>

lemma does_op:
  assumes "op_does op" and "\<And>x t. runtime.more (snd (snd (k (x, t)))) = runtime.more t"
  shows "does s (snd (snd (calling (op s) w k)))"
proof -
  obtain x t where op: "op s = (x, t)" by fastforce
  show ?thesis
    using op_doesD [OF assms(1) op] does_then [OF op_doesD [OF assms(1) op] assms(2)]
    by (cases x) (simp_all add: op)
qed

lemma performs_refusing:
  assumes "performs h"
  shows "performs (\<lambda>r w s. if c r then finish (methodNotAllowed m w s) else h r w s)"
  using assms by (simp add: performs_def does_same)

lemma performs_item:
  assumes "\<And>i. op_does (fn i)"
  shows "performs (respondProvider fn)"
  unfolding performs_def respondProvider_def
  by (intro allI does_op [OF assms]) (simp split: sum.split)

lemma performs_providers:
  assumes "op_does (ListProviders repo)" and "\<And>i. op_does (GetProvider repo i)"
    and "\<And>i. op_does (EnableProvider repo i)" and "\<And>i. op_does (DisableProvider repo i)"
  shows "performs (handleProvidersCollection repo)" and "performs (handleProviderItem repo)"
    and "performs (handleProviderEnable repo)" and "performs (handleProviderDisable repo)"
proof -
  show "performs (handleProvidersCollection repo)"
    unfolding handleProvidersCollection_def [abs_def] performs_def
    by (simp add: does_same) (intro allI impI does_op [OF assms(1)], simp split: sum.split)
  show "performs (handleProviderItem repo)" "performs (handleProviderEnable repo)"
    "performs (handleProviderDisable repo)"
    unfolding handleProviderItem_def [abs_def] handleProviderEnable_def [abs_def]
      handleProviderDisable_def [abs_def]
    by (intro performs_refusing performs_item assms)+
qed

lemma performs_credentials:
  assumes "\<And>i vs. distinct (map fst vs) \<Longrightarrow> op_does (SetCredentials repo i vs)"
    and "\<And>i. op_does (GetCredentialPresence repo i)" and "\<And>i. op_does (DeleteCredentials repo i)"
  shows "performs (handleProviderCredentials repo)"
proof -
  have "does s (snd (snd (handleSetCredentials repo r w s)))" for r w s
  proof (cases "ParseMediaType (wq_content_type r) = Some ''application/json''")
    case False
    then show ?thesis by (simp add: handleSetCredentials_def does_same)
  next
    case json: True
    show ?thesis
    proof (cases "decode_first dec_CredentialValues \<lparr>cv_Values = []\<rparr> (wq_body r)")
      case (Inl e)
      with json show ?thesis by (simp add: handleSetCredentials_def does_same)
    next
      case (Inr body)
      then have "op_does (SetCredentials repo (PathValue ''id'' r) (cv_Values body))"
        by (intro assms(1) decoded_values_distinct)
      from does_op [OF this] json Inr show ?thesis
        by (simp add: handleSetCredentials_def split: sum.split)
    qed
  qed
  moreover have "does s (snd (snd (handleGetCredentials repo r w s)))" for r w s
    unfolding handleGetCredentials_def
    by (intro does_op [OF assms(2)]) (simp add: writeJSON_more split: sum.split)
  moreover have "does s (snd (snd (handleDeleteCredentials repo r w s)))" for r w s
    unfolding handleDeleteCredentials_def by (intro does_op [OF assms(3)]) (simp split: sum.split)
  ultimately show ?thesis by (simp add: performs_def handleProviderCredentials_def does_same)
qed

lemma performs_usage:
  assumes "\<And>i. op_does (GetUsage getter i)"
  shows "performs (handleProviderUsage getter)"
  unfolding handleProviderUsage_def [abs_def] performs_def
  by (simp add: does_same) (intro allI impI does_op [OF assms], simp split: sum.split)

lemma performs_refresh:
  assumes "\<And>i. op_does (RefreshUsage refresher i)"
  shows "performs (handleProviderRefresh refresher)"
  unfolding handleProviderRefresh_def [abs_def] performs_def
  by (simp add: does_same) (intro allI impI does_op [OF assms], simp split: sum.split)

lemma performs_notFound: "performs handleNotFound"
  by (simp add: performs_def handleNotFound_def does_same)

lemma performs_ServeMux:
  "\<forall>rt \<in> set routes. performs (rt_handler rt) \<Longrightarrow> performs (ServeMux routes)"
  using findHandler_in [of routes]
  by (auto simp: performs_def ServeMux_def intro: does_refl split: routed.split)

lemma performs_middleware:
  assumes "performs h"
  shows "performs (withRequestID h)" and "performs (withLogging h)" and "performs (withRecovery h)"
proof -
  have h: "does s t" if "h r w s = (p, w', t)" for r w s p w' t
    using assms that unfolding performs_def by (metis snd_conv)
  show "performs (withRequestID h)"
    unfolding performs_def withRequestID_def
  proof (intro allI)
    fix r w and s :: "'z runtime_scheme"
    obtain i s1 where i: "newRequestID s = (i, s1)" by fastforce
    have "does s1 (snd (snd (h r' w' s1)))" for r' w' using assms by (simp add: performs_def)
    from does_after [OF this newRequestID_more [OF i, symmetric]]
    show "does s (snd (snd (case newRequestID s of (i, s1) \<Rightarrow>
        h (contextWithRequestID i r) (header_Set ''X-Request-Id'' i w) s1)))" by (simp add: i)
  qed
  have "does s (snd (snd (withRecovery h r w s)))" for r w s
  proof -
    obtain p w1 s1 where run: "h r w s = (p, w1, s1)" by (metis prod_cases3)
    from run show ?thesis
      by (cases p) (auto simp: withRecovery_def runtime_more_frame intro: does_then [OF h [OF run]] h [OF run])
  qed
  then show "performs (withRecovery h)" by (simp add: performs_def)
  have "does s (snd (snd (withLogging h r w s)))" for r w s
  proof -
    obtain p w2 s2 where run: "h r (push_recorder w) (snd (time_Now s)) = (p, w2, s2)"
      by (metis prod_cases3)
    have "does s s2" using h [OF run] runtime_more_frame(1) [of s] by (simp add: does_after)
    then show ?thesis using run runtime_more_frame(1) [of s2]
      by (cases p) (auto simp: withLogging_def runtime_more_frame split_beta intro: does_then)
  qed
  then show "performs (withLogging h)" by (simp add: performs_def)
qed

lemma performs_NewHandler:
  assumes "op_does (ListProviders repo)" and "\<And>i. op_does (GetProvider repo i)"
    and "\<And>i. op_does (EnableProvider repo i)" and "\<And>i. op_does (DisableProvider repo i)"
    and "\<And>i vs. distinct (map fst vs) \<Longrightarrow> op_does (SetCredentials credentials i vs)"
    and "\<And>i. op_does (GetCredentialPresence credentials i)"
    and "\<And>i. op_does (DeleteCredentials credentials i)"
    and "\<And>i. op_does (GetUsage getter i)" and "\<And>i. op_does (RefreshUsage refresher i)"
  shows "performs (NewHandler repo credentials getter refresher)"
proof -
  have "performs (ServeMux (api_routes repo credentials getter refresher))"
    by (rule performs_ServeMux)
      (simp add: api_routes_def any_method_def performs_providers [OF assms(1-4)]
        performs_credentials [OF assms(5-7)] performs_usage [OF assms(8)]
        performs_refresh [OF assms(9)] performs_notFound)
  then show ?thesis by (simp add: NewHandler_def chain_three performs_middleware)
qed

lemma performs_server:
  assumes "performs (NewHandler repo credentials getter refresher)"
  shows "performs (server_New ui spec repo credentials getter refresher)"
proof -
  have "performs handleHealthz" "performs (HandleUI ui)" "performs (HandleSpec spec)"
    by (auto simp: performs_def handleHealthz_def HandleUI_def HandleSpec_def Let_def
        runtime_more_frame intro: does_same split: prod.split)
  with assms show ?thesis
    unfolding server_New_def
    by (intro performs_ServeMux) (simp add: server_routes_def any_method_def)
qed

end

end
