(* ===== verification/Dashboard.thy ===== *)
theory Dashboard
  imports Collector Cooldown
begin

text \<open>
  The abstract specification of the running service: what an outsider can tell about its state
  (\<open>view\<close>) and the only ways in which one request, one scheduled attempt or one restart may
  change it (\<open>effect\<close>). Routing, handlers, repositories, encryption and JSON are invisible
  here; the theory \<open>System\<close> proves that the code implements this machine. The invariant of
  the service is proved on this level.
\<close>

section \<open>The abstract state\<close>

record view =
  v_enabled :: "string \<Rightarrow> bool option"
  v_secret :: "string \<Rightarrow> string \<Rightarrow> bytes option"
  v_latest :: "string \<Rightarrow> snapshot result option"
  v_gate :: "string \<Rightarrow> cooldown_entry option"

definition view_of :: "'z host_scheme \<Rightarrow> view" where
  "view_of s = \<lparr>v_enabled = enabled_in s, v_secret = secret_in s, v_latest = latest_in s,
                v_gate = entries s\<rparr>"

text \<open>The catalog gives each provider its declared credential fields.\<close>

definition listed :: "metadata list \<Rightarrow> string \<Rightarrow> bool" where
  "listed cat p \<longleftrightarrow> p \<in> md_id ` set cat"

definition fields_of :: "metadata list \<Rightarrow> string \<Rightarrow> string set" where
  "fields_of cat p =
     (case find (\<lambda>m. md_id m = p) cat of None \<Rightarrow> {} | Some m \<Rightarrow> cf_name ` set (md_fields m))"

lemma fields_of_unlisted: "f \<in> fields_of cat p \<Longrightarrow> listed cat p"
  by (auto simp: fields_of_def listed_def find_Some_iff split: option.splits)

lemma catalog_simps:
  "service_metadata svc p = Some m \<Longrightarrow> listed (svc_registry svc) p"
  "service_metadata svc p = Some m \<Longrightarrow> fields_of (svc_registry svc) p = cf_name ` set (md_fields m)"
proof -
  show "service_metadata svc p = Some m \<Longrightarrow> listed (svc_registry svc) p"
    by (auto simp: listed_def dest: service_metadata_SomeD)
  show "service_metadata svc p = Some m \<Longrightarrow> fields_of (svc_registry svc) p = cf_name ` set (md_fields m)"
    by (simp add: service_metadata_def fields_of_def)
qed

definition complete :: "metadata list \<Rightarrow> bytes \<Rightarrow> (string \<Rightarrow> string \<Rightarrow> bytes option) \<Rightarrow> string \<Rightarrow> bool" where
  "complete cat key secret p \<longleftrightarrow> (\<forall>f \<in> fields_of cat p. opens_to key p f (secret p f) \<noteq> None)"

text \<open>A snapshot the service could have stored for \<open>p\<close> (or one that cannot be read back).\<close>

definition snapshot_for :: "string \<Rightarrow> snapshot result \<Rightarrow> bool" where
  "snapshot_for p r = (case r of Inl e \<Rightarrow> True
     | Inr sn \<Rightarrow> snap_provider_id sn = p \<and> snap_last_error sn = None \<and> zone (snap_collected_at sn) = 0)"

lemma kept_snapshot_for: "snapshot_for p (kept_snapshot p ms t)"
  by (simp add: snapshot_for_def kept_snapshot_def snapshot_of_row_def split: sum.split)

section \<open>What a step may do\<close>

text \<open>
  A provider of the catalog is switched; its credentials are written field by field (with the
  gate lifted only when all of them are there); they are erased; it is collected, which needs it
  enabled with all credentials; an authentication failure of an attempt under the same
  conditions gates it one failure further; or the process restarts, which forgets the gates and
  adds missing rows, disabled.
\<close>

inductive effect :: "metadata list \<Rightarrow> bytes \<Rightarrow> view \<Rightarrow> view \<Rightarrow> bool" for cat key where
  idle: "effect cat key v v"
| switched: "listed cat p \<Longrightarrow> v_enabled v p \<noteq> None \<Longrightarrow>
    effect cat key v (v\<lparr>v_enabled := (v_enabled v)(p \<mapsto> b)\<rparr>)"
| stored: "listed cat p \<Longrightarrow>
    (\<And>q f. q \<noteq> p \<or> f \<notin> fields_of cat p \<Longrightarrow> secret' q f = v_secret v q f) \<Longrightarrow>
    (\<And>f. f \<in> fields_of cat p \<Longrightarrow> secret' p f = v_secret v p f \<or> opens_to key p f (secret' p f) \<noteq> None) \<Longrightarrow>
    gate' = v_gate v \<or> gate' = (v_gate v)(p := None) \<and> complete cat key secret' p \<Longrightarrow>
    effect cat key v (v\<lparr>v_secret := secret', v_gate := gate'\<rparr>)"
| erased: "listed cat p \<Longrightarrow> effect cat key v (v\<lparr>v_secret := (v_secret v)(p := (\<lambda>_. None))\<rparr>)"
| collected: "listed cat p \<Longrightarrow> v_enabled v p = Some True \<Longrightarrow> complete cat key (v_secret v) p \<Longrightarrow>
    snapshot_for p r \<Longrightarrow> gate' \<in> {v_gate v, (v_gate v)(p := None)} \<Longrightarrow>
    effect cat key v (v\<lparr>v_latest := (v_latest v)(p \<mapsto> r), v_gate := gate'\<rparr>)"
| gated: "listed cat p \<Longrightarrow> v_enabled v p = Some True \<Longrightarrow> complete cat key (v_secret v) p \<Longrightarrow>
    failures e = (case v_gate v p of None \<Rightarrow> 1 | Some e0 \<Rightarrow> failures e0 + 1) \<Longrightarrow>
    effect cat key v (v\<lparr>v_gate := (v_gate v)(p \<mapsto> e)\<rparr>)"
| restarted: "ids \<subseteq> md_id ` set cat \<Longrightarrow>
    effect cat key v (v\<lparr>v_enabled := ensure_rows ids (v_enabled v), v_gate := (\<lambda>_. None)\<rparr>)"

section \<open>The invariant\<close>

text \<open>
  Every provider of the catalog has its row; every stored credential belongs to a declared field
  of a catalog provider and opens under the master key; snapshots and gates exist for catalog
  providers only, and a snapshot carries its own provider's id, a UTC time and no error.
\<close>

definition secure :: "metadata list \<Rightarrow> bytes \<Rightarrow> view \<Rightarrow> bool" where
  "secure cat key v \<longleftrightarrow>
     (\<forall>p. listed cat p \<longrightarrow> v_enabled v p \<noteq> None) \<and>
     (\<forall>p f. v_secret v p f \<noteq> None \<longrightarrow>
        f \<in> fields_of cat p \<and> opens_to key p f (v_secret v p f) \<noteq> None) \<and>
     (\<forall>p r. v_latest v p = Some r \<longrightarrow> listed cat p \<and> snapshot_for p r) \<and>
     (\<forall>p. v_gate v p \<noteq> None \<longrightarrow> listed cat p)"

lemma secure_intro:
  assumes "\<And>p. listed cat p \<Longrightarrow> v_enabled v p \<noteq> None"
    and "\<And>p f. v_secret v p f \<noteq> None \<Longrightarrow>
      f \<in> fields_of cat p \<and> opens_to key p f (v_secret v p f) \<noteq> None"
    and "\<And>p r. v_latest v p = Some r \<Longrightarrow> listed cat p \<and> snapshot_for p r"
    and "\<And>p. v_gate v p \<noteq> None \<Longrightarrow> listed cat p"
  shows "secure cat key v"
  using assms unfolding secure_def by blast

lemma secureD:
  assumes "secure cat key v"
  shows "listed cat p \<Longrightarrow> v_enabled v p \<noteq> None"
    and "v_secret v p f \<noteq> None \<Longrightarrow> f \<in> fields_of cat p"
    and "v_secret v p f \<noteq> None \<Longrightarrow> opens_to key p f (v_secret v p f) \<noteq> None"
    and "v_latest v p = Some r \<Longrightarrow> listed cat p \<and> snapshot_for p r"
    and "v_gate v p \<noteq> None \<Longrightarrow> listed cat p"
  using assms unfolding secure_def by blast+

lemma secure_write:
  assumes "secure cat key v" and "listed cat p"
    and other: "\<And>q f. q \<noteq> p \<or> f \<notin> fields_of cat p \<Longrightarrow> secret' q f = v_secret v q f"
    and mine: "\<And>f. f \<in> fields_of cat p \<Longrightarrow>
      secret' p f = v_secret v p f \<or> opens_to key p f (secret' p f) \<noteq> None"
    and gate: "gate' = v_gate v \<or> gate' = (v_gate v)(p := None)"
  shows "secure cat key (v\<lparr>v_secret := secret', v_gate := gate'\<rparr>)"
proof (rule secure_intro)
  note inv = secureD [OF assms(1)]
  show "f \<in> fields_of cat q \<and> opens_to key q f (v_secret (v\<lparr>v_secret := secret', v_gate := gate'\<rparr>) q f) \<noteq> None"
    if "v_secret (v\<lparr>v_secret := secret', v_gate := gate'\<rparr>) q f \<noteq> None" for q f
  proof (cases "q \<noteq> p \<or> f \<notin> fields_of cat p")
    case True
    with that inv(2,3) [of q f] other [of q f] show ?thesis by simp
  next
    case False
    with that inv(3) [of p f] mine [of f] show ?thesis by auto
  qed
qed (use secureD [OF assms(1)] gate in \<open>auto split: if_splits\<close>)

lemma effect_secure:
  assumes "effect cat key v v'" and "secure cat key v"
  shows "secure cat key v'"
  using assms(1)
proof (cases rule: effect.cases)
  case idle
  with assms(2) show ?thesis by simp
next
  case (stored p secret' gate')
  show ?thesis unfolding stored(1) by (rule secure_write [OF assms(2) stored(2-4)]) (use stored(5) in auto)
next
  case (restarted ids)
  with assms(2) show ?thesis by (auto simp: secure_def ensure_rows_def)
qed (use assms(2) in \<open>auto simp: secure_def split: if_splits\<close>)

lemma effects_secure: "(effect cat key)\<^sup>*\<^sup>* v v' \<Longrightarrow> secure cat key v \<Longrightarrow> secure cat key v'"
  by (induction rule: rtranclp_induct) (auto intro: effect_secure)

text \<open>What changes a provider's row, credentials and snapshot.\<close>

inductive_cases effect_cases: "effect cat key v v'"

lemma effect_keeps_rows: "effect cat key v v' \<Longrightarrow> v_enabled v p \<noteq> None \<Longrightarrow> v_enabled v' p \<noteq> None"
  by (elim effect_cases) (auto simp: ensure_rows_def)

lemma effect_collects_enabled:
  "effect cat key v v' \<Longrightarrow> v_latest v' p \<noteq> v_latest v p \<Longrightarrow>
     v_enabled v p = Some True \<and> complete cat key (v_secret v) p"
  by (elim effect_cases) (auto split: if_splits)

end
