(* ===== verification/Minimax.thy ===== *)
theory Minimax
  imports Provider Rfc3339
begin

text \<open>
  \<^verbatim>\<open>internal/plugins/minimax/minimax.go\<close>: the one live fetcher. The HTTP client
  is an interface value; \<open>minimax_New\<close> uses the runtime's transport. Both constructors fix the
  endpoint to a constant URL, so building the request cannot fail and that branch of the source
  is dead. Closing and draining the body has no visible effect.
\<close>

section \<open>The plugin\<close>

definition subscriptionKeyCredential :: string where
  "subscriptionKeyCredential = ''subscription_key''"

definition endpointURL :: string where
  "endpointURL = ''https://www.minimax.io/v1/token_plan/remains''"

definition Metadata :: metadata where
  "Metadata =
     \<lparr>md_id = ''minimax'', md_name = ''Minimax'',
      md_fields = [\<lparr>cf_name = subscriptionKeyCredential, cf_label = ''Subscription Key'',
                    cf_secret = True\<rparr>]\<rparr>"

type_synonym http_doer = "http_request \<Rightarrow> runtime \<Rightarrow> http_response result \<times> runtime"

record minimax_fetcher =
  mm_meta :: metadata
  mm_client :: http_doer
  mm_endpoint :: string

text \<open>The response payload.\<close>

record windowQuota =
  Remains :: "int64 option"
  Limit :: "int64 option"
  ResetAt :: "gotime option"

record baseResp =
  StatusCode :: int64
  StatusMsg :: string

record quota_data =
  Current5h :: windowQuota
  CurrentWeek :: windowQuota

record response =
  BaseResp :: baseResp
  Data :: quota_data

definition zero_window :: windowQuota where
  "zero_window = \<lparr>Remains = None, Limit = None, ResetAt = None\<rparr>"

definition zero_response :: response where
  "zero_response =
     \<lparr>BaseResp = \<lparr>StatusCode = 0, StatusMsg = []\<rparr>,
      Data = \<lparr>Current5h = zero_window, CurrentWeek = zero_window\<rparr>\<rparr>"

definition dec_windowQuota :: "windowQuota decoder" where
  "dec_windowQuota = dec_struct [''remains'', ''limit'', ''reset_at'']
     (\<lambda>n v w. if n = ''remains'' then
                 map_option (\<lambda>x. w\<lparr>Remains := x\<rparr>) (dec_pointer 0 dec_int64 v (Remains w))
               else if n = ''limit'' then
                 map_option (\<lambda>x. w\<lparr>Limit := x\<rparr>) (dec_pointer 0 dec_int64 v (Limit w))
               else map_option (\<lambda>x. w\<lparr>ResetAt := x\<rparr>) (dec_pointer time_Zero dec_time v (ResetAt w)))"

definition dec_baseResp :: "baseResp decoder" where
  "dec_baseResp = dec_struct [''status_code'', ''status_msg'']
     (\<lambda>n v b. if n = ''status_code'' then
                 map_option (\<lambda>x. b\<lparr>StatusCode := x\<rparr>) (dec_int64 v (StatusCode b))
               else map_option (\<lambda>x. b\<lparr>StatusMsg := x\<rparr>) (dec_string v (StatusMsg b)))"

definition dec_data :: "quota_data decoder" where
  "dec_data = dec_struct [''current_5h'', ''current_week'']
     (\<lambda>n v d. if n = ''current_5h'' then
                 map_option (\<lambda>x. d\<lparr>Current5h := x\<rparr>) (dec_windowQuota v (Current5h d))
               else map_option (\<lambda>x. d\<lparr>CurrentWeek := x\<rparr>) (dec_windowQuota v (CurrentWeek d)))"

definition dec_response :: "response decoder" where
  "dec_response = dec_struct [''base_resp'', ''data'']
     (\<lambda>n v r. if n = ''base_resp'' then
                 map_option (\<lambda>x. r\<lparr>BaseResp := x\<rparr>) (dec_baseResp v (BaseResp r))
               else map_option (\<lambda>x. r\<lparr>Data := x\<rparr>) (dec_data v (Data r)))"

section \<open>From a window to a metric\<close>

definition isAuthError :: "int64 \<Rightarrow> bool" where
  "isAuthError statusCode \<longleftrightarrow> 1000 \<le> sint statusCode \<and> sint statusCode < 2000"

definition nilToNil :: "int64 option \<Rightarrow> int64 option" where
  "nilToNil p = (case p of None \<Rightarrow> None | Some v \<Rightarrow> Some v)"

definition nilToNilTime :: "gotime option \<Rightarrow> gotime \<Rightarrow> gotime option" where
  "nilToNilTime p now =
     (case p of
        None \<Rightarrow> None
      | Some u \<Rightarrow> (let t = time_UTC u in if \<not> time_After t now then None else Some t))"

definition toMetric :: "windowQuota \<Rightarrow> string \<Rightarrow> string \<Rightarrow> gotime \<Rightarrow> usage_metric result" where
  "toMetric w name window now =
     (if Remains w = None \<and> Limit w = None
      then Inl (ErrorString ''missing both remains and limit'')
      else let limit = (case Limit w of None \<Rightarrow> 0 | Some v \<Rightarrow> v);
               remaining = (case Remains w of None \<Rightarrow> 0 | Some v \<Rightarrow> v);
               used = limit - remaining;
               used = (if sint used < 0 then 0 else used)
           in Inr \<lparr>um_name = name, um_window = window, um_unit = ''prompts'', um_used = used,
                   um_limit = nilToNil (Limit w), um_remaining = nilToNil (Remains w),
                   um_reset_at = nilToNilTime (ResetAt w) now\<rparr>)"

definition truncate_body :: "bytes \<Rightarrow> nat \<Rightarrow> string" where
  "truncate_body b maxBytes =
     (if length b \<le> maxBytes then string_of_bytes b
      else string_of_bytes (take maxBytes b) @ ''...'')"

section \<open>Fetching\<close>

text \<open>What the decoded payload becomes: the base envelope's error, or the two metrics.\<close>

definition minimax_metrics :: "response \<Rightarrow> runtime \<Rightarrow> usage_metric list result \<times> runtime" where
  "minimax_metrics payload s =
     (let code = StatusCode (BaseResp payload); msg = StatusMsg (BaseResp payload)
      in if code \<noteq> 0 then
           (if isAuthError code
            then (Inl (Wrap (''minimax: authentication failed (status_code '' @
                         string_of_int (sint code) @ '': '' @ msg @ '')'') (Sentinel ErrAuth)), s)
            else (Inl (ErrorString (''minimax: upstream error status_code '' @
                         string_of_int (sint code) @ '': '' @ msg)), s))
         else case time_Now s of (t, s1) \<Rightarrow>
           let now = time_UTC t
           in case toMetric (Current5h (Data payload)) ''token_plan_5h'' ''5h'' now of
                Inl e \<Rightarrow> (Inl (Wrap ''minimax: 5h window'' e), s1)
              | Inr fiveHour \<Rightarrow>
                  (case toMetric (CurrentWeek (Data payload)) ''token_plan_weekly'' ''week'' now of
                     Inl e \<Rightarrow> (Inl (Wrap ''minimax: weekly window'' e), s1)
                   | Inr weekly \<Rightarrow> (Inr [fiveHour, weekly], s1)))"

definition minimax_FetchUsage ::
    "minimax_fetcher \<Rightarrow> creds \<Rightarrow> runtime \<Rightarrow> usage_metric list result \<times> runtime" where
  "minimax_FetchUsage f cr s =
     (let key = (case cr subscriptionKeyCredential of None \<Rightarrow> [] | Some k \<Rightarrow> k)
      in if key = [] then
           (Inl (ErrorString (''minimax: missing '' @ quoted subscriptionKeyCredential @
              '' credential'')), s)
         else
           let req = \<lparr>req_method = ''GET'', req_url = mm_endpoint f,
                      req_headers = [(''Authorization'', ''Bearer '' @ key),
                                     (''Content-Type'', ''application/json'')]\<rparr>
           in case mm_client f req s of
                (Inl e, s1) \<Rightarrow> (Inl (Wrap ''minimax: request'' e), s1)
              | (Inr resp, s1) \<Rightarrow>
                  (case resp_body resp of
                     Inl m \<Rightarrow> (Inl (Wrap ''minimax: read body'' (ErrorString m)), s1)
                   | Inr body \<Rightarrow>
                       let status = resp_status resp
                       in if status = 401 \<or> status = 403 then
                            (Inl (Wrap (''minimax: authentication failed (status '' @
                               string_of_int status @ '')'') (Sentinel ErrAuth)), s1)
                          else if status < 200 \<or> 300 \<le> status then
                            (Inl (ErrorString (''minimax: unexpected status '' @
                               string_of_int status @ '': '' @ truncate_body body 256)), s1)
                          else case decode_all dec_response zero_response (string_of_bytes body) of
                            Inl e \<Rightarrow> (Inl (Wrap ''minimax: parse response'' e), s1)
                          | Inr payload \<Rightarrow> minimax_metrics payload s1))"

definition NewWithClient :: "http_doer \<Rightarrow> fetcher" where
  "NewWithClient client =
     (let f = \<lparr>mm_meta = Metadata, mm_client = client, mm_endpoint = endpointURL\<rparr>
      in \<lparr>ft_Metadata = mm_meta f, ft_FetchUsage = minimax_FetchUsage f\<rparr>)"

definition minimax_New :: fetcher where
  "minimax_New = NewWithClient http_Do"

section \<open>Windows\<close>

lemma nilToNil_id [simp]: "nilToNil p = p"
  by (simp add: nilToNil_def split: option.split)

lemma nilToNilTime_eq:
  "nilToNilTime p now =
     (case p of None \<Rightarrow> None
      | Some t \<Rightarrow> if instant t \<le> instant now then None else Some (time_UTC t))"
  by (auto simp: nilToNilTime_def time_After_def Let_def split: option.split)

text \<open>A missing count is read as zero.\<close>

definition count_of :: "int64 option \<Rightarrow> int" where
  "count_of p = (case p of None \<Rightarrow> 0 | Some v \<Rightarrow> sint v)"

text \<open>
  C33: What one quota window becomes: an error exactly when it has neither count; otherwise the
  limit and the remaining count as they were sent, a reset time only if it lies in the future,
  and in UTC, and as used count the 64-bit difference of both, zero if that is negative. So the
  used count is never negative, equals \<open>max 0 (limit - remaining)\<close> for all counts whose
  difference fits 64 bits, is 0 when the difference is too large, and is a large positive
  number in the one case that the difference underflows.
\<close>
theorem toMetric_correct:
  "case toMetric w name window now of
     Inl e \<Rightarrow> Remains w = None \<and> Limit w = None \<and> opaque e
   | Inr m \<Rightarrow>
       \<not> (Remains w = None \<and> Limit w = None) \<and>
       um_name m = name \<and> um_window m = window \<and> um_unit m = ''prompts'' \<and>
       um_limit m = Limit w \<and> um_remaining m = Remains w \<and>
       um_reset_at m =
         (case ResetAt w of None \<Rightarrow> None
          | Some t \<Rightarrow> if instant t \<le> instant now then None else Some (time_UTC t)) \<and>
       0 \<le> sint (um_used m) \<and>
       sint (um_used m) =
         (let d = count_of (Limit w) - count_of (Remains w)
          in if d < - (2 ^ 63) then d + 2 ^ 64 else if d < 2 ^ 63 then max 0 d else 0)"
proof (cases "Remains w = None \<and> Limit w = None")
  case True
  then show ?thesis by (simp add: toMetric_def)
next
  case False
  let ?limit = "case Limit w of None \<Rightarrow> 0 | Some v \<Rightarrow> v"
  let ?remaining = "case Remains w of None \<Rightarrow> 0 | Some v \<Rightarrow> v"
  have d: "sint ?limit = count_of (Limit w)" "sint ?remaining = count_of (Remains w)"
    by (simp_all add: count_of_def split: option.split)
  have diff: "sint (?limit - ?remaining) = wrap64 (count_of (Limit w) - count_of (Remains w))"
    by (simp only: sint_int64_diff d)
  have bound: "- (2 ^ 64) \<le> count_of (Limit w) - count_of (Remains w)
      \<and> count_of (Limit w) - count_of (Remains w) < 2 ^ 64"
    using sint_bounds [of ?limit] sint_bounds [of ?remaining] unfolding d by simp
  have used: "sint (if sint (?limit - ?remaining) < 0 then 0 else ?limit - ?remaining)
      = max 0 (wrap64 (count_of (Limit w) - count_of (Remains w)))"
    by (simp add: diff max_def)
  have "toMetric w name window now = Inr \<lparr>um_name = name, um_window = window, um_unit = ''prompts'',
      um_used = (if sint (?limit - ?remaining) < 0 then 0 else ?limit - ?remaining),
      um_limit = Limit w, um_remaining = Remains w, um_reset_at = nilToNilTime (ResetAt w) now\<rparr>"
    using False by (simp add: toMetric_def Let_def)
  then show ?thesis using False used bound
    by (simp add: nilToNilTime_eq wrap64_def Let_def max_def)
qed

text \<open>
  A window that discloses its limit but not what remains is reported as used up: the used
  count equals the limit, while the remaining count is reported as unknown.
\<close>
theorem toMetric_unknown_remaining:
  assumes "Remains w = None" and "Limit w = Some v" and "0 \<le> sint v"
  shows "\<exists>m. toMetric w name window now = Inr m \<and> um_used m = v \<and> um_remaining m = None"
  using assms by (simp add: toMetric_def Let_def)

theorem toMetric_unknown_remaining_witness:
  "\<exists>m. toMetric \<lparr>Remains = None, Limit = Some 100, ResetAt = None\<rparr> ''w'' ''5h''
     \<lparr>instant = 0, zone = 0\<rparr> = Inr m \<and> um_used m = 100"
  using toMetric_unknown_remaining [of "\<lparr>Remains = None, Limit = Some 100, ResetAt = None\<rparr>" 100
      "''w''" "''5h''" "\<lparr>instant = 0, zone = 0\<rparr>"]
  by auto

section \<open>A fetch\<close>

definition usage_request :: "string \<Rightarrow> http_request" where
  "usage_request key =
     \<lparr>req_method = ''GET'', req_url = endpointURL,
      req_headers = [(''Authorization'', ''Bearer '' @ key), (''Content-Type'', ''application/json'')]\<rparr>"

text \<open>The key that is sent, if there is one, and the response that the next request gets.\<close>

definition sent_key :: "creds \<Rightarrow> string option" where
  "sent_key cr =
     (case cr subscriptionKeyCredential of
        None \<Rightarrow> None | Some k \<Rightarrow> if k = [] then None else Some k)"

definition next_response :: "creds \<Rightarrow> runtime \<Rightarrow> (int \<times> bytes) option" where
  "next_response cr s =
     (case sent_key cr of
        None \<Rightarrow> None
      | Some k \<Rightarrow>
          (case rt_net s 0 (usage_request k) of
             Inl m \<Rightarrow> None
           | Inr resp \<Rightarrow>
               (case resp_body resp of Inl m \<Rightarrow> None | Inr body \<Rightarrow> Some (resp_status resp, body))))"

definition decoded :: "bytes \<Rightarrow> response result" where
  "decoded body = decode_all dec_response zero_response (string_of_bytes body)"

definition after_request :: "runtime \<Rightarrow> runtime" where
  "after_request s = s\<lparr>rt_net := advance (rt_net s)\<rparr>"

lemma decoded_opaque: "decoded body = Inl e \<Longrightarrow> opaque e"
  by (auto simp: decoded_def decode_all_def json_error_def split: option.splits)

lemma minimax_FetchUsage_eq:
  "ft_FetchUsage minimax_New cr s =
     (case sent_key cr of
        None \<Rightarrow> (Inl (ErrorString (''minimax: missing '' @ quoted subscriptionKeyCredential @
                   '' credential'')), s)
      | Some k \<Rightarrow>
          (case next_response cr s of
             None \<Rightarrow>
               (case rt_net s 0 (usage_request k) of
                  Inl m \<Rightarrow> (Inl (Wrap ''minimax: request'' (ErrorString m)), after_request s)
                | Inr resp \<Rightarrow>
                    (Inl (Wrap ''minimax: read body'' (ErrorString (projl (resp_body resp)))),
                     after_request s))
           | Some (status, body) \<Rightarrow>
               if status = 401 \<or> status = 403 then
                 (Inl (Wrap (''minimax: authentication failed (status '' @
                    string_of_int status @ '')'') (Sentinel ErrAuth)), after_request s)
               else if status < 200 \<or> 300 \<le> status then
                 (Inl (ErrorString (''minimax: unexpected status '' @
                    string_of_int status @ '': '' @ truncate_body body 256)), after_request s)
               else (case decoded body of
                       Inl e \<Rightarrow> (Inl (Wrap ''minimax: parse response'' e), after_request s)
                     | Inr payload \<Rightarrow> minimax_metrics payload (after_request s))))"
  by (auto simp: minimax_New_def NewWithClient_def minimax_FetchUsage_def http_Do_def sent_key_def
      next_response_def usage_request_def after_request_def decoded_def Let_def
      split: option.splits sum.splits)

lemma toMetric_opaque: "toMetric w n win now = Inl e \<Longrightarrow> opaque e"
  by (auto simp: toMetric_def Let_def split: if_splits)

lemma minimax_metrics_auth:
  "(\<exists>e. fst (minimax_metrics payload s) = Inl e \<and> errors_is e ErrAuth) \<longleftrightarrow>
   isAuthError (StatusCode (BaseResp payload))"
proof (cases "StatusCode (BaseResp payload) = 0")
  case True
  then show ?thesis
    by (auto simp: minimax_metrics_def isAuthError_def time_Now_def Let_def
        dest!: toMetric_opaque split: sum.splits)
next
  case False
  then show ?thesis by (simp add: minimax_metrics_def Let_def)
qed

text \<open>
  C32: A fetch reports an authentication failure in exactly two cases: the endpoint answered
  with HTTP status 401 or 403, or it answered with a 2xx status and a body that decodes to a
  base envelope whose code is in 1000..1999. No other failure (no key, no connection, a broken
  body, another status, an undecodable body, another code, a window without counts) is taken
  for one, so none of them engages the backoff.
\<close>
theorem minimax_auth_failure:
  "(\<exists>e. fst (ft_FetchUsage minimax_New cr s) = Inl e \<and> errors_is e ErrAuth) \<longleftrightarrow>
   (\<exists>status body. next_response cr s = Some (status, body) \<and>
      (status = 401 \<or> status = 403 \<or>
       200 \<le> status \<and> status < 300 \<and>
       (\<exists>payload. decoded body = Inr payload \<and> 1000 \<le> sint (StatusCode (BaseResp payload)) \<and>
          sint (StatusCode (BaseResp payload)) < 2000)))"
proof (cases "next_response cr s")
  case None
  then show ?thesis
    by (auto simp: minimax_FetchUsage_eq split: option.splits sum.splits)
next
  case (Some sb)
  obtain status body where sb: "sb = (status, body)" by fastforce
  obtain k where k: "sent_key cr = Some k"
    using Some by (auto simp: next_response_def split: option.splits)
  consider (denied) "status = 401 \<or> status = 403"
    | (other) "\<not> (status = 401 \<or> status = 403)" "status < 200 \<or> 300 \<le> status"
    | (good) "200 \<le> status" "status < 300" by linarith
  then show ?thesis
  proof cases
    case good
    then show ?thesis
    proof (cases "decoded body")
      case (Inl e)
      with good Some sb k decoded_opaque [OF Inl] show ?thesis
        by (auto simp: minimax_FetchUsage_eq)
    next
      case (Inr payload)
      with good Some sb k minimax_metrics_auth [of payload "after_request s"] show ?thesis
        by (simp add: minimax_FetchUsage_eq isAuthError_def)
    qed
  qed (use Some sb k in \<open>auto simp: minimax_FetchUsage_eq\<close>)
qed

lemma minimax_metrics_InrE:
  assumes "minimax_metrics payload s = (Inr ms, s')"
  obtains m1 m2 where "StatusCode (BaseResp payload) = 0" and "ms = [m1, m2]"
    and "toMetric (Current5h (Data payload)) ''token_plan_5h'' ''5h'' (time_UTC (rt_clock s 0)) = Inr m1"
    and "toMetric (CurrentWeek (Data payload)) ''token_plan_weekly'' ''week''
      (time_UTC (rt_clock s 0)) = Inr m2"
    and "s' = s\<lparr>rt_clock := advance (rt_clock s)\<rparr>"
  using assms
  by (auto simp: minimax_metrics_def time_Now_def Let_def split: if_splits sum.splits)

text \<open>
  A fetch that succeeds got a 2xx response whose body decodes to an envelope with code 0,
  and returns exactly the two metrics of its 5-hour and weekly windows, in this order, as
  \<open>toMetric\<close> makes them at the time read after the response.
\<close>
theorem minimax_success:
  assumes "ft_FetchUsage minimax_New cr s = (Inr ms, s')"
  shows "\<exists>status body payload m1 m2.
    next_response cr s = Some (status, body) \<and> 200 \<le> status \<and> status < 300 \<and>
    decoded body = Inr payload \<and> StatusCode (BaseResp payload) = 0 \<and> ms = [m1, m2] \<and>
    toMetric (Current5h (Data payload)) ''token_plan_5h'' ''5h'' (time_UTC (rt_clock s 0)) = Inr m1 \<and>
    toMetric (CurrentWeek (Data payload)) ''token_plan_weekly'' ''week'' (time_UTC (rt_clock s 0)) = Inr m2"
proof -
  from assms obtain status body payload where resp: "next_response cr s = Some (status, body)"
    "200 \<le> status" "status < 300" "decoded body = Inr payload"
    and metrics: "minimax_metrics payload (after_request s) = (Inr ms, s')"
    by (auto simp: minimax_FetchUsage_eq split: option.splits sum.splits prod.splits if_splits)
  from metrics show ?thesis
    by (rule minimax_metrics_InrE) (use resp in \<open>auto simp: after_request_def\<close>)
qed

lemma minimax_metrics_net:
  "fst (minimax_metrics payload (u\<lparr>rt_net := net\<rparr>)) = fst (minimax_metrics payload u)"
  "rt_net (snd (minimax_metrics payload u)) = rt_net u"
  "rt_rand (snd (minimax_metrics payload u)) = rt_rand u"
  "rt_ctx (snd (minimax_metrics payload u)) = rt_ctx u"
  "rt_log (snd (minimax_metrics payload u)) = rt_log u"
  by (simp_all add: minimax_metrics_def time_Now_def Let_def split: sum.split)

lemma after_request_net: "after_request (s\<lparr>rt_net := net\<rparr>) = s\<lparr>rt_net := advance net\<rparr>"
  by (simp add: after_request_def)

text \<open>
  C34: What a fetch does to the outside. Without a key it makes no request and changes nothing.
  With one it makes exactly one request, and that is the documented one, with the key in the
  Authorization header and nowhere else: when just this request is refused the fetch reports
  exactly this refusal, and whatever the network would answer to any other request, or later,
  makes no difference to the result. It draws no randomness, looks at no cancellation of its own
  and logs nothing, so no key reaches the log.
\<close>
theorem minimax_effects:
  "let key = (case cr ''subscription_key'' of None \<Rightarrow> [] | Some k \<Rightarrow> k);
       req = \<lparr>req_method = ''GET'', req_url = ''https://www.minimax.io/v1/token_plan/remains'',
              req_headers = [(''Authorization'', ''Bearer '' @ key), (''Content-Type'', ''application/json'')]\<rparr>;
       run = (\<lambda>net. ft_FetchUsage minimax_New cr (s\<lparr>rt_net := net\<rparr>))
   in (if key = [] then \<forall>net. snd (run net) = s\<lparr>rt_net := net\<rparr> \<and> (\<exists>m. fst (run net) = Inl (ErrorString m))
       else (\<forall>net. rt_net (snd (run net)) = advance net) \<and>
         (\<forall>m other. fst (run (\<lambda>i q. if i = 0 \<and> q = req then Inl m else other i q)) =
            Inl (Wrap ''minimax: request'' (ErrorString m))) \<and>
         (\<forall>net other. fst (run (\<lambda>i q. if i = 0 \<and> q = req then net i q else other i q)) = fst (run net))) \<and>
      (\<forall>net. rt_rand (snd (run net)) = rt_rand s \<and> rt_ctx (snd (run net)) = rt_ctx s \<and>
         rt_log (snd (run net)) = rt_log s)"
proof (cases "sent_key cr")
  case None
  then have "(case cr ''subscription_key'' of None \<Rightarrow> [] | Some k \<Rightarrow> k) = []"
    by (auto simp: sent_key_def subscriptionKeyCredential_def split: option.splits if_splits)
  with None show ?thesis by (simp add: minimax_FetchUsage_eq Let_def)
next
  case (Some k)
  then have key: "(case cr ''subscription_key'' of None \<Rightarrow> [] | Some k \<Rightarrow> k) = k" "k \<noteq> []"
    by (auto simp: sent_key_def subscriptionKeyCredential_def split: option.splits if_splits)
  have req: "usage_request k = \<lparr>req_method = ''GET'', req_url = ''https://www.minimax.io/v1/token_plan/remains'',
      req_headers = [(''Authorization'', ''Bearer '' @ k), (''Content-Type'', ''application/json'')]\<rparr>"
    by (simp add: usage_request_def endpointURL_def)
  show ?thesis
    unfolding Let_def key(1) if_not_P [OF key(2)] req [symmetric] minimax_FetchUsage_eq Some option.case
      next_response_def after_request_net
    by (auto simp: minimax_metrics_net split: sum.split prod.split)
qed

section \<open>A concrete exchange\<close>

definition demo_reply :: json where
  "demo_reply = JObj
     [(''base_resp'', JObj [(''status_code'', json_of_int64 0)]),
      (''data'', JObj
        [(''current_5h'', JObj [(''remains'', json_of_int64 3), (''limit'', json_of_int64 8)]),
         (''current_week'', JObj [(''remains'', json_of_int64 30), (''limit'', json_of_int64 80)])])]"

lemma demo_names:
  "field_match [''base_resp'', ''data''] (unquote ''base_resp'') = Some ''base_resp''"
  "field_match [''base_resp'', ''data''] (unquote ''data'') = Some ''data''"
  "field_match [''status_code'', ''status_msg''] (unquote ''status_code'') = Some ''status_code''"
  "field_match [''current_5h'', ''current_week''] (unquote ''current_5h'') = Some ''current_5h''"
  "field_match [''current_5h'', ''current_week''] (unquote ''current_week'') = Some ''current_week''"
  "field_match [''remains'', ''limit'', ''reset_at''] (unquote ''remains'') = Some ''remains''"
  "field_match [''remains'', ''limit'', ''reset_at''] (unquote ''limit'') = Some ''limit''"
  by code_simp+

definition demo_response :: response where
  "demo_response =
     \<lparr>BaseResp = \<lparr>StatusCode = 0, StatusMsg = []\<rparr>,
      Data = \<lparr>Current5h = \<lparr>Remains = Some 3, Limit = Some 8, ResetAt = None\<rparr>,
              CurrentWeek = \<lparr>Remains = Some 30, Limit = Some 80, ResetAt = None\<rparr>\<rparr>\<rparr>"

lemma dec_demo_reply: "dec_response demo_reply zero_response = Some demo_response"
proof -
  have ptr: "dec_pointer 0 dec_int64 (json_of_int64 x) None = Some (Some x)" for x
    by (simp add: dec_pointer_def json_of_int64_def)
  have num: "dec_int64 (json_of_int64 x) y = Some x" for x y
    by (simp add: json_of_int64_def)
  show ?thesis
    by (simp add: dec_response_def dec_baseResp_def dec_data_def dec_windowQuota_def demo_names ptr num
        demo_reply_def demo_response_def zero_response_def zero_window_def)
qed

lemma writable_demo_reply: "writable max_depth demo_reply"
proof -
  have "\<forall>k \<in> set [''base_resp'', ''data'', ''status_code'', ''current_5h'', ''current_week'',
      ''remains'', ''limit'']. json_quote k = k" by code_simp
  then have "k \<in> set [''base_resp'', ''data'', ''status_code'', ''current_5h'', ''current_week'',
      ''remains'', ''limit''] \<Longrightarrow> k \<in> range json_quote" for k by (metis range_eqI)
  then show ?thesis by (simp add: demo_reply_def json_of_int64_def max_depth_def)
qed

lemma decoded_demo_reply: "decoded (bytes_of_string (json_text demo_reply)) = Inr demo_response"
  by (simp add: decoded_def decode_all_def json_parse_text [OF writable_demo_reply] dec_demo_reply)

text \<open>A runtime whose network answers every request with this reply, and one that denies the key.\<close>

definition answering :: "int \<Rightarrow> runtime" where
  "answering status = calm_runtime\<lparr>rt_net := (\<lambda>i req.
     Inr \<lparr>resp_status = status, resp_body = Inr (bytes_of_string (json_text demo_reply))\<rparr>)\<rparr>"

definition demo_creds :: creds where
  "demo_creds = [subscriptionKeyCredential \<mapsto> ''k'']"

lemma demo_exchange:
  "next_response demo_creds (answering status) = Some (status, bytes_of_string (json_text demo_reply))"
  "sent_key demo_creds = Some ''k''"
  by (simp_all add: next_response_def sent_key_def demo_creds_def answering_def)

lemma demo_fetch:
  "\<exists>ms s'. ft_FetchUsage minimax_New demo_creds (answering 200) = (Inr ms, s')"
  by (simp add: minimax_FetchUsage_eq demo_exchange decoded_demo_reply minimax_metrics_def
      demo_response_def toMetric_def time_Now_def Let_def)

theorem minimax_success_witness:
  "\<exists>m1 m2 s'. ft_FetchUsage minimax_New demo_creds (answering 200) = (Inr [m1, m2], s') \<and>
     sint (um_used m1) = 5 \<and> sint (um_used m2) = 50"
proof -
  obtain ms s' where fetch: "ft_FetchUsage minimax_New demo_creds (answering 200) = (Inr ms, s')"
    using demo_fetch by blast
  from minimax_success [OF fetch] obtain status body payload m1 m2 where
    resp: "next_response demo_creds (answering 200) = Some (status, body)" "decoded body = Inr payload"
    and ms: "ms = [m1, m2]"
    "toMetric (Current5h (Data payload)) ''token_plan_5h'' ''5h''
       (time_UTC (rt_clock (answering 200) 0)) = Inr m1"
    "toMetric (CurrentWeek (Data payload)) ''token_plan_weekly'' ''week''
       (time_UTC (rt_clock (answering 200) 0)) = Inr m2"
    by auto
  from resp have "payload = demo_response" using decoded_demo_reply by (auto simp: demo_exchange)
  with ms fetch show ?thesis by (auto simp: demo_response_def toMetric_def Let_def)
qed

end
