(* ===== verification/Scheduler.thy ===== *)
theory Scheduler
  imports Collector Cooldown
begin

text \<open>
  The rest of \<^verbatim>\<open>internal/scheduler/scheduler.go\<close>: the background loop that polls
  every enabled provider. \<open>Run\<close> blocks in a \<^verbatim>\<open>select\<close> between cancellation and
  the ticker; the list of what it receives, in order, is its argument, and with an empty list it
  is still blocked. The per-provider timeout acts through the answers of the supplies.
\<close>

section \<open>The scheduler\<close>

record 's scheduler =
  sch_providers :: "'s provider_service"
  sch_collector :: "'s collector"
  pollInterval :: int64
  fetchTimeout :: int64
  sch_cooldown :: "cooldown_registry option"

definition scheduler_New ::
    "'s provider_service \<Rightarrow> 's collector \<Rightarrow> int64 \<Rightarrow> int64 \<Rightarrow> cooldown_registry option \<Rightarrow> 's scheduler" where
  "scheduler_New providers collector poll timeout cooldown =
     \<lparr>sch_providers = providers, sch_collector = collector, pollInterval = poll,
      fetchTimeout = timeout, sch_cooldown = cooldown\<rparr>"

definition collectOne ::
    "('z process_scheme) scheduler \<Rightarrow> string \<Rightarrow> 'z process_scheme \<Rightarrow> 'z process_scheme" where
  "collectOne sch providerID s =
     (case (case sch_cooldown sch of None \<Rightarrow> (False, s) | Some r \<Rightarrow> active providerID s) of
        (gated, s1) \<Rightarrow>
          if gated then
            slog Warn ''scheduler: provider is in auth-failure cooldown, skipping''
              [(''provider'', providerID)] s1
          else (case Collect (sch_collector sch) providerID s1 of
             (Inl e, s2) \<Rightarrow>
               if errors_is e ErrFetcherNotFound then
                 slog Warn ''scheduler: provider has no registered fetcher, skipping''
                   [(''provider'', providerID)] s2
               else if errors_is e ErrAuth then
                 slog Warn ''scheduler: provider authentication failed, engaging cooldown''
                   [(''provider'', providerID), (''error'', error_text e)]
                   (case sch_cooldown sch of None \<Rightarrow> s2 | Some r \<Rightarrow> recordFailure r providerID s2)
               else
                 slog Error ''scheduler: collect provider usage failed''
                   [(''provider'', providerID), (''error'', error_text e)] s2
           | (Inr _, s2) \<Rightarrow>
               (case sch_cooldown sch of None \<Rightarrow> s2 | Some r \<Rightarrow> Clear providerID s2)))"

fun tick_loop ::
    "('z process_scheme) scheduler \<Rightarrow> provider list \<Rightarrow> 'z process_scheme \<Rightarrow> 'z process_scheme" where
  "tick_loop sch [] s = s"
| "tick_loop sch (p # ps) s =
     (if \<not> p_enabled p then tick_loop sch ps s
      else case ctx_Err s of (cancelled, s1) \<Rightarrow>
        if cancelled then s1 else tick_loop sch ps (collectOne sch (md_id p) s1))"

definition tick :: "('z process_scheme) scheduler \<Rightarrow> 'z process_scheme \<Rightarrow> 'z process_scheme" where
  "tick sch s =
     (case service_List (sch_providers sch) s of
        (Inl e, s1) \<Rightarrow> slog Error ''scheduler: list providers'' [(''error'', error_text e)] s1
      | (Inr providers, s1) \<Rightarrow> tick_loop sch providers s1)"

datatype select_event = CtxDone | TickerFired

fun run_loop ::
    "('z process_scheme) scheduler \<Rightarrow> select_event list \<Rightarrow> 'z process_scheme \<Rightarrow> bool \<times> 'z process_scheme"
where
  "run_loop sch [] s = (False, s)"
| "run_loop sch (CtxDone # evs) s = (True, s)"
| "run_loop sch (TickerFired # evs) s = run_loop sch evs (tick sch s)"

text \<open>Whether it has returned, and the state; or the panic of \<^verbatim>\<open>time.NewTicker\<close>.\<close>

definition Run ::
    "('z process_scheme) scheduler \<Rightarrow> select_event list \<Rightarrow> 'z process_scheme
       \<Rightarrow> (bool \<times> 'z process_scheme) or_panic" where
  "Run sch evs s =
     (if sint (pollInterval sch) \<le> 0 then Inl ''non-positive interval for NewTicker''
      else Inr (run_loop sch evs s))"

section \<open>One provider\<close>

text \<open>
  The gate: while a provider's cooldown lasts, a tick reaches neither the network nor the
  database for it; all that happens is one look at the clock and one log line, and the entry
  stays as it is.
\<close>
theorem collectOne_gated:
  assumes "sch_cooldown sch = Some reg" and "entries s p = Some e"
    and "instant (rt_clock s 0) < instant (until e)"
  shows "collectOne sch p s =
    slog Warn ''scheduler: provider is in auth-failure cooldown, skipping'' [(''provider'', p)]
      (s\<lparr>rt_clock := advance (rt_clock s)\<rparr>)"
  using assms by (simp add: collectOne_def active_eq)

text \<open>What the attempt does to the cooldown entries, by its outcome.\<close>

lemma entries_slog [simp]: "entries (slog l m as s) = entries s"
  by (simp add: slog_def)

lemma failure_count_slog [simp]: "failure_count (slog l m as s) = failure_count s"
  by (simp add: failure_count_def fun_eq_iff)

lemma entries_active [simp]: "entries (snd (active p s)) = entries s"
  by (simp add: active_eq split: option.split)

definition attempt :: "('z process_scheme) scheduler \<Rightarrow> string \<Rightarrow> 'z process_scheme
    \<Rightarrow> snapshot result \<times> 'z process_scheme" where
  "attempt sch p s =
     Collect (sch_collector sch) p (if sch_cooldown sch = None then s else snd (active p s))"

text \<open>A scheduler whose services all use the database.\<close>

definition sqlite_scheduler :: "('z host_scheme) scheduler \<Rightarrow> bool" where
  "sqlite_scheduler sch \<longleftrightarrow>
     svc_repo (sch_providers sch) = sqlite_providers \<and> sqlite_wired (sch_collector sch)"

lemma active_more: "active p s = (b, s1) \<Longrightarrow> runtime.more s1 = runtime.more s"
  using active_frame [of p s] by simp

lemma sqlite_more:
  assumes "runtime.more s' = runtime.more s"
  shows "wf_db s' = wf_db s" "enabled_in s' = enabled_in s" "secret_in s' = secret_in s"
    "latest_in s' = latest_in s" "entries s' = entries s" "host.more s' = host.more s"
    "reliable_db s' = reliable_db s"
  using sqlite_store.runtime_law [OF assms] sqlite_store.runtime_healthy [OF assms]
    host_more_cong [OF assms] by auto

lemma attempt_frame:
  assumes "wf_db s" and "sqlite_scheduler sch" and "attempt sch p s = (r, s1)"
  shows "wf_db s1" "enabled_in s1 = enabled_in s" "secret_in s1 = secret_in s"
    "entries s1 = entries s" "host.more s1 = host.more s" "q \<noteq> p \<Longrightarrow> latest_in s1 q = latest_in s q"
    "r = Inl e \<Longrightarrow> latest_in s1 = latest_in s"
proof -
  define s0 where "s0 = (if sch_cooldown sch = None then s else snd (active p s))"
  have "runtime.more s0 = runtime.more s" by (simp add: s0_def active_frame)
  note same = sqlite_more [OF this]
  have "wf_db s0" using assms(1) same(1) by simp
  moreover have "sqlite_store.wired (sch_collector sch)"
    using assms(2) by (simp add: sqlite_scheduler_def sqlite_wired_iff)
  moreover have "Collect (sch_collector sch) p s0 = (r, s1)"
    using assms(3) by (simp add: attempt_def s0_def)
  ultimately have "wf_db s1 \<and> enabled_in s1 = enabled_in s0 \<and> secret_in s1 = secret_in s0 \<and>
    beside_db s1 = beside_db s0 \<and>
    (case r of Inl e \<Rightarrow> latest_in s1 = latest_in s0
     | Inr sn \<Rightarrow> latest_in s1 = (latest_in s0)(p \<mapsto> kept_snapshot p (snap_metrics sn) (snap_collected_at sn)))"
    using sqlite_store.Collect_client [of s0 "sch_collector sch" p r s1] by (cases r) auto
  then show "wf_db s1" "enabled_in s1 = enabled_in s" "secret_in s1 = secret_in s"
    "entries s1 = entries s" "host.more s1 = host.more s" "q \<noteq> p \<Longrightarrow> latest_in s1 q = latest_in s q"
    "r = Inl e \<Longrightarrow> latest_in s1 = latest_in s"
    using same by (auto simp: beside_db_def split: sum.splits)
qed

text \<open>
  C15: An attempt that is not gated changes the cooldown entries of its provider only, and by the
  outcome of the collection alone: a success removes the entry, an authentication failure adds
  one to its failure count and starts a new window of the backoff for this count, and any other
  failure (also a missing fetcher) leaves it as it was.
\<close>
theorem collectOne_entries:
  assumes "wf_db s" and "sqlite_scheduler sch" and "sch_cooldown sch = Some reg"
    and "\<not> fst (active p s)" and "attempt sch p s = (r, s1)"
  shows "(\<forall>q. q \<noteq> p \<longrightarrow> entries (collectOne sch p s) q = entries s q) \<and>
    (case r of
       Inr sn \<Rightarrow> entries (collectOne sch p s) p = None
     | Inl e \<Rightarrow>
         if errors_is e ErrAuth
         then entries (collectOne sch p s) p =
           Some \<lparr>failures = failure_count s p + 1,
                 until = time_Add (rt_clock s1 0) (backoff reg (failure_count s p + 1))\<rparr>
         else entries (collectOne sch p s) p = entries s p)"
proof -
  obtain s0 where act: "active p s = (False, s0)" using assms(4) by (cases "active p s") simp
  have collect: "Collect (sch_collector sch) p s0 = (r, s1)"
    using assms(3,5) act by (simp add: attempt_def)
  have keep: "entries s1 = entries s" by (rule attempt_frame(4) [OF assms(1,2,5)])
  show ?thesis
  proof (cases r)
    case (Inr sn)
    with collect act assms(3) keep show ?thesis by (simp add: collectOne_def)
  next
    case (Inl e)
    have "errors_is e ErrAuth \<Longrightarrow> \<not> errors_is e ErrFetcherNotFound"
      using errors_is_unique [of e ErrAuth ErrFetcherNotFound] by blast
    with Inl collect act assms(3) keep show ?thesis
      by (auto simp: collectOne_def recordFailure_eq failure_count_def Let_def split: option.splits)
  qed
qed

section \<open>A tick\<close>

lemma slog_more: "runtime.more (slog l m as s) = runtime.more s"
  by (rule runtime_more_frame)

lemmas sqlite_after_slog = sqlite_more [OF slog_more]

lemma sqlite_after_record [simp]:
  "wf_db (recordFailure r p s) = wf_db s" "enabled_in (recordFailure r p s) = enabled_in s"
  "secret_in (recordFailure r p s) = secret_in s" "latest_in (recordFailure r p s) = latest_in s"
  "host.more (recordFailure r p s) = host.more s"
  by (simp_all add: recordFailure_eq Let_def snapshot_defs fun_eq_iff)

lemma sqlite_after_Clear [simp]:
  "enabled_in (Clear p s) = enabled_in s" "latest_in (Clear p s) = latest_in s"
  "host.more (Clear p s) = host.more s"
  by (simp_all add: Clear_def snapshot_defs fun_eq_iff)

definition settle :: "('z process_scheme) scheduler \<Rightarrow> string \<Rightarrow> snapshot result
    \<Rightarrow> 'z process_scheme \<Rightarrow> 'z process_scheme" where
  "settle sch p r s =
     (case r of
        Inr sn \<Rightarrow> (if sch_cooldown sch = None then s else Clear p s)
      | Inl e \<Rightarrow>
          if errors_is e ErrFetcherNotFound then
            slog Warn ''scheduler: provider has no registered fetcher, skipping'' [(''provider'', p)] s
          else if errors_is e ErrAuth then
            slog Warn ''scheduler: provider authentication failed, engaging cooldown''
              [(''provider'', p), (''error'', error_text e)]
              (case sch_cooldown sch of None \<Rightarrow> s | Some r \<Rightarrow> recordFailure r p s)
          else slog Error ''scheduler: collect provider usage failed''
              [(''provider'', p), (''error'', error_text e)] s)"

lemma collectOne_eq:
  "collectOne sch p s =
     (if sch_cooldown sch \<noteq> None \<and> fst (active p s)
      then slog Warn ''scheduler: provider is in auth-failure cooldown, skipping'' [(''provider'', p)]
             (snd (active p s))
      else (case attempt sch p s of (r, s1) \<Rightarrow> settle sch p r s1))"
proof -
  define s0 where "s0 = (if sch_cooldown sch = None then s else snd (active p s))"
  obtain r s1 where col: "Collect (sch_collector sch) p s0 = (r, s1)" by fastforce
  obtain b s2 where act: "active p s = (b, s2)" by fastforce
  show ?thesis
  proof (cases "sch_cooldown sch")
    case None
    with col show ?thesis
      by (cases r) (simp_all add: collectOne_def attempt_def settle_def s0_def)
  next
    case (Some reg)
    with col act show ?thesis
      by (cases r) (simp_all add: collectOne_def attempt_def settle_def s0_def)
  qed
qed

lemma settle_frame:
  "wf_db (settle sch p r s) = wf_db s" "enabled_in (settle sch p r s) = enabled_in s"
  "secret_in (settle sch p r s) = secret_in s" "latest_in (settle sch p r s) = latest_in s"
  "host.more (settle sch p r s) = host.more s"
  "q \<noteq> p \<Longrightarrow> entries (settle sch p r s) q = entries s q"
  by (auto simp: settle_def sqlite_after_slog split: sum.split option.split)

lemma collectOne_frame:
  assumes "wf_db s" and "sqlite_scheduler sch"
  shows "wf_db (collectOne sch p s)" "enabled_in (collectOne sch p s) = enabled_in s"
    "secret_in (collectOne sch p s) = secret_in s"
    "q \<noteq> p \<Longrightarrow> latest_in (collectOne sch p s) q = latest_in s q"
    "q \<noteq> p \<Longrightarrow> entries (collectOne sch p s) q = entries s q"
proof -
  obtain r s1 where att: "attempt sch p s = (r, s1)" by fastforce
  obtain b s0 where act: "active p s = (b, s0)" by fastforce
  note attempt = attempt_frame [OF assms att] and gate = sqlite_more [OF active_more [OF act]]
  show "wf_db (collectOne sch p s)" "enabled_in (collectOne sch p s) = enabled_in s"
    "secret_in (collectOne sch p s) = secret_in s"
    "q \<noteq> p \<Longrightarrow> latest_in (collectOne sch p s) q = latest_in s q"
    "q \<noteq> p \<Longrightarrow> entries (collectOne sch p s) q = entries s q"
    using assms(1) by (simp_all add: collectOne_eq att act attempt gate settle_frame sqlite_after_slog)
qed

lemma ctx_Err_more: "ctx_Err s = (b, s1) \<Longrightarrow> runtime.more s1 = runtime.more s"
  using runtime_more_frame(4) [of s] by simp

lemma tick_loop_frame:
  assumes "wf_db s" and "sqlite_scheduler sch"
  shows "wf_db (tick_loop sch ps s) \<and> enabled_in (tick_loop sch ps s) = enabled_in s \<and>
    secret_in (tick_loop sch ps s) = secret_in s \<and>
    (\<forall>q. (\<forall>p \<in> set ps. p_enabled p \<longrightarrow> md_id p \<noteq> q) \<longrightarrow>
       latest_in (tick_loop sch ps s) q = latest_in s q \<and> entries (tick_loop sch ps s) q = entries s q)"
  using assms(1)
proof (induction ps arbitrary: s)
  case (Cons p ps)
  obtain b s1 where ctx: "ctx_Err s = (b, s1)" by fastforce
  note same = sqlite_more [OF ctx_Err_more [OF ctx]]
  have "wf_db s1" using Cons.prems same by simp
  note one = collectOne_frame [OF this assms(2), where p = "md_id p"]
  from Cons.IH [OF Cons.prems] Cons.IH [OF one(1)] one same ctx Cons.prems show ?case by auto
qed simp

text \<open>
  A tick, whatever fails in it and wherever it is cancelled, changes no enabled flag and no
  stored credential, and for a provider that is disabled or not in the catalog neither its
  snapshot nor its cooldown entry.
\<close>
theorem tick_frame:
  assumes "wf_db s" and "sqlite_scheduler sch"
  shows "wf_db (tick sch s) \<and> enabled_in (tick sch s) = enabled_in s \<and>
    secret_in (tick sch s) = secret_in s \<and>
    (\<forall>q. enabled_in s q \<noteq> Some True \<or> q \<notin> md_id ` set (svc_registry (sch_providers sch)) \<longrightarrow>
       latest_in (tick sch s) q = latest_in s q \<and> entries (tick sch s) q = entries s q)"
proof -
  obtain l s1 where list: "service_List (sch_providers sch) s = (l, s1)" by fastforce
  have repo: "svc_repo (sch_providers sch) = sqlite_providers"
    using assms(2) by (simp add: sqlite_scheduler_def)
  note law = sqlite_prov.service_List_client [OF assms(1) repo list]
  have s1: "wf_db s1" "enabled_in s1 = enabled_in s" "secret_in s1 = secret_in s"
    "latest_in s1 = latest_in s" "entries s1 = entries s"
    using law sqlite_store.prest_law [of s1 s] by (auto simp: beside_db_def)
  show ?thesis
  proof (cases l)
    case (Inl e)
    with list s1 show ?thesis by (simp add: tick_def sqlite_after_slog)
  next
    case (Inr ps)
    with law have ps: "ps = map (\<lambda>m. with_state m (enabled_in s (md_id m) = Some True)
        (HasFetcher (sch_providers sch) (md_id m))) (svc_registry (sch_providers sch))" by simp
    have "\<forall>p \<in> set ps. p_enabled p \<longrightarrow> md_id p \<noteq> q"
      if "enabled_in s q \<noteq> Some True \<or> q \<notin> md_id ` set (svc_registry (sch_providers sch))" for q
      using that by (auto simp: ps)
    with tick_loop_frame [OF s1(1) assms(2), of ps] s1 Inr list show ?thesis
      by (simp add: tick_def)
  qed
qed

section \<open>No provider keeps another from being tried\<close>

lemma attempt_ctx:
  assumes "wf_db s" and "sqlite_scheduler sch" and "quiet (col_providers (sch_collector sch))"
    and "attempt sch p s = (r, s1)"
  shows "rt_ctx s1 = rt_ctx s"
proof -
  define s0 where "s0 = (if sch_cooldown sch = None then s else snd (active p s))"
  have "runtime.more s0 = runtime.more s" by (simp add: s0_def active_frame)
  then have "wf_db s0" using assms(1) sqlite_more(1) by blast
  moreover have "rt_ctx s0 = rt_ctx s" by (simp add: s0_def active_eq split: option.split)
  ultimately show ?thesis
    using sqlite_store.Collect_ctx [of s0 "sch_collector sch" p r s1] assms(2-4)
    by (simp add: attempt_def s0_def sqlite_scheduler_def sqlite_wired_iff)
qed

lemma settle_ctx: "rt_ctx (settle sch p r s) = rt_ctx s"
  by (simp add: settle_def slog_def Clear_def recordFailure_eq Let_def split: sum.split option.split)

lemma collectOne_ctx:
  assumes "wf_db s" and "sqlite_scheduler sch" and "quiet (col_providers (sch_collector sch))"
  shows "rt_ctx (collectOne sch p s) = rt_ctx s"
proof -
  obtain r s1 where att: "attempt sch p s = (r, s1)" by fastforce
  have "rt_ctx (snd (active p s)) = rt_ctx s" by (simp add: active_eq split: option.split)
  with attempt_ctx [OF assms att] att show ?thesis
    by (simp add: collectOne_eq settle_ctx slog_def)
qed


text \<open>
  C38: A cancelled tick: before each enabled provider the tick looks at its context once, and it
  stops at the first look that finds it cancelled. So exactly the enabled providers in front of
  that look are tried, in the list's order and whatever became of each, and none after it; if no look
  finds a cancellation, all are tried. (The fetchers must leave the cancellation signal alone.)
\<close>
theorem tick_until_cancelled:
  assumes "wf_db s" and "sqlite_scheduler sch" and "quiet (col_providers (sch_collector sch))"
  shows "(let todo = filter p_enabled ps;
      n = length (takeWhile (\<lambda>i. \<not> rt_ctx s i) [0..<length todo]);
      t = foldl (\<lambda>s p. collectOne sch (md_id p) (snd (ctx_Err s))) s (take n todo)
    in tick_loop sch ps s = (if n < length todo then snd (ctx_Err t) else t))"
  using assms(1)
proof (induction ps arbitrary: s)
  case (Cons p ps)
  obtain b s1 where ctx: "ctx_Err s = (b, s1)" by fastforce
  have s1: "wf_db s1" "rt_ctx s1 = advance (rt_ctx s)" "b = rt_ctx s 0"
    using sqlite_more(1) [OF ctx_Err_more [OF ctx]] Cons.prems ctx by (auto simp: ctx_Err_def)
  show ?case
  proof (cases "p_enabled p \<and> \<not> b")
    case True
    let ?u = "collectOne sch (md_id p) s1"
    have u: "wf_db ?u" "rt_ctx ?u = advance (rt_ctx s)"
      using collectOne_frame(1) [OF s1(1) assms(2)] collectOne_ctx [OF s1(1) assms(2,3)] s1(2) by auto
    have "takeWhile (\<lambda>i. \<not> rt_ctx s i) [0..<Suc n] =
        0 # map Suc (takeWhile (\<lambda>i. \<not> rt_ctx ?u i) [0..<n])" for n
      using True s1(3) by (simp add: upt_conv_Cons u(2) advance_def map_Suc_upt [symmetric] takeWhile_map comp_def
          del: upt_Suc)
    with Cons.IH [OF u(1)] True ctx show ?thesis by (simp add: Let_def del: upt_Suc)
  next
    case False
    with Cons.IH [OF Cons.prems] ctx s1(3) show ?thesis
      by (auto simp: Let_def upt_conv_Cons simp del: upt_Suc)
  qed
qed (simp add: Let_def)

section \<open>Concrete instances\<close>

definition demo_scheduler ::
    "(creds \<Rightarrow> runtime \<Rightarrow> usage_metric list result \<times> runtime) \<Rightarrow> host scheduler" where
  "demo_scheduler fetch =
     scheduler_New (col_providers (demo_collector fetch)) (demo_collector fetch)
       300000000000 30000000000 (Some (NewAuthCooldownRegistry 300000000000 3600000000000))"

lemma demo_scheduler_simps [simp]:
  "sqlite_scheduler (demo_scheduler fetch)"
  "sch_cooldown (demo_scheduler fetch) = Some (NewAuthCooldownRegistry 300000000000 3600000000000)"
  "sch_collector (demo_scheduler fetch) = demo_collector fetch"
  "pollInterval (demo_scheduler fetch) = 300000000000"
  using demo_collector_simps(1) [of fetch]
  by (simp_all add: demo_scheduler_def scheduler_New_def sqlite_scheduler_def sqlite_wired_def)

theorem collectOne_gated_witness:
  "\<exists>s :: host. rt_net (collectOne (demo_scheduler steady) ''minimax'' s) = rt_net s \<and>
     rt_log (collectOne (demo_scheduler steady) ''minimax'' s) \<noteq> rt_log s"
proof -
  define s :: host where
    "s = (ready_host no_net)\<lparr>entries := [''minimax'' \<mapsto> \<lparr>failures = 1, until = \<lparr>instant = 5, zone = 0\<rparr>\<rparr>]\<rparr>"
  have "entries s ''minimax'' = Some \<lparr>failures = 1, until = \<lparr>instant = 5, zone = 0\<rparr>\<rparr>"
    and "instant (rt_clock s 0) < instant (until \<lparr>failures = 1, until = \<lparr>instant = 5, zone = 0\<rparr>\<rparr>)"
    by (simp_all add: s_def ready_host_def empty_host_def calm_runtime_def)
  from collectOne_gated [OF demo_scheduler_simps(2) this] show ?thesis
    by (intro exI [of _ s]) (simp add: slog_def)
qed

theorem collectOne_entries_witness:
  "\<exists>sch :: host scheduler. \<exists>r s1. attempt sch ''minimax'' (ready_host no_net) = (r, s1) \<and>
     entries (collectOne sch ''minimax'' (ready_host no_net)) ''openai'' = None"
proof -
  let ?sch = "demo_scheduler steady"
  obtain r s1 where att: "attempt ?sch ''minimax'' (ready_host no_net) = (r, s1)" by fastforce
  have "\<not> fst (active ''minimax'' (ready_host no_net))" by (simp add: active_eq)
  from collectOne_entries [OF ready_host_simps(1) demo_scheduler_simps(1,2) this att] att
  show ?thesis by (intro exI [of _ ?sch]) simp
qed

theorem tick_frame_witness:
  "latest_in (tick (demo_scheduler steady) (ready_host no_net)) ''openai'' = None"
  using tick_frame [OF ready_host_simps(1) demo_scheduler_simps(1), of steady no_net] by simp

lemma quiet_steady: "quiet (col_providers (demo_collector steady))"
  by (auto simp: quiet_def demo_collector_def NewCollector_def steady_def split: if_splits)


text \<open>Two enabled providers, and a cancellation between them.\<close>

theorem tick_until_cancelled_witness:
  "\<exists>s t. s = (ready_host no_net)\<lparr>rt_ctx := (\<lambda>i. 0 < i)\<rparr> \<and>
     tick_loop (demo_scheduler steady)
       [with_state demo_metadata True True, with_state (demo_metadata\<lparr>md_id := ''openai''\<rparr>) True False] s =
     snd (ctx_Err t) \<and> t = collectOne (demo_scheduler steady) ''minimax'' (snd (ctx_Err s))"
proof -
  let ?s = "(ready_host no_net)\<lparr>rt_ctx := (\<lambda>i. 0 < i)\<rparr>"
  have "wf_db ?s" using sqlite_more(1) [of ?s "ready_host no_net"] by simp
  from tick_until_cancelled [OF this demo_scheduler_simps(1) _,
      of steady "[with_state demo_metadata True True, with_state (demo_metadata\<lparr>md_id := ''openai''\<rparr>) True False]"]
    quiet_steady
  show ?thesis by (simp add: demo_metadata_def Let_def upt_rec)
qed

text \<open>
  A poll interval that is not positive, which the configuration accepts, is not an error the
  scheduler reports: starting it panics, whatever it would have received.
\<close>
theorem Run_panics:
  "(\<exists>msg. Run sch evs s = Inl msg) \<longleftrightarrow> sint (pollInterval sch) \<le> 0"
  by (simp add: Run_def)

end
