(* ===== verification/Sqlite_Open.thy ===== *)
theory Sqlite_Open
  imports Snapshots Http
begin

text \<open>
  \<^verbatim>\<open>New\<close>, \<^verbatim>\<open>migrate\<close> and \<^verbatim>\<open>Close\<close> of
  \<^verbatim>\<open>internal/store/sqlite/sqlite.go\<close>. What they call, the file system, the SQL driver and the
  migration tool goose, is not part of the repository: it is the record \<open>sql_driver\<close>, an
  argument. The model owns the one connection handle; \<open>handle_contract\<close> and \<open>driver_does\<close>
  state what is relied on.
\<close>

section \<open>The directory of a path\<close>

text \<open>\<^verbatim>\<open>filepath.Dir\<close>, which cleans its result.\<close>

definition clean_step :: "bool \<Rightarrow> string list \<Rightarrow> string \<Rightarrow> string list" where
  "clean_step absolute acc e =
     (if e = [] \<or> e = ''.'' then acc
      else if e = ''..'' then
        (if acc \<noteq> [] \<and> last acc \<noteq> ''..'' then butlast acc
         else if absolute then acc else acc @ [e])
      else acc @ [e])"

definition filepath_Clean :: "string \<Rightarrow> string" where
  "filepath_Clean p =
     (let absolute = (take 1 p = ''/'');
          elems = foldl (clean_step absolute) [] (split_at (CHR ''/'') p)
      in if absolute then ''/'' @ joined ''/'' elems
         else if elems = [] then ''.'' else joined ''/'' elems)"

definition filepath_Dir :: "string \<Rightarrow> string" where
  "filepath_Dir p = filepath_Clean (rev (dropWhile (\<lambda>c. c \<noteq> CHR ''/'') (rev p)))"

lemma filepath_Dir_examples:
  "filepath_Dir ''./data/aud.db'' = ''data''" "filepath_Dir ''aud.db'' = ''.''"
  "filepath_Dir ''/var/lib/../aud//x.db'' = ''/var/aud''" "filepath_Dir ''/aud.db'' = ''/''"
  by (simp_all add: filepath_Dir_def filepath_Clean_def clean_step_def Let_def)

section \<open>Opening and closing\<close>

record 's sql_driver =
  drv_MkdirAll :: "string \<Rightarrow> 's \<Rightarrow> unit result \<times> 's"
  drv_Open :: "string \<Rightarrow> string \<Rightarrow> 's \<Rightarrow> unit result \<times> 's"
  drv_SetMaxOpenConns :: "nat \<Rightarrow> 's \<Rightarrow> 's"
  drv_Ping :: "'s \<Rightarrow> unit result \<times> 's"
  goose_NewProvider :: "'s \<Rightarrow> unit result \<times> 's"
  goose_Up :: "'s \<Rightarrow> unit result \<times> 's"
  drv_Close :: "'s \<Rightarrow> unit result \<times> 's"

definition driverName :: string where
  "driverName = ''sqlite''"

definition dsn :: "string \<Rightarrow> string" where
  "dsn dbPath = ''file:'' @ dbPath @
     ''?_pragma=busy_timeout(5000)&_pragma=journal_mode(WAL)&_pragma=foreign_keys(1)&_time_format=sqlite''"

definition migrate :: "'s sql_driver \<Rightarrow> 's \<Rightarrow> unit result \<times> 's" where
  "migrate drv s =
     (case goose_NewProvider drv s of
        (Inl e, s1) \<Rightarrow> (Inl (Wrap ''sqlite: init migration provider'' e), s1)
      | (Inr _, s1) \<Rightarrow>
          (case goose_Up drv s1 of
             (Inl e, s2) \<Rightarrow> (Inl (Wrap ''sqlite: apply migrations'' e), s2)
           | (Inr _, s2) \<Rightarrow> (Inr (), s2)))"

definition sqlite_Close :: "'s sql_driver \<Rightarrow> 's \<Rightarrow> unit result \<times> 's" where
  "sqlite_Close drv s =
     (case drv_Close drv s of
        (Inl e, s1) \<Rightarrow> (Inl (Wrap ''sqlite: close'' e), s1)
      | (Inr _, s1) \<Rightarrow> (Inr (), s1))"

definition sqliteStore :: "('z host_scheme) sql_driver \<Rightarrow> ('z host_scheme) store" where
  "sqliteStore drv =
     \<lparr>st_providers = sqlite_providers, st_credentials = sqlite_credentials,
      st_snapshots = sqlite_snapshots, st_Close = sqlite_Close drv\<rparr>"

definition sqlite_New ::
    "('z host_scheme) sql_driver \<Rightarrow> string \<Rightarrow> 'z host_scheme
       \<Rightarrow> ('z host_scheme) store result \<times> 'z host_scheme" where
  "sqlite_New drv dbPath s =
     (let dir = filepath_Dir dbPath
      in case (if dir \<noteq> ''.'' \<and> dir \<noteq> [] then drv_MkdirAll drv dir s else (Inr (), s)) of
           (Inl e, s1) \<Rightarrow> (Inl (Wrap (''sqlite: create db directory '' @ dir) e), s1)
         | (Inr _, s1) \<Rightarrow>
             (case drv_Open drv driverName (dsn dbPath) s1 of
                (Inl e, s2) \<Rightarrow> (Inl (Wrap (''sqlite: open '' @ dbPath) e), s2)
              | (Inr _, s2) \<Rightarrow>
                  (case drv_Ping drv (drv_SetMaxOpenConns drv 1 s2) of
                     (Inl e, s3) \<Rightarrow>
                       (Inl (Wrap (''sqlite: open '' @ dbPath) e), snd (drv_Close drv s3))
                   | (Inr _, s3) \<Rightarrow>
                       (case migrate drv s3 of
                          (Inl e, s4) \<Rightarrow> (Inl e, snd (drv_Close drv s4))
                        | (Inr _, s4) \<Rightarrow> (Inr (sqliteStore drv), s4)))))"

section \<open>What is relied on\<close>

text \<open>Every operation of the driver relates the states before and after it by \<open>R\<close>.\<close>

definition driver_does :: "('s \<Rightarrow> 's \<Rightarrow> bool) \<Rightarrow> 's sql_driver \<Rightarrow> bool" where
  "driver_does R drv \<longleftrightarrow>
     (\<forall>p s. R s (snd (drv_MkdirAll drv p s))) \<and> (\<forall>n p s. R s (snd (drv_Open drv n p s))) \<and>
     (\<forall>n s. R s (drv_SetMaxOpenConns drv n s)) \<and> (\<forall>s. R s (snd (drv_Ping drv s))) \<and>
     (\<forall>s. R s (snd (goose_NewProvider drv s))) \<and> (\<forall>s. R s (snd (goose_Up drv s))) \<and>
     (\<forall>s. R s (snd (drv_Close drv s)))"

lemma driver_doesD:
  assumes "driver_does R drv"
  shows "drv_MkdirAll drv p s = (r, t) \<Longrightarrow> R s t" "drv_Open drv n p s = (r, t) \<Longrightarrow> R s t"
    "R s (drv_SetMaxOpenConns drv k s)" "drv_Ping drv s = (r, t) \<Longrightarrow> R s t"
    "goose_NewProvider drv s = (r, t) \<Longrightarrow> R s t" "goose_Up drv s = (r, t) \<Longrightarrow> R s t"
    "drv_Close drv s = (r, t) \<Longrightarrow> R s t"
  using assms unfolding driver_does_def by (metis snd_conv)+

lemma migrate_does:
  assumes "driver_does R drv" and "transp R" and "migrate drv s = (r, t)"
  shows "R s t"
proof -
  obtain a s1 where a: "goose_NewProvider drv s = (a, s1)" by fastforce
  obtain b s2 where b: "goose_Up drv s1 = (b, s2)" by fastforce
  note step = driver_doesD(5,6) [OF assms(1)]
  have "R s s1" "R s s2" using step(1) [OF a] step(2) [OF b] transpD [OF assms(2)] by blast+
  with assms(3) a b show ?thesis by (cases a; cases b) (auto simp: migrate_def)
qed

lemma sqlite_New_does:
  assumes "driver_does R drv" and "reflp R" and "transp R" and "sqlite_New drv path s = (r, t)"
  shows "R s t"
proof -
  note D = driver_doesD [OF assms(1)] and tr = transpD [OF assms(3)]
  define dir where "dir = filepath_Dir path"
  obtain a s1 where a: "(if dir \<noteq> ''.'' \<and> dir \<noteq> [] then drv_MkdirAll drv dir s else (Inr (), s)) = (a, s1)"
    by fastforce
  obtain b s2 where b: "drv_Open drv driverName (dsn path) s1 = (b, s2)" by fastforce
  obtain c s3 where c: "drv_Ping drv (drv_SetMaxOpenConns drv 1 s2) = (c, s3)" by fastforce
  obtain d s4 where d: "migrate drv s3 = (d, s4)" by fastforce
  obtain e s5 where e: "drv_Close drv s3 = (e, s5)" by fastforce
  obtain f s6 where f: "drv_Close drv s4 = (f, s6)" by fastforce
  have 1: "R s s1" using a D(1) reflpD [OF assms(2)] by (auto split: if_splits)
  have 2: "R s s2" by (rule tr [OF 1 D(2) [OF b]])
  have 3: "R s s3" by (rule tr [OF tr [OF 2 D(3)] D(4) [OF c]])
  have 4: "R s s4" by (rule tr [OF 3 migrate_does [OF assms(1,3) d]])
  have 5: "R s s5" "R s s6" by (rule tr [OF 3 D(7) [OF e]], rule tr [OF 4 D(7) [OF f]])
  have "sqlite_New drv path s =
      (case a of Inl x \<Rightarrow> (Inl (Wrap (''sqlite: create db directory '' @ dir) x), s1)
       | Inr _ \<Rightarrow> (case b of Inl x \<Rightarrow> (Inl (Wrap (''sqlite: open '' @ path) x), s2)
         | Inr _ \<Rightarrow> (case c of Inl x \<Rightarrow> (Inl (Wrap (''sqlite: open '' @ path) x), s5)
           | Inr _ \<Rightarrow> (case d of Inl x \<Rightarrow> (Inl x, s6) | Inr _ \<Rightarrow> (Inr (sqliteStore drv), s4)))))"
    unfolding sqlite_New_def Let_def dir_def [symmetric] a
    by (simp add: b c [unfolded One_nat_def] d e f split: sum.split)
  with assms(4) 1 2 3 4 5 show ?thesis by (auto split: sum.splits)
qed

lemma sqlite_New_store: "sqlite_New drv path s = (Inr db, t) \<Longrightarrow> db = sqliteStore drv"
  by (auto simp: sqlite_New_def Let_def split: prod.splits sum.splits)

lemma sqlite_Close_does: "driver_does R drv \<Longrightarrow> sqlite_Close drv s = (r, t) \<Longrightarrow> R s t"
  using driver_doesD(7) by (fastforce simp: sqlite_Close_def split: prod.splits sum.splits)

text \<open>
  The connection handle: opening it succeeds or leaves none, closing releases it (also when it
  reports an error), nothing else opens or closes it.
\<close>

definition handle_contract :: "('s \<Rightarrow> bool) \<Rightarrow> 's sql_driver \<Rightarrow> bool" where
  "handle_contract holds drv \<longleftrightarrow>
     (\<forall>p s. holds (snd (drv_MkdirAll drv p s)) = holds s) \<and>
     (\<forall>n p s. \<not> holds s \<longrightarrow> holds (snd (drv_Open drv n p s)) = (fst (drv_Open drv n p s) = Inr ())) \<and>
     (\<forall>n s. holds (drv_SetMaxOpenConns drv n s) = holds s) \<and>
     (\<forall>s. holds (snd (drv_Ping drv s)) = holds s) \<and>
     (\<forall>s. holds (snd (goose_NewProvider drv s)) = holds s) \<and>
     (\<forall>s. holds (snd (goose_Up drv s)) = holds s) \<and> (\<forall>s. \<not> holds (snd (drv_Close drv s)))"

lemma handle_contractD:
  assumes "handle_contract holds drv"
  shows "drv_MkdirAll drv p s = (r, t) \<Longrightarrow> holds t = holds s"
    "\<not> holds s \<Longrightarrow> drv_Open drv n p s = (r, t) \<Longrightarrow> holds t = (r = Inr ())"
    "holds (drv_SetMaxOpenConns drv k s) = holds s" "drv_Ping drv s = (r, t) \<Longrightarrow> holds t = holds s"
    "goose_NewProvider drv s = (r, t) \<Longrightarrow> holds t = holds s" "goose_Up drv s = (r, t) \<Longrightarrow> holds t = holds s"
    "\<not> holds (snd (drv_Close drv s))"
  using assms unfolding handle_contract_def by (metis fst_conv snd_conv)+

lemma migrate_handle:
  "handle_contract holds drv \<Longrightarrow> migrate drv s = (r, t) \<Longrightarrow> holds t = holds s"
  by (auto simp: migrate_def dest: handle_contractD(5,6) split: prod.splits sum.splits)

lemma sqlite_Close_handle:
  "handle_contract holds drv \<Longrightarrow> \<not> holds (snd (sqlite_Close drv s))"
  using handle_contractD(7) [of holds drv s] by (auto simp: sqlite_Close_def split: prod.split sum.split)

lemma sqlite_New_handle:
  assumes "handle_contract holds drv" and "\<not> holds s" and "sqlite_New drv path s = (r, t)"
  shows "holds t = (r = Inr (sqliteStore drv))"
proof -
  note D = handle_contractD [OF assms(1)]
  define dir where "dir = filepath_Dir path"
  obtain a s1 where a: "(if dir \<noteq> ''.'' \<and> dir \<noteq> [] then drv_MkdirAll drv dir s else (Inr (), s)) = (a, s1)"
    by fastforce
  obtain b s2 where b: "drv_Open drv driverName (dsn path) s1 = (b, s2)" by fastforce
  obtain c s3 where c: "drv_Ping drv (drv_SetMaxOpenConns drv 1 s2) = (c, s3)" by fastforce
  obtain d s4 where d: "migrate drv s3 = (d, s4)" by fastforce
  have 1: "\<not> holds s1" using a D(1) assms(2) by (auto split: if_splits)
  have 2: "holds s2 = (b = Inr ())" by (rule D(2) [OF 1 b])
  have 3: "holds s3 = holds s2" using D(4) [OF c] D(3) by simp
  have 4: "holds s4 = holds s3" by (rule migrate_handle [OF assms(1) d])
  from assms(3) have "(r, t) =
      (case a of Inl x \<Rightarrow> (Inl (Wrap (''sqlite: create db directory '' @ dir) x), s1)
       | Inr _ \<Rightarrow> (case b of Inl x \<Rightarrow> (Inl (Wrap (''sqlite: open '' @ path) x), s2)
         | Inr _ \<Rightarrow> (case c of Inl x \<Rightarrow> (Inl (Wrap (''sqlite: open '' @ path) x), snd (drv_Close drv s3))
           | Inr _ \<Rightarrow> (case d of Inl x \<Rightarrow> (Inl x, snd (drv_Close drv s4)) | Inr _ \<Rightarrow> (Inr (sqliteStore drv), s4)))))"
    unfolding sqlite_New_def Let_def dir_def [symmetric] a
    by (simp add: b c [unfolded One_nat_def] d split: sum.split_asm)
  with 1 2 3 4 D(7) show ?thesis by (auto split: sum.splits)
qed

end
