(* ===== verification/Durations.thy ===== *)
theory Durations
  imports Json Go_Errors
begin

text \<open>
  \<^verbatim>\<open>time.ParseDuration\<close>, with which \<^verbatim>\<open>cmd/aud/main.go\<close> reads the poll interval:
  the scanner over \<^verbatim>\<open>[-+]?([0-9]*(\.[0-9]*)?[a-z]+)+\<close> with its overflow checks, and the
  binary64 arithmetic of the part behind a decimal point.
\<close>

section \<open>Positive floating-point numbers\<close>

text \<open>
  A number is a fraction of naturals. \<open>fl\<close> rounds it to 53 significant bits, to nearest with ties
  to even. The range of the exponent plays no part in what follows: a scale that is too large for
  binary64 makes the product below 1, here as there.
\<close>

fun bit_length :: "nat \<Rightarrow> nat" where
  "bit_length n = (if n = 0 then 0 else Suc (bit_length (n div 2)))"

declare bit_length.simps [simp del]

definition round_half_even :: "nat \<Rightarrow> nat \<Rightarrow> nat" where
  "round_half_even p q =
     (let d = p div q; r = p mod q in if 2 * r < q \<or> 2 * r = q \<and> even d then d else d + 1)"

definition scale_by :: "int \<Rightarrow> nat \<times> nat \<Rightarrow> nat \<times> nat" where
  "scale_by e x = (if 0 \<le> e then (fst x * 2 ^ nat e, snd x) else (fst x, snd x * 2 ^ nat (- e)))"

definition fl :: "nat \<times> nat \<Rightarrow> nat \<times> nat" where
  "fl x =
     (if fst x = 0 then (0, 1)
      else let e = int (bit_length (fst x)) - int (bit_length (snd x)) - 53;
               (p, q) = scale_by (- e) x;
               e = (if 2 ^ 53 * q \<le> p then e + 1 else e);
               (p, q) = scale_by (- e) x
           in scale_by e (round_half_even p q, 1))"

definition fl_mult :: "nat \<times> nat \<Rightarrow> nat \<times> nat \<Rightarrow> nat \<times> nat" where
  "fl_mult x y = fl (fst x * fst y, snd x * snd y)"

definition fl_div :: "nat \<times> nat \<Rightarrow> nat \<times> nat \<Rightarrow> nat \<times> nat" where
  "fl_div x y = fl (fst x * snd y, snd x * fst y)"

section \<open>The parser\<close>

text \<open>Nanoseconds per unit; the two signs for micro are U+00B5 and U+03BC in UTF-8.\<close>

definition unitMap :: "(string \<times> nat) list" where
  "unitMap =
     [(''ns'', 1), (''us'', 1000), ([CHR 0xC2, CHR 0xB5, CHR ''s''], 1000), ([CHR 0xCE, CHR 0xBC, CHR ''s''], 1000),
      (''ms'', 1000000), (''s'', 1000000000), (''m'', 60000000000), (''h'', 3600000000000)]"

fun leadingInt :: "nat \<Rightarrow> string \<Rightarrow> (nat \<times> string) option" where
  "leadingInt x [] = Some (x, [])"
| "leadingInt x (c # s) =
     (if \<not> is_digit c then Some (x, c # s)
      else if 2 ^ 63 div 10 < x then None
      else let x = x * 10 + (code c - 48) in if 2 ^ 63 < x then None else leadingInt x s)"

text \<open>The digits behind the point, their scale, and the rest; digits after an overflow are skipped.\<close>

fun leadingFraction :: "nat \<Rightarrow> nat \<times> nat \<Rightarrow> bool \<Rightarrow> string \<Rightarrow> nat \<times> (nat \<times> nat) \<times> string" where
  "leadingFraction x scale over [] = (x, scale, [])"
| "leadingFraction x scale over (c # s) =
     (if \<not> is_digit c then (x, scale, c # s)
      else if over \<or> (2 ^ 63 - 1) div 10 < x then leadingFraction x scale True s
      else let y = x * 10 + (code c - 48)
           in if 2 ^ 63 < y then leadingFraction x scale True s
              else leadingFraction y (fl_mult scale (10, 1)) False s)"

text \<open>\<^verbatim>\<open>uint64(float64(f) * (float64(unit) / scale))\<close>\<close>

definition fraction_ns :: "nat \<Rightarrow> nat \<times> nat \<Rightarrow> nat \<Rightarrow> nat" where
  "fraction_ns f scale unit =
     (case fl_mult (fl (f, 1)) (fl_div (fl (unit, 1)) scale) of (p, q) \<Rightarrow> p div q)"

definition invalid_duration :: "string \<Rightarrow> goerr" where
  "invalid_duration orig = ErrorString (''time: invalid duration '' @ quoted orig)"

definition unit_char :: "char \<Rightarrow> bool" where
  "unit_char c \<longleftrightarrow> c \<noteq> CHR ''.'' \<and> \<not> is_digit c"

text \<open>One number with its unit, in nanoseconds, and what follows it.\<close>

definition duration_part :: "string \<Rightarrow> string \<Rightarrow> (nat \<times> string) result" where
  "duration_part orig s =
     (if \<not> (starts_with (CHR ''.'') s \<or> s \<noteq> [] \<and> is_digit (hd s)) then Inl (invalid_duration orig)
      else case leadingInt 0 s of
        None \<Rightarrow> Inl (invalid_duration orig)
      | Some (v, s1) \<Rightarrow>
          let pre = (length s1 \<noteq> length s);
              (f, scale, s2) =
                (if starts_with (CHR ''.'') s1 then leadingFraction 0 (1, 1) False (tl s1) else (0, (1, 1), s1));
              post = (starts_with (CHR ''.'') s1 \<and> length s2 \<noteq> length (tl s1));
              u = takeWhile unit_char s2
          in if \<not> pre \<and> \<not> post then Inl (invalid_duration orig)
             else if u = [] then Inl (ErrorString (''time: missing unit in duration '' @ quoted orig))
             else (case map_of unitMap u of
                 None \<Rightarrow> Inl (ErrorString (''time: unknown unit '' @ quoted u @ '' in duration '' @ quoted orig))
               | Some unit \<Rightarrow>
                   if 2 ^ 63 div unit < v then Inl (invalid_duration orig)
                   else let w = v * unit + (if 0 < f then fraction_ns f scale unit else 0)
                        in if 0 < f \<and> 2 ^ 63 < w then Inl (invalid_duration orig)
                           else Inr (w, dropWhile unit_char s2)))"

lemma length_leadingInt: "leadingInt x s = Some (v, r) \<Longrightarrow> length r \<le> length s"
  by (induction x s rule: leadingInt.induct) (auto simp: Let_def split: if_splits)

lemma length_leadingFraction: "leadingFraction x sc over s = (f, sc', r) \<Longrightarrow> length r \<le> length s"
proof (induction s arbitrary: x sc over)
  case (Cons c s)
  then show ?case by (auto simp: Let_def split: if_splits dest!: Cons.IH intro: le_SucI)
qed simp

lemma duration_part_shorter: "duration_part orig s = Inr (w, r) \<Longrightarrow> length r < length s"
proof -
  assume "duration_part orig s = Inr (w, r)"
  then obtain v s1 f scale s2 where int: "leadingInt 0 s = Some (v, s1)"
    and frac: "(if starts_with (CHR ''.'') s1 then leadingFraction 0 (1, 1) False (tl s1) else (0, (1, 1), s1))
      = (f, scale, s2)"
    and u: "takeWhile unit_char s2 \<noteq> []" and r: "r = dropWhile unit_char s2"
    by (auto simp: duration_part_def Let_def split: if_splits option.splits prod.splits)
  have "length s2 \<le> length s1"
    using frac length_leadingFraction [of 0 "(1, 1)" False "tl s1" f scale s2] by (auto split: if_splits)
  moreover have "length s1 \<le> length s" using length_leadingInt [OF int] .
  moreover have "length r < length s2"
  proof -
    have "length (takeWhile unit_char s2 @ dropWhile unit_char s2) = length s2" by simp
    then show ?thesis using u unfolding r length_append by (cases "takeWhile unit_char s2") simp_all
  qed
  ultimately show ?thesis by simp
qed

text \<open>The sum of the parts is a 64-bit counter.\<close>

function duration_loop :: "string \<Rightarrow> 64 word \<Rightarrow> string \<Rightarrow> 64 word result" where
  "duration_loop orig d s =
     (if s = [] then Inr d
      else case duration_part orig s of
        Inl e \<Rightarrow> Inl e
      | Inr (v, r) \<Rightarrow>
          let d = d + of_nat v
          in if 2 ^ 63 < unat d then Inl (invalid_duration orig) else duration_loop orig d r)"
  by pat_completeness auto
termination
  by (relation "measure (\<lambda>(orig, d, s). length s)") (auto dest: duration_part_shorter)

declare duration_loop.simps [simp del]

definition ParseDuration :: "string \<Rightarrow> int64 result" where
  "ParseDuration s =
     (let neg = starts_with (CHR ''-'') s;
          s1 = (if neg \<or> starts_with (CHR ''+'') s then tl s else s)
      in if s1 = ''0'' then Inr 0
         else if s1 = [] then Inl (invalid_duration s)
         else case duration_loop s 0 s1 of
             Inl e \<Rightarrow> Inl e
           | Inr d \<Rightarrow>
               if neg then Inr (- d)
               else if 2 ^ 63 - 1 < unat d then Inl (invalid_duration s) else Inr d)"

section \<open>What is printed is read back\<close>

text \<open>A duration as a sequence of whole numbers with units, as text and in nanoseconds.\<close>

definition duration_text :: "(nat \<times> string) list \<Rightarrow> string" where
  "duration_text ps = concat (map (\<lambda>(n, u). string_of_nat n @ u) ps)"

definition total_ns :: "(nat \<times> string) list \<Rightarrow> nat" where
  "total_ns ps = sum_list (map (\<lambda>(n, u). n * the (map_of unitMap u)) ps)"

definition known_units :: "(nat \<times> string) list \<Rightarrow> bool" where
  "known_units ps \<longleftrightarrow> list_all (\<lambda>(n, u). u \<in> fst ` set unitMap) ps"

lemma parts_simps [simp]:
  "duration_text [] = []" "total_ns [] = 0" "known_units []"
  "duration_text ((n, u) # ps) = string_of_nat n @ u @ duration_text ps"
  "total_ns ((n, u) # ps) = n * the (map_of unitMap u) + total_ns ps"
  "known_units ((n, u) # ps) \<longleftrightarrow> u \<in> fst ` set unitMap \<and> known_units ps"
  by (simp_all add: duration_text_def total_ns_def known_units_def)

lemma unit_chars: "u \<in> fst ` set unitMap \<Longrightarrow> u \<noteq> [] \<and> list_all unit_char u"
proof -
  have "\<forall>u \<in> fst ` set unitMap. u \<noteq> [] \<and> list_all unit_char u"
    by (simp add: unitMap_def unit_char_def is_digit_def)
  then show "u \<in> fst ` set unitMap \<Longrightarrow> u \<noteq> [] \<and> list_all unit_char u" by blast
qed

lemma unit_size: "u \<in> fst ` set unitMap \<Longrightarrow> \<exists>k. map_of unitMap u = Some k \<and> 0 < k"
proof -
  assume "u \<in> fst ` set unitMap"
  then obtain k where k: "map_of unitMap u = Some k" by (metis map_of_eq_None_iff not_None_eq)
  then have "(u, k) \<in> set unitMap" by (rule map_of_SomeD)
  then have "0 < k" by (auto simp: unitMap_def)
  with k show ?thesis by blast
qed

lemma duration_text_digit: "ps \<noteq> [] \<Longrightarrow> duration_text ps \<noteq> [] \<and> is_digit (hd (duration_text ps))"
  by (cases ps) (auto simp: hd_append hd_digit)

definition digits_from :: "nat \<Rightarrow> string \<Rightarrow> nat" where
  "digits_from x ds = foldl (\<lambda>n c. 10 * n + (code c - 48)) x ds"

lemma digits_from_le: "x \<le> digits_from x ds"
proof (induction ds arbitrary: x)
  case (Cons c ds)
  have "x \<le> 10 * x + (code c - 48)" by simp
  also have "\<dots> \<le> digits_from x (c # ds)" using Cons.IH by (simp add: digits_from_def)
  finally show ?case .
qed (simp add: digits_from_def)

lemma leadingInt_digits:
  assumes "list_all is_digit ds" and "r = [] \<or> \<not> is_digit (hd r)" and "x \<le> 2 ^ 63"
  shows "leadingInt x (ds @ r) =
    (if digits_from x ds \<le> 2 ^ 63 then Some (digits_from x ds, r) else None)"
  using assms(1,3)
proof (induction ds arbitrary: x)
  case Nil
  then show ?case using assms(2) by (cases r) (auto simp: digits_from_def)
next
  case (Cons c ds)
  let ?y = "x * 10 + (code c - 48)"
  have step: "digits_from x (c # ds) = digits_from ?y ds" by (simp add: digits_from_def mult.commute)
  have grows: "?y \<le> digits_from x (c # ds)" unfolding step by (rule digits_from_le)
  have "2 ^ 63 < ?y" if "2 ^ 63 div 10 < x" using that by simp
  with Cons.IH [of ?y] Cons.prems grows show ?case by (auto simp: Let_def step)
qed

lemma leadingInt_printed:
  "r = [] \<or> \<not> is_digit (hd r) \<Longrightarrow>
     leadingInt 0 (string_of_nat n @ r) = (if n \<le> 2 ^ 63 then Some (n, r) else None)"
proof -
  assume "r = [] \<or> \<not> is_digit (hd r)"
  moreover have "digits_from 0 (string_of_nat n) = n"
    using nat_of_digits_string_of_nat [of n] by (simp add: digits_from_def nat_of_digits_def)
  ultimately show ?thesis using leadingInt_digits [OF string_of_nat_digits, of r 0 n] by simp
qed

lemma duration_part_printed:
  assumes "u \<in> fst ` set unitMap" and "map_of unitMap u = Some k" and "r = [] \<or> is_digit (hd r)"
  shows "duration_part orig (string_of_nat n @ u @ r) =
    (if n * k \<le> 2 ^ 63 then Inr (n * k, r) else Inl (invalid_duration orig))"
proof -
  have k: "0 < k" using unit_size [OF assms(1)] assms(2) by auto
  note u = unit_chars [OF assms(1)]
  then have first: "\<not> is_digit (hd (u @ r))" "\<not> starts_with (CHR ''.'') (u @ r)"
    by (cases u; auto simp: unit_char_def starts_with_def)+
  have split: "takeWhile unit_char (u @ r) = u" "dropWhile unit_char (u @ r) = r"
    using u assms(3) by (cases r; auto simp: takeWhile_append dropWhile_append list_all_iff unit_char_def)+
  have "leadingInt 0 (string_of_nat n @ u @ r) = (if n \<le> 2 ^ 63 then Some (n, u @ r) else None)"
    using first(1) by (intro leadingInt_printed) blast
  moreover have "\<not> n * k \<le> 2 ^ 63" if "\<not> n \<le> 2 ^ 63"
  proof -
    have "n * 1 \<le> n * k" using k by (intro mult_le_mono2) simp
    with that show ?thesis by linarith
  qed
  moreover have "2 ^ 63 div k < n \<longleftrightarrow> 2 ^ 63 < n * k" using k by (rule div_less_iff_less_mult)
  ultimately show ?thesis
    using u split first(2) assms(2) hd_digit [of n]
    by (simp add: duration_part_def Let_def hd_append)
qed

lemma unat_plus_of_nat:
  fixes d :: "64 word"
  shows "unat d + v < 2 ^ 64 \<Longrightarrow> unat (d + of_nat v) = unat d + v"
  by (simp add: unat_word_ariths unat_of_nat)

text \<open>
  The counter of the sum has 64 bits and is only compared with 2 to the 63 after each addition, so
  a sum that reaches exactly 2 to the 63 and is then increased by exactly that much starts again
  at zero. That is the one way in which an accepted text is not the sum of its parts.
\<close>

definition counter_wraps :: "nat \<Rightarrow> (nat \<times> string) list \<Rightarrow> bool" where
  "counter_wraps d ps \<longleftrightarrow>
     (\<exists>qs n u rs. ps = qs @ (n, u) # rs \<and> n * the (map_of unitMap u) = 2 ^ 63 \<and>
        (d + total_ns qs) mod 2 ^ 64 = 2 ^ 63)"

lemma total_append: "total_ns (ps @ qs) = total_ns ps + total_ns qs"
  by (simp add: total_ns_def)

lemma counter_wraps_here:
  "n * the (map_of unitMap u) = 2 ^ 63 \<Longrightarrow> counter_wraps (2 ^ 63) ((n, u) # ps)"
  unfolding counter_wraps_def by (rule exI [of _ "[]"]) simp

lemma counter_wraps_later:
  assumes "counter_wraps e ps" and "e mod 2 ^ 64 = (d + n * the (map_of unitMap u)) mod 2 ^ 64"
  shows "counter_wraps d ((n, u) # ps)"
proof -
  from assms(1) obtain qs m v rs where ps: "ps = qs @ (m, v) # rs" "m * the (map_of unitMap v) = 2 ^ 63"
    and e: "(e + total_ns qs) mod 2 ^ 64 = 2 ^ 63" by (auto simp: counter_wraps_def)
  have "(d + total_ns ((n, u) # qs)) mod 2 ^ 64 = (e + total_ns qs) mod 2 ^ 64"
    using mod_add_cong [OF assms(2) refl, of "total_ns qs"] by (simp add: add.assoc)
  with ps e show ?thesis unfolding counter_wraps_def by (intro exI [of _ "(n, u) # qs"]) auto
qed

lemma unat_add_of_nat:
  fixes d :: "64 word"
  shows "unat (d + of_nat v) = (unat d + v) mod 2 ^ 64"
  by (simp add: unat_word_ariths unat_of_nat mod_simps)

lemma duration_loop_printed:
  assumes "known_units ps" and "unat d \<le> 2 ^ 63"
  shows "case duration_loop orig d (duration_text ps) of
      Inl e \<Rightarrow> e = invalid_duration orig \<and> 2 ^ 63 < unat d + total_ns ps
    | Inr e \<Rightarrow> e = d + of_nat (total_ns ps) \<and> unat e \<le> 2 ^ 63 \<and>
        (unat e = unat d + total_ns ps \<or> counter_wraps (unat d) ps)"
  using assms
proof (induction ps arbitrary: d)
  case Nil
  then show ?case by (simp add: duration_loop.simps)
next
  case (Cons p ps)
  obtain n u where p: "p = (n, u)" by fastforce
  with Cons.prems(1) have u: "u \<in> fst ` set unitMap" "known_units ps" by simp_all
  from unit_size [OF u(1)] obtain k where k: "map_of unitMap u = Some k" by blast
  have part: "duration_part orig (duration_text (p # ps)) =
      (if n * k \<le> 2 ^ 63 then Inr (n * k, duration_text ps) else Inl (invalid_duration orig))"
    using duration_part_printed [OF u(1) k, of "duration_text ps"] duration_text_digit [of ps]
    by (cases "ps = []") (auto simp: p)
  have total: "total_ns (p # ps) = n * k + total_ns ps" by (simp add: p k)
  let ?d = "d + of_nat (n * k)"
  have sum: "unat ?d = (unat d + n * k) mod 2 ^ 64" by (rule unat_add_of_nat)
  have "duration_text (p # ps) \<noteq> []" by (simp add: p)
  with part have step: "duration_loop orig d (duration_text (p # ps)) =
      (if n * k \<le> 2 ^ 63
       then if 2 ^ 63 < unat ?d then Inl (invalid_duration orig) else duration_loop orig ?d (duration_text ps)
       else Inl (invalid_duration orig))"
    by (subst duration_loop.simps) (simp add: Let_def)
  have grows: "unat ?d \<le> unat d + n * k" unfolding sum by (rule mod_less_eq_dividend)
  show ?case
  proof (cases "n * k \<le> 2 ^ 63 \<and> unat ?d \<le> 2 ^ 63")
    case False
    then have "2 ^ 63 < unat d + n * k" using grows by linarith
    with False show ?thesis unfolding step total by auto
  next
    case True
    note IH = Cons.IH [OF u(2) True [THEN conjunct2]]
    have word: "?d + of_nat (total_ns ps) = d + of_nat (total_ns (p # ps))" by (simp add: total add.assoc)
    show ?thesis
    proof (cases "duration_loop orig ?d (duration_text ps)")
      case (Inl e)
      with IH grows True show ?thesis unfolding step total by simp
    next
      case (Inr e)
      with IH have e: "e = d + of_nat (total_ns (p # ps))" "unat e \<le> 2 ^ 63"
        "unat e = unat ?d + total_ns ps \<or> counter_wraps (unat ?d) ps" unfolding word by auto
      have "unat e = unat d + total_ns (p # ps) \<or> counter_wraps (unat d) (p # ps)"
      proof (cases "unat d + n * k < 2 ^ 64")
        case small: True
        then have "unat ?d = unat d + n * k" unfolding sum by (rule mod_less)
        with e(3) counter_wraps_later [of "unat ?d" ps "unat d" n u] show ?thesis
          by (auto simp: total p k)
      next
        case False
        moreover have "(2 ^ 64 :: nat) = 2 ^ 63 + 2 ^ 63" by simp
        ultimately have "unat d = 2 ^ 63 \<and> n * k = 2 ^ 63"
          using True Cons.prems(2) by linarith
        then have "counter_wraps (unat d) (p # ps)" using counter_wraps_here [of n u ps] by (simp add: p k)
        then show ?thesis ..
      qed
      with True Inr e(1,2) show ?thesis unfolding step by simp
    qed
  qed
qed

text \<open>
  Durations in whole numbers are read exactly, to the last representable nanosecond: the text of
  any sequence of numbers with units, with or without a minus sign, is the sum of its parts as a
  64-bit integer, and an error only if that sum does not fit; the one exception is a sum that goes
  through the end of the counter unnoticed.
\<close>

definition fits_duration :: "bool \<Rightarrow> nat \<Rightarrow> bool" where
  "fits_duration neg n \<longleftrightarrow> (if neg then n \<le> 2 ^ 63 else n < 2 ^ 63)"

lemma duration_text_shape:
  assumes "known_units ps" and "ps \<noteq> []"
  shows "duration_text ps \<noteq> ''0''" and "\<not> starts_with (CHR ''-'') (duration_text ps)"
    and "\<not> starts_with (CHR ''+'') (duration_text ps)" and "duration_text ps \<noteq> []"
proof -
  have "2 \<le> length (duration_text ps)"
  proof (cases ps)
    case (Cons p qs)
    obtain n u where p: "p = (n, u)" by fastforce
    with Cons assms(1) have "u \<noteq> []" using unit_chars by auto
    then have "1 \<le> length u" "1 \<le> length (string_of_nat n)"
      by (simp_all add: Suc_le_eq)
    then show ?thesis by (simp add: Cons p)
  qed (use assms(2) in simp)
  then show "duration_text ps \<noteq> ''0''" "duration_text ps \<noteq> []" by auto
  show "\<not> starts_with (CHR ''-'') (duration_text ps)" "\<not> starts_with (CHR ''+'') (duration_text ps)"
    using duration_text_digit [OF assms(2)] by (auto simp: starts_with_def is_digit_def)
qed

lemma ParseDuration_printed:
  assumes "known_units ps" and "ps \<noteq> []"
  shows "case ParseDuration ((if neg then ''-'' else []) @ duration_text ps) of
      Inl e \<Rightarrow> opaque e \<and> \<not> fits_duration neg (total_ns ps)
    | Inr d \<Rightarrow> (let m = total_ns ps mod 2 ^ 64 in
        fits_duration neg m \<and> d = word_of_int (if neg then - int m else int m) \<and>
        (m = total_ns ps \<or> counter_wraps 0 ps))"
proof -
  let ?t = "duration_text ps" and ?m = "total_ns ps mod 2 ^ 64"
  let ?orig = "(if neg then ''-'' else []) @ ?t"
  note shape = duration_text_shape [OF assms]
  have parse: "ParseDuration ?orig = (case duration_loop ?orig 0 ?t of
        Inl e \<Rightarrow> Inl e
      | Inr d \<Rightarrow> if neg then Inr (- d)
          else if 2 ^ 63 - 1 < unat d then Inl (invalid_duration ?orig) else Inr d)"
    using shape by (cases neg) (auto simp: ParseDuration_def starts_with_def split: sum.split)
  note loop = duration_loop_printed [OF assms(1), of 0 ?orig]
  show ?thesis
  proof (cases "duration_loop ?orig 0 ?t")
    case (Inl e)
    with loop show ?thesis unfolding parse by (simp add: fits_duration_def invalid_duration_def)
  next
    case (Inr d)
    with loop have d: "d = of_nat (total_ns ps)" "unat d \<le> 2 ^ 63"
      "unat d = total_ns ps \<or> counter_wraps 0 ps" by auto
    have m: "unat d = ?m" using unat_add_of_nat [of 0 "total_ns ps"] by (simp add: d(1))
    have word: "word_of_int (int ?m) = d" "word_of_int (- int ?m) = - d"
      unfolding m [symmetric] by simp_all
    have "?m \<le> total_ns ps" by (rule mod_less_eq_dividend)
    then show ?thesis
      using d(2,3) m word unfolding parse Inr
      by (auto simp: fits_duration_def Let_def invalid_duration_def)
  qed
qed

lemma digits_printed: "map digit_char [0, 1, 2, 3, 4, 5, 6, 7, 8, 9] = ''0123456789''"
  by code_simp

text \<open>The last example is the sum that goes through the end of the counter.\<close>

lemma ParseDuration_examples:
  "ParseDuration ''1h30m'' = Inr 5400000000000"
  "ParseDuration ''9223372036854775808ns9223372036854775808ns'' = Inr 0"
proof -
  let ?ps = "[(1, ''h''), (30, ''m'')]"
    and ?qs = "[(9223372036854775808, ''ns''), (9223372036854775808, ''ns'')]"
  have printed: "duration_text ?ps = ''1h30m''" "duration_text ?qs = ''9223372036854775808ns9223372036854775808ns''"
    using digits_printed by (simp_all add: string_of_nat.simps)
  have total: "total_ns ?ps = 5400000000000" "total_ns ?qs = 2 ^ 64"
    by (simp_all add: unitMap_def)
  have known: "known_units ?ps" "known_units ?qs" by (simp_all add: unitMap_def)
  show "ParseDuration ''1h30m'' = Inr 5400000000000"
    using ParseDuration_printed [OF known(1), of False] unfolding printed total
    by (auto simp: fits_duration_def Let_def split: sum.splits)
  have parts: "duration_part o' ''9223372036854775808ns9223372036854775808ns'' =
      Inr (2 ^ 63, ''9223372036854775808ns'')" for o'
    using duration_part_printed [of "''ns''" 1 "''9223372036854775808ns''" o' 9223372036854775808] digits_printed
    by (simp add: unitMap_def string_of_nat.simps is_digit_def)
  have part: "duration_part o' ''9223372036854775808ns'' = Inr (2 ^ 63, [])" for o'
    using duration_part_printed [of "''ns''" 1 "[]" o' 9223372036854775808] digits_printed
    by (simp add: unitMap_def string_of_nat.simps)
  show "ParseDuration ''9223372036854775808ns9223372036854775808ns'' = Inr 0"
    by (simp add: ParseDuration_def starts_with_def duration_loop.simps parts part)
qed

end
