(* ===== verification/Aud.thy ===== *)
theory Aud
  imports Minimax Scheduler Server Sqlite_Open Durations
begin

text \<open>
  \<^verbatim>\<open>cmd/aud/main.go\<close>: reading the configuration from the environment, wiring the
  services, the API and the scheduler together at boot, and the run of the process. \<open>drv\<close> is the
  SQL driver of \<open>Sqlite_Open\<close>.
\<close>

section \<open>Standard base64\<close>

definition b64_value :: "char \<Rightarrow> nat option" where
  "b64_value c =
     (let n = of_char c :: nat
      in if 65 \<le> n \<and> n \<le> 90 then Some (n - 65)
         else if 97 \<le> n \<and> n \<le> 122 then Some (n - 71)
         else if 48 \<le> n \<and> n \<le> 57 then Some (n + 4)
         else if c = CHR ''+'' then Some 62
         else if c = CHR ''/'' then Some 63 else None)"

definition byte_of :: "nat \<Rightarrow> byte" where
  "byte_of n = word_of_nat n"

text \<open>Groups of four; bits that do not fill a byte are ignored, as the library's default does.\<close>

fun b64_groups :: "string \<Rightarrow> bytes option" where
  "b64_groups [] = Some []"
| "b64_groups (a # b # c # d # rest) =
     (case (b64_value a, b64_value b) of
        (Some x, Some y) \<Rightarrow>
          if c = CHR ''='' then
            (if d = CHR ''='' \<and> rest = [] then Some [byte_of (x * 4 + y div 16)] else None)
          else (case b64_value c of
            None \<Rightarrow> None
          | Some z \<Rightarrow>
              if d = CHR ''='' then
                (if rest = [] then Some [byte_of (x * 4 + y div 16), byte_of (y mod 16 * 16 + z div 4)]
                 else None)
              else (case b64_value d of
                None \<Rightarrow> None
              | Some u \<Rightarrow>
                  map_option (\<lambda>bs. byte_of (x * 4 + y div 16) # byte_of (y mod 16 * 16 + z div 4) #
                      byte_of (z mod 4 * 64 + u) # bs) (b64_groups rest)))
      | _ \<Rightarrow> None)"
| "b64_groups _ = None"

definition DecodeString :: "string \<Rightarrow> bytes option" where
  "DecodeString s = b64_groups (filter (\<lambda>c. c \<noteq> CHR 0x0D \<and> c \<noteq> CHR 0x0A) s)"

section \<open>The configuration\<close>

definition defaultPort :: string where
  "defaultPort = ''8080''"

definition defaultPollInterval :: int64 where
  "defaultPollInterval = 300000000000"

definition defaultDBPath :: string where
  "defaultDBPath = ''./data/aud.db''"

definition masterKeyLen :: nat where
  "masterKeyLen = 32"

definition readHeaderTimeout :: int64 where
  "readHeaderTimeout = 5000000000"

definition readTimeout :: int64 where
  "readTimeout = 10000000000"

definition writeTimeout :: int64 where
  "writeTimeout = 10000000000"

definition idleTimeout :: int64 where
  "idleTimeout = 60000000000"

definition fetch_timeout :: int64 where
  "fetch_timeout = 30000000000"

definition maxAuthCooldown :: int64 where
  "maxAuthCooldown = 3600000000000"

record config =
  cfg_port :: string
  cfg_masterKey :: bytes
  cfg_pollInterval :: int64
  cfg_dbPath :: string

text \<open>What a log line shows of a configuration.\<close>

definition LogValue :: "config \<Rightarrow> (string \<times> string) list" where
  "LogValue c =
     [(''port'', cfg_port c),
      (''masterKeySet'', if length (cfg_masterKey c) > 0 then ''true'' else ''false''),
      (''pollInterval'', string_of_int (sint (cfg_pollInterval c))),
      (''dbPath'', cfg_dbPath c)]"

definition key_required :: string where
  "key_required = ''AUD_MASTER_KEY is required (base64-encoded, must decode to 32 bytes '' @
     [CHR 0xE2, CHR 0x80, CHR 0x94] @ '' e.g. `openssl rand -base64 32`)''"

text \<open>\<open>env\<close> is \<^verbatim>\<open>os.Getenv\<close>: an unset variable reads as the empty string.\<close>

definition loadConfig :: "(string \<Rightarrow> string) \<Rightarrow> config result" where
  "loadConfig env =
     (let port = (let v = TrimSpace (env ''AUD_HTTP_PORT'') in if v \<noteq> [] then v else defaultPort);
          path = (let v = TrimSpace (env ''AUD_DB_PATH'') in if v \<noteq> [] then v else defaultDBPath);
          poll = (let v = TrimSpace (env ''AUD_POLL_INTERVAL'')
                  in if v \<noteq> [] then ParseDuration v else Inr defaultPollInterval)
      in case poll of
           Inl e \<Rightarrow> Inl (Wrap ''parse AUD_POLL_INTERVAL'' e)
         | Inr d \<Rightarrow>
             (let v = TrimSpace (env ''AUD_MASTER_KEY'')
              in if v = [] then Inl (ErrorString key_required)
                 else case DecodeString v of
                   None \<Rightarrow> Inl (ErrorString ''AUD_MASTER_KEY: invalid base64 encoding'')
                 | Some key \<Rightarrow>
                     if length key \<noteq> masterKeyLen
                     then Inl (ErrorString (''AUD_MASTER_KEY: must decode to '' @
                            string_of_nat masterKeyLen @ '' bytes, got '' @ string_of_nat (length key)))
                     else Inr \<lparr>cfg_port = port, cfg_masterKey = key, cfg_pollInterval = d,
                               cfg_dbPath = path\<rparr>))"

section \<open>Boot\<close>

text \<open>The part of \<^verbatim>\<open>http.Server\<close> that is set.\<close>

record 's http_server =
  srv_Addr :: string
  srv_Handler :: "'s http_handler"
  srv_ReadHeaderTimeout :: int64
  srv_ReadTimeout :: int64
  srv_WriteTimeout :: int64
  srv_IdleTimeout :: int64

record 'z app =
  app_config :: config
  app_store :: "('z host_scheme) store"
  app_providers :: "('z host_scheme) provider_service"
  app_credentials :: "('z host_scheme) credential_service"
  app_collector :: "('z host_scheme) collector"
  app_scheduler :: "('z host_scheme) scheduler"
  app_server :: "('z host_scheme) http_server"

abbreviation app_handler :: "'z app \<Rightarrow> ('z host_scheme) http_handler" where
  "app_handler a \<equiv> srv_Handler (app_server a)"

text \<open>The embedded files, and the order in which Go ranges over a credential map.\<close>

record build =
  bd_uiHTML :: string
  bd_spec :: string
  bd_order :: "(string \<times> string) list \<Rightarrow> (string \<times> string) list"

definition wire ::
    "build \<Rightarrow> config \<Rightarrow> ('z host_scheme) store \<Rightarrow> ('z host_scheme) provider_service \<Rightarrow> 'z app" where
  "wire bd cfg db providerSvc =
     (let authCooldown = NewAuthCooldownRegistry (cfg_pollInterval cfg) maxAuthCooldown;
          credentialSvc = NewCredentialService (st_credentials db) (cfg_masterKey cfg) (Some Clear);
          col = NewCollector providerSvc credentialSvc (st_snapshots db);
          httpServer =
            \<lparr>srv_Addr = '':'' @ cfg_port cfg,
             srv_Handler = server_New (bd_uiHTML bd) (bd_spec bd)
               (NewProviderRepository providerSvc)
               (NewCredentialRepository (bd_order bd) providerSvc credentialSvc)
               (NewUsageGetter providerSvc (st_snapshots db))
               (NewUsageRefresher col),
             srv_ReadHeaderTimeout = readHeaderTimeout, srv_ReadTimeout = readTimeout,
             srv_WriteTimeout = writeTimeout, srv_IdleTimeout = idleTimeout\<rparr>
      in \<lparr>app_config = cfg, app_store = db, app_providers = providerSvc, app_credentials = credentialSvc,
          app_collector = col,
          app_scheduler = scheduler_New providerSvc col (cfg_pollInterval cfg) fetch_timeout
            (Some authCooldown),
          app_server = httpServer\<rparr>)"

text \<open>
  The deferred call that closes the store; it runs on every way out of \<^verbatim>\<open>run\<close>, also
  when \<^verbatim>\<open>RegisterFetcher\<close> panics.
\<close>

definition close_store :: "('z host_scheme) store \<Rightarrow> 'z host_scheme \<Rightarrow> 'z host_scheme" where
  "close_store db s =
     (case st_Close db s of
        (Inl e, s1) \<Rightarrow> slog Error ''close store'' [(''error'', error_text e)] s1
      | (Inr _, s1) \<Rightarrow> s1)"

definition boot ::
    "build \<Rightarrow> (string \<Rightarrow> string) \<Rightarrow> ('z host_scheme) sql_driver
       \<Rightarrow> 'z host_scheme \<Rightarrow> ('z app result) or_panic \<times> 'z host_scheme" where
  "boot bd env drv s =
     (case loadConfig env of
        Inl e \<Rightarrow> (Inr (Inl e), s)
      | Inr cfg \<Rightarrow>
          (case sqlite_New drv (cfg_dbPath cfg) (slog Info ''configuration loaded'' (LogValue cfg) s) of
             (Inl e, s1) \<Rightarrow> (Inr (Inl (Wrap ''open store'' e)), s1)
           | (Inr db, s1) \<Rightarrow>
               let providerSvc = NewService (st_providers db) Registry
               in case Reconcile providerSvc s1 of
                    (Inl e, s2) \<Rightarrow> (Inr (Inl (Wrap ''reconcile providers'' e)), close_store db s2)
                  | (Inr _, s2) \<Rightarrow>
                      (case RegisterFetcher minimax_New providerSvc of
                         Inl msg \<Rightarrow> (Inl msg, close_store db s2)
                       | Inr providerSvc \<Rightarrow> (Inr (Inr (wire bd cfg db providerSvc)), s2))))"

text \<open>
  How serving ends: the listener returns (an error, or \<^verbatim>\<open>ErrServerClosed\<close>, which is
  not one), or the signal arrives and the shutdown succeeds or fails.
\<close>

datatype serve_outcome = ListenerError string | ListenerClosed | Signalled "string option"

definition serve_result :: "serve_outcome \<Rightarrow> 'z runtime_scheme \<Rightarrow> unit result \<times> 'z runtime_scheme" where
  "serve_result out s =
     (case out of
        ListenerError m \<Rightarrow> (Inl (ErrorString m), s)
      | ListenerClosed \<Rightarrow> (Inr (), s)
      | Signalled err \<Rightarrow>
          (let s1 = slog Info ''shutdown signal received'' [] s
           in case err of
                Some m \<Rightarrow> (Inl (ErrorString m), s1)
              | None \<Rightarrow> (Inr (), slog Info ''server stopped cleanly'' [] s1)))"

text \<open>
  \<open>serving\<close> is what the requests and the scheduler do to the state until \<open>out\<close> happens. The
  deferred calls (stopping the scheduler, waiting for it, closing the store, in this order) come
  after it. When the goroutine of the scheduler panics, the process ends with what was served
  until then, and nothing deferred runs.
\<close>

definition run ::
    "build \<Rightarrow> (string \<Rightarrow> string) \<Rightarrow> ('z host_scheme) sql_driver
       \<Rightarrow> ('z app \<Rightarrow> 'z host_scheme \<Rightarrow> 'z host_scheme) \<Rightarrow> serve_outcome \<Rightarrow> 'z host_scheme
       \<Rightarrow> (unit result) or_panic \<times> 'z host_scheme" where
  "run bd env drv serving out s =
     (case boot bd env drv s of
        (Inl msg, s1) \<Rightarrow> (Inl msg, s1)
      | (Inr (Inl e), s1) \<Rightarrow> (Inr (Inl e), s1)
      | (Inr (Inr a), s1) \<Rightarrow>
          (let s2 = serving a (slog Info ''starting server'' [(''addr'', srv_Addr (app_server a))] s1)
           in case Run (app_scheduler a) [] s1 of
                Inl msg \<Rightarrow> (Inl msg, s2)
              | Inr _ \<Rightarrow> (case serve_result out s2 of (r, s3) \<Rightarrow> (Inr r, close_store (app_store a) s3))))"

definition bootstrap ::
    "build \<Rightarrow> (string \<Rightarrow> string)
       \<Rightarrow> ('z host_scheme) sql_driver
       \<Rightarrow> ('z app \<Rightarrow> 'z host_scheme \<Rightarrow> 'z host_scheme) \<Rightarrow> serve_outcome \<Rightarrow> 'z host_scheme
       \<Rightarrow> (unit result) or_panic \<times> 'z host_scheme" where
  "bootstrap bd env drv serving out s =
     (case run bd env drv serving out s of
        (Inr (Inl e), s1) \<Rightarrow>
          (Inr (Inl e), slog Error ''service exited with error'' [(''error'', error_text e)] s1)
      | (r, s1) \<Rightarrow> (r, s1))"

text \<open>The exit code of the process; a Go program that panics exits with 2.\<close>

definition aud_main :: "(unit result) or_panic \<Rightarrow> nat" where
  "aud_main r = (case r of Inl msg \<Rightarrow> 2 | Inr (Inl e) \<Rightarrow> 1 | Inr (Inr _) \<Rightarrow> 0)"

end
