(* ===== verification/Config_Laws.thy ===== *)
theory Config_Laws
  imports Aud
begin

text \<open>
  The configuration of \<^verbatim>\<open>cmd/aud\<close>: a master key in standard base64 is read back
  byte for byte, with the white space around it that a shell or \<^verbatim>\<open>openssl\<close> leaves,
  and nothing but 32 bytes is accepted. \<open>b64_encode\<close> is the encoder of RFC 4648, against
  which the decoder of the library model is checked.
\<close>

section \<open>White space\<close>

definition blank :: "char \<Rightarrow> bool" where
  "blank c \<longleftrightarrow> c \<in> {CHR 0x20, CHR 0x09, CHR 0x0A, CHR 0x0D}"

definition printable :: "char \<Rightarrow> bool" where
  "printable c \<longleftrightarrow> 32 < (of_char c :: nat) \<and> (of_char c :: nat) < 127"

text \<open>The function that looks for a rune at the front of a string.\<close>

definition rune_at :: "string \<Rightarrow> string \<Rightarrow> bool" where
  "rune_at s r \<longleftrightarrow> r \<noteq> [] \<and> take (length r) s = r"

lemma strip_runes_eq:
  "strip_runes runes s =
     (case find (rune_at s) runes of None \<Rightarrow> s | Some r \<Rightarrow> strip_runes runes (drop (length r) s))"
  by (subst strip_runes.simps) (simp add: rune_at_def [abs_def])

lemma rune_at_simps [simp]:
  "rune_at s [] = False" "rune_at [] r = False"
  "rune_at (c # s) (d # r) \<longleftrightarrow> c = d \<and> take (length r) s = r"
  by (auto simp: rune_at_def)

lemma find_blank:
  "blank c \<Longrightarrow> find (rune_at (c # s)) space_runes = Some [c]"
  "blank c \<Longrightarrow> find (rune_at (c # s)) (map rev space_runes) = Some [c]"
proof -
  assume "blank c"
  then consider "c = CHR 0x20" | "c = CHR 0x09" | "c = CHR 0x0A" | "c = CHR 0x0D"
    by (auto simp: blank_def)
  then show "find (rune_at (c # s)) space_runes = Some [c]"
    by cases (simp_all add: space_runes_def)
next
  assume "blank c"
  then consider "c = CHR 0x20" | "c = CHR 0x09" | "c = CHR 0x0A" | "c = CHR 0x0D"
    by (auto simp: blank_def)
  then show "find (rune_at (c # s)) (map rev space_runes) = Some [c]"
    by cases (simp_all add: space_runes_def)
qed

lemma rune_ends:
  "list_all (\<lambda>r. r \<noteq> [] \<and> \<not> printable (hd r) \<and> \<not> printable (last r)) space_runes"
  by (simp add: space_runes_def printable_def)

lemma find_printable:
  assumes "printable c"
  shows "find (rune_at (c # s)) space_runes = None" "find (rune_at (c # s)) (map rev space_runes) = None"
proof -
  have "\<not> rune_at (c # s) r" if "r \<noteq> []" "\<not> printable (hd r)" for r
    using that assms by (cases r) auto
  moreover have "hd (rev r) = last r" for r :: string by (simp add: hd_rev)
  ultimately show "find (rune_at (c # s)) space_runes = None"
    "find (rune_at (c # s)) (map rev space_runes) = None"
    using rune_ends by (auto simp: find_None_iff list_all_iff)
qed

lemma strip_blank:
  "blank c \<Longrightarrow> strip_runes space_runes (c # s) = strip_runes space_runes s"
  "blank c \<Longrightarrow> strip_runes (map rev space_runes) (c # s) = strip_runes (map rev space_runes) s"
  using find_blank [of c s]
  by (simp_all only: strip_runes_eq [of _ "c # s"] option.case list.size drop_Suc_Cons drop_0 add_0 One_nat_def)

lemma strip_blanks:
  "list_all blank pre \<Longrightarrow> strip_runes space_runes (pre @ s) = strip_runes space_runes s"
  "list_all blank pre \<Longrightarrow>
     strip_runes (map rev space_runes) (pre @ s) = strip_runes (map rev space_runes) s"
  by (induction pre) (simp_all add: strip_blank)

lemma strip_printable:
  "list_all printable s \<Longrightarrow> strip_runes space_runes (s @ t) = (if s = [] then strip_runes space_runes t else s @ t)"
  "list_all printable s \<Longrightarrow>
     strip_runes (map rev space_runes) (s @ t) = (if s = [] then strip_runes (map rev space_runes) t else s @ t)"
  by (cases s; simp add: strip_runes_eq [of _ "_ # _"] find_printable)+

lemma strip_none [simp]: "strip_runes runes [] = []"
proof -
  have "find (rune_at []) runes = None" by (simp add: find_None_iff)
  then show ?thesis by (simp add: strip_runes_eq)
qed

lemma TrimSpace_blanks:
  assumes "list_all blank pre" and "list_all printable s" and "list_all blank post"
  shows "TrimSpace (pre @ s @ post) = s"
proof -
  have post: "strip_runes space_runes post = []" "strip_runes (map rev space_runes) (rev post) = []"
    using strip_blanks(1) [OF assms(3), of "[]"] strip_blanks(2) [of "rev post" "[]"] assms(3)
    by (simp_all add: list_all_iff)
  have "strip_runes space_runes (pre @ s @ post) = (if s = [] then [] else s @ post)"
    by (simp add: strip_blanks(1) [OF assms(1)] strip_printable(1) [OF assms(2)] post)
  moreover have "strip_runes (map rev space_runes) (rev post @ rev s) = rev s"
    using strip_blanks(2) [of "rev post" "rev s"] strip_printable(2) [of "rev s" "[]"] assms(2,3)
    by (simp add: list_all_iff)
  ultimately show ?thesis by (simp add: TrimSpace_def trim_left_def)
qed

section \<open>Base64\<close>

definition b64_char :: "nat \<Rightarrow> char" where
  "b64_char n =
     (if n < 26 then char_of (n + 65) else if n < 52 then char_of (n + 71)
      else if n < 62 then char_of (n - 4) else if n = 62 then CHR ''+'' else CHR ''/'')"

fun b64_encode :: "bytes \<Rightarrow> string" where
  "b64_encode [] = []"
| "b64_encode [a] =
     [b64_char (unat a div 4), b64_char (unat a mod 4 * 16), CHR ''='', CHR ''='']"
| "b64_encode [a, b] =
     [b64_char (unat a div 4), b64_char (unat a mod 4 * 16 + unat b div 16),
      b64_char (unat b mod 16 * 4), CHR ''='']"
| "b64_encode (a # b # c # bs) =
     [b64_char (unat a div 4), b64_char (unat a mod 4 * 16 + unat b div 16),
      b64_char (unat b mod 16 * 4 + unat c div 64), b64_char (unat c mod 64)] @ b64_encode bs"

lemma of_b64_char:
  assumes "n < 64"
  shows "b64_value (b64_char n) = Some n" and "printable (b64_char n)" and "b64_char n \<noteq> CHR ''=''"
proof -
  consider "n < 26" | "26 \<le> n \<and> n < 52" | "52 \<le> n \<and> n < 62" | "n = 62" | "n = 63"
    using assms by linarith
  then have all: "b64_value (b64_char n) = Some n \<and> printable (b64_char n) \<and> b64_char n \<noteq> CHR ''=''"
    by cases (auto simp: b64_char_def b64_value_def printable_def Let_def char_of_eq_iff take_bit_eq_mod)
  then show "b64_value (b64_char n) = Some n" "printable (b64_char n)" "b64_char n \<noteq> CHR ''=''" by simp_all
qed

lemma byte_bounds:
  fixes a b c :: byte
  shows "unat a div 4 < 64" "unat a mod 4 * 16 + unat b div 16 < 64" "unat a mod 4 * 16 < 64"
    "unat b mod 16 * 4 + unat c div 64 < 64" "unat b mod 16 * 4 < 64" "unat c mod 64 < 64"
proof -
  have "unat x < 256" for x :: byte using unsigned_less [of x] by simp
  from this [of a] this [of b] this [of c] show
    "unat a div 4 < 64" "unat a mod 4 * 16 + unat b div 16 < 64" "unat a mod 4 * 16 < 64"
    "unat b mod 16 * 4 + unat c div 64 < 64" "unat b mod 16 * 4 < 64" "unat c mod 64 < 64"
    by linarith+
qed

lemma byte_of_unat [simp]: "byte_of (unat b) = b"
  by (simp add: byte_of_def)

lemma byte_parts [simp]:
  fixes b :: byte
  shows "unat b div 16 div 16 = 0" "unat b div 64 div 4 = 0" "unat b div 16 mod 16 = unat b div 16"
    "unat b div 64 mod 4 = unat b div 64"
proof -
  have "unat b < 256" using unsigned_less [of b] by simp
  then show "unat b div 16 div 16 = 0" "unat b div 64 div 4 = 0" "unat b div 16 mod 16 = unat b div 16"
    "unat b div 64 mod 4 = unat b div 64"
    by (simp_all add: div_mult2_eq [symmetric])
qed

lemma b64_groups_encode: "b64_groups (b64_encode bs) = Some bs"
  by (induction bs rule: b64_encode.induct)
    (simp_all add: of_b64_char byte_bounds)

lemma b64_encode_printable: "list_all printable (b64_encode bs)"
  by (induction bs rule: b64_encode.induct)
    (simp_all add: of_b64_char byte_bounds, simp_all add: printable_def)

lemma DecodeString_encode: "DecodeString (b64_encode bs) = Some bs"
proof -
  have "filter (\<lambda>c. c \<noteq> CHR 0x0D \<and> c \<noteq> CHR 0x0A) (b64_encode bs) = b64_encode bs"
    using b64_encode_printable [of bs] by (auto simp: filter_id_conv list_all_iff printable_def)
  then show ?thesis by (simp add: DecodeString_def b64_groups_encode)
qed

section \<open>Loading the configuration\<close>

definition or_default :: "string \<Rightarrow> string \<Rightarrow> string" where
  "or_default v d = (if TrimSpace v = [] then d else TrimSpace v)"

lemma loadConfig_key:
  "loadConfig env = Inr cfg \<Longrightarrow> length (cfg_masterKey cfg) = 32"
  by (auto simp: loadConfig_def Let_def masterKeyLen_def split: sum.splits option.splits if_splits)

lemma DecodeString_Nil: "DecodeString [] = Some []"
  by (simp add: DecodeString_def)

lemma b64_encode_Nil_iff: "b64_encode key = [] \<longleftrightarrow> key = []"
  by (induction key rule: b64_encode.induct) simp_all

text \<open>
  C31: The master key survives its way through the environment: set to the base64 text of some
  bytes, with any white space around it, the configuration is accepted exactly when these are 32
  bytes (and the poll interval parses), and then holds these very bytes, with the defaults for
  what is unset; otherwise the error says what is wrong. What the start-up log line shows of an
  accepted configuration is the same for every key.
\<close>
theorem loadConfig_roundtrip:
  assumes "env ''AUD_MASTER_KEY'' = pre @ b64_encode key @ post"
    and "list_all blank pre" and "list_all blank post"
  shows "case (if TrimSpace (env ''AUD_POLL_INTERVAL'') = [] then Inr 300000000000
      else ParseDuration (TrimSpace (env ''AUD_POLL_INTERVAL''))) of
    Inl e \<Rightarrow> loadConfig env = Inl (Wrap ''parse AUD_POLL_INTERVAL'' e)
  | Inr d \<Rightarrow>
      if length key = 32 then
        \<exists>cfg. loadConfig env = Inr cfg \<and>
          cfg = \<lparr>cfg_port = or_default (env ''AUD_HTTP_PORT'') ''8080'', cfg_masterKey = key,
            cfg_pollInterval = d, cfg_dbPath = or_default (env ''AUD_DB_PATH'') ''./data/aud.db''\<rparr> \<and>
          LogValue cfg = [(''port'', cfg_port cfg), (''masterKeySet'', ''true''),
            (''pollInterval'', string_of_int (sint d)), (''dbPath'', cfg_dbPath cfg)]
      else loadConfig env =
        Inl (ErrorString (if key = [] then key_required
          else ''AUD_MASTER_KEY: must decode to 32 bytes, got '' @ string_of_nat (length key)))"
proof -
  have trim: "TrimSpace (env ''AUD_MASTER_KEY'') = b64_encode key"
    unfolding assms(1) by (rule TrimSpace_blanks [OF assms(2) b64_encode_printable assms(3)])
  have digits: "string_of_nat 32 = ''32''" by code_simp
  show ?thesis
    by (cases "length key = 32"; cases "key = []")
      (auto simp: loadConfig_def Let_def trim DecodeString_encode b64_encode_Nil_iff masterKeyLen_def
        defaultPollInterval_def defaultPort_def defaultDBPath_def or_default_def LogValue_def digits
        split: sum.split)
qed

definition demo_env :: "string \<Rightarrow> string" where
  "demo_env name =
     (if name = ''AUD_MASTER_KEY'' then b64_encode (replicate 32 7) @ [CHR 0x0A] else [])"

lemma TrimSpace_Nil [simp]: "TrimSpace [] = []"
  by (simp add: TrimSpace_def trim_left_def)

definition demo_config :: config where
  "demo_config = \<lparr>cfg_port = ''8080'', cfg_masterKey = replicate 32 7, cfg_pollInterval = 300000000000,
                  cfg_dbPath = ''./data/aud.db''\<rparr>"

theorem loadConfig_roundtrip_witness:
  "loadConfig demo_env = Inr demo_config"
proof -
  have env: "demo_env ''AUD_MASTER_KEY'' = [] @ b64_encode (replicate 32 7) @ [CHR 0x0A]"
    "demo_env ''AUD_POLL_INTERVAL'' = []" "demo_env ''AUD_HTTP_PORT'' = []" "demo_env ''AUD_DB_PATH'' = []"
    by (simp_all add: demo_env_def)
  have "list_all blank [CHR 0x0A]" by (simp add: blank_def)
  with loadConfig_roundtrip [where env = demo_env and pre = "[]" and post = "[CHR 0x0A]"
      and key = "replicate 32 7"] env(1) show ?thesis
    by (simp add: env(2-4) or_default_def demo_config_def)
qed

lemma demo_config_loads: "loadConfig demo_env = Inr demo_config"
proof -
  have "TrimSpace ([] @ b64_encode (replicate 32 7) @ [CHR 0x0A]) = b64_encode (replicate 32 7)"
    by (rule TrimSpace_blanks) (simp_all add: b64_encode_printable blank_def)
  moreover have "b64_encode (replicate 32 7) \<noteq> []" by (simp add: b64_encode_Nil_iff)
  ultimately show ?thesis
    by (simp add: loadConfig_def demo_env_def DecodeString_encode masterKeyLen_def demo_config_def
        defaultPollInterval_def defaultPort_def defaultDBPath_def)
qed

section \<open>The poll interval\<close>

lemma poll_interval_read:
  assumes "DecodeString (TrimSpace (env ''AUD_MASTER_KEY'')) = Some key" and "length key = 32"
    and "TrimSpace (env ''AUD_MASTER_KEY'') \<noteq> []" and "TrimSpace (env ''AUD_POLL_INTERVAL'') = v" and "v \<noteq> []"
  shows "case ParseDuration v of
      Inl e \<Rightarrow> loadConfig env = Inl (Wrap ''parse AUD_POLL_INTERVAL'' e)
    | Inr d \<Rightarrow> \<exists>cfg. loadConfig env = Inr cfg \<and> cfg_pollInterval cfg = d \<and> cfg_masterKey cfg = key"
  using assms by (simp add: loadConfig_def Let_def masterKeyLen_def split: sum.split)

text \<open>
  C30: The poll interval of the environment, to the last nanosecond: with a good master key, the
  text of any sequence of whole numbers with units, with or without a minus sign, is refused only
  when its sum does not fit into a 64-bit duration, and an accepted one is its sum, unless the sum
  went unnoticed through the end of the 64-bit counter of the standard library (one part of
  exactly 2 to the 63 ns on top of exactly as much), and then it is the sum modulo 2 to the 64. An
  accepted interval is one the scheduler can be started with exactly when it is positive: the
  boot does not refuse zero and negative ones, and starting the scheduler panics.
\<close>
theorem poll_interval_exact:
  assumes "DecodeString (TrimSpace (env ''AUD_MASTER_KEY'')) = Some key" and "length key = 32"
    and "TrimSpace (env ''AUD_MASTER_KEY'') \<noteq> []"
    and "TrimSpace (env ''AUD_POLL_INTERVAL'') = (if neg then ''-'' else []) @ duration_text ps"
    and "known_units ps" and "ps \<noteq> []"
  shows "case loadConfig env of
      Inl e \<Rightarrow> opaque e \<and> \<not> fits_duration neg (total_ns ps)
    | Inr cfg \<Rightarrow>
        (let m = total_ns ps mod 2 ^ 64
         in fits_duration neg m \<and> (m = total_ns ps \<or> counter_wraps 0 ps) \<and>
            sint (cfg_pollInterval cfg) = (if neg then - int m else int m) \<and>
            (\<forall>p c r evs s. (\<exists>msg. Run (scheduler_New p c (cfg_pollInterval cfg) fetch_timeout r) evs s = Inl msg)
               \<longleftrightarrow> neg \<or> m = 0))"
proof -
  let ?v = "(if neg then ''-'' else []) @ duration_text ps" and ?m = "total_ns ps mod 2 ^ 64"
  let ?n = "if neg then - int ?m else int ?m"
  have "?v \<noteq> []" using duration_text_digit [OF assms(6)] by simp
  note read = poll_interval_read [OF assms(1-4) this]
  note parsed = ParseDuration_printed [OF assms(5,6), of neg]
  show ?thesis
  proof (cases "ParseDuration ?v")
    case (Inl e)
    with read parsed show ?thesis by (simp add: Inl)
  next
    case (Inr d)
    from read [unfolded Inr sum.case] obtain cfg where
      cfg: "loadConfig env = Inr cfg" "cfg_pollInterval cfg = d" by blast
    from parsed [unfolded Inr sum.case] have fits: "fits_duration neg ?m" "d = word_of_int ?n"
      "?m = total_ns ps \<or> counter_wraps 0 ps" by (simp_all add: Let_def)
    have "sint d = ?n"
      unfolding fits(2) using fits(1) by (intro sint_of_int64) (auto simp: fits_duration_def split: if_splits)
    with cfg fits show ?thesis
      by (auto simp: Run_def scheduler_New_def Let_def split: if_splits)
  qed
qed

definition slow_env :: "string \<Rightarrow> string" where
  "slow_env name = (if name = ''AUD_POLL_INTERVAL'' then '' -2h30m '' else demo_env name)"

theorem poll_interval_exact_witness:
  "\<exists>cfg. loadConfig slow_env = Inr cfg \<and> sint (cfg_pollInterval cfg) = - 9000000000000"
proof -
  let ?ps = "[(2, ''h''), (30, ''m'')]"
  have printed: "duration_text ?ps = ''2h30m''"
    using digits_printed by (simp add: string_of_nat.simps)
  have env: "DecodeString (TrimSpace (slow_env ''AUD_MASTER_KEY'')) = Some (replicate 32 7)"
    "TrimSpace (slow_env ''AUD_MASTER_KEY'') \<noteq> []"
  proof -
    have "slow_env ''AUD_MASTER_KEY'' = [] @ b64_encode (replicate 32 7) @ [CHR 0x0A]"
      by (simp add: slow_env_def demo_env_def)
    then have "TrimSpace (slow_env ''AUD_MASTER_KEY'') = b64_encode (replicate 32 7)"
      using TrimSpace_blanks [of "[]" "b64_encode (replicate 32 7)" "[CHR 0x0A]"]
      by (simp add: b64_encode_printable blank_def)
    then show "DecodeString (TrimSpace (slow_env ''AUD_MASTER_KEY'')) = Some (replicate 32 7)"
      "TrimSpace (slow_env ''AUD_MASTER_KEY'') \<noteq> []"
      by (simp_all add: DecodeString_encode b64_encode_Nil_iff)
  qed
  have "TrimSpace (slow_env ''AUD_POLL_INTERVAL'') = (if True then ''-'' else []) @ duration_text ?ps"
    unfolding printed slow_env_def by code_simp
  moreover have "total_ns ?ps = 9000000000000" by (simp add: unitMap_def)
  moreover have "known_units ?ps" by (simp add: unitMap_def)
  ultimately show ?thesis
    using env poll_interval_exact [of slow_env "replicate 32 7" True ?ps]
    by (auto simp: fits_duration_def Let_def split: sum.splits)
qed

end
