(* ===== verification/System.thy ===== *)
theory System
  imports Runtime_Step Dashboard Config_Laws
begin

text \<open>
  The whole service: every operation behind the API, every request through the HTTP handler and
  every scheduled attempt implements the abstract machine of \<open>Dashboard\<close>; the states the
  process can reach, over all interleavings of requests, attempts and restarts; and what holds
  in each of them.
\<close>

section \<open>Implementing an effect\<close>

definition implements :: "metadata list \<Rightarrow> bytes \<Rightarrow> 'z host_scheme \<Rightarrow> 'z host_scheme \<Rightarrow> bool" where
  "implements cat key s t \<longleftrightarrow> (wf_db s \<longrightarrow> wf_db t \<and> effect cat key (view_of s) (view_of t))"

lemma view_of_runtime:
  fixes s t :: "'z host_scheme"
  assumes "runtime.more t = runtime.more s"
  shows "view_of t = view_of s"
  using same_more_tables [OF assms] by (simp add: view_of_def)

interpretation steps: runtime_step "implements cat key" for cat key
proof
  show "implements cat key s s" for s :: "'z host_scheme"
    by (simp add: implements_def effect.intros(1))
  show "implements cat key s1 t1 = implements cat key s2 t2"
    if "runtime.more s1 = runtime.more s2" and "runtime.more t1 = runtime.more t2"
    for s1 s2 t1 t2 :: "'z host_scheme"
    using that [THEN view_of_runtime] that [THEN same_more_tables(1)] by (simp add: implements_def)
qed

text \<open>An operation that only reads, and one that reads first.\<close>

definition quiet_step :: "'z host_scheme \<Rightarrow> 'z host_scheme \<Rightarrow> bool" where
  "quiet_step s t \<longleftrightarrow> (wf_db s \<longrightarrow> wf_db t \<and> view_of t = view_of s)"

lemma quiet_implements: "quiet_step s t \<Longrightarrow> implements cat key s t"
  by (simp add: quiet_step_def implements_def effect.intros(1))

lemma quiet_then: "quiet_step s t \<Longrightarrow> implements cat key t u \<Longrightarrow> implements cat key s u"
  unfolding quiet_step_def implements_def by metis

lemma quiet_trans: "quiet_step s t \<Longrightarrow> quiet_step t u \<Longrightarrow> quiet_step s u"
  unfolding quiet_step_def by metis

lemma Get_quiet:
  "svc_repo psvc = sqlite_providers \<Longrightarrow> service_Get psvc p s = (r, s1) \<Longrightarrow> quiet_step s s1"
  using Get_sqlite [of s psvc p r s1] by (simp add: quiet_step_def view_of_def)

section \<open>The operations behind the API\<close>

lemma op_List:
  fixes psvc :: "('z host_scheme) provider_service"
  assumes "svc_repo psvc = sqlite_providers"
  shows "steps.op_does cat key (ListProviders (NewProviderRepository psvc))"
  unfolding steps.op_does_def
proof
  fix s :: "'z host_scheme"
  obtain r t where run: "service_List psvc s = (r, t)" by fastforce
  have "quiet_step s t"
    using sqlite_prov.service_List_client [OF _ assms run] providers_rest_tables [of t s]
    by (simp add: quiet_step_def view_of_def)
  with run show "implements cat key s (snd (ListProviders (NewProviderRepository psvc) s))"
    by (cases r) (simp_all add: NewProviderRepository_def quiet_implements)
qed

lemma state_of_answer [simp]: "snd (provider_answer r) = snd r"
  by (simp add: provider_answer_def split: prod.split sum.split)

lemma op_Get:
  fixes psvc :: "('z host_scheme) provider_service"
  assumes "svc_repo psvc = sqlite_providers"
  shows "steps.op_does cat key (GetProvider (NewProviderRepository psvc) p)"
  unfolding steps.op_does_def
proof
  fix s :: "'z host_scheme"
  obtain r t where "service_Get psvc p s = (r, t)" by fastforce
  with Get_quiet [OF assms this] show "implements cat key s (snd (GetProvider (NewProviderRepository psvc) p s))"
    by (simp add: NewProviderRepository_def quiet_implements)
qed

lemma SetEnabled_view:
  fixes psvc :: "('z host_scheme) provider_service"
  assumes "svc_repo psvc = sqlite_providers" and "wf_db s" and run: "service_SetEnabled psvc p b s = (r, t)"
  shows "wf_db t \<and> (view_of t = view_of s \<or>
    listed (svc_registry psvc) p \<and> v_enabled (view_of s) p \<noteq> None \<and>
    view_of t = view_of s\<lparr>v_enabled := (v_enabled (view_of s))(p \<mapsto> b)\<rparr>)"
proof -
  note law = sqlite_prov.service_SetEnabled_client [OF assms(2,1) run]
  have same: "secret_in t = secret_in s" "latest_in t = latest_in s" "entries t = entries s"
    using law providers_rest_tables [of t s] by simp_all
  consider (same) "enabled_in t = enabled_in s"
    | (set) m where "service_metadata psvc p = Some m" "enabled_in s p \<noteq> None"
        "enabled_in t = (enabled_in s)(p \<mapsto> b)"
  proof (cases "service_metadata psvc p")
    case None
    with run have "t = s" by (simp add: service_SetEnabled_def)
    then show ?thesis using that(1) by simp
  qed (use law that in \<open>auto split: sum.splits\<close>)
  then show ?thesis
  proof cases
    case same
    with \<open>secret_in t = _\<close> \<open>latest_in t = _\<close> \<open>entries t = _\<close> law show ?thesis by (simp add: view_of_def)
  next
    case (set m)
    have "view_of t = view_of s\<lparr>v_enabled := (v_enabled (view_of s))(p \<mapsto> b)\<rparr>"
      using same set(3) by (simp add: view_of_def)
    with law set(2) catalog_simps(1) [OF set(1)] show ?thesis by (simp add: view_of_def)
  qed
qed

lemma SetEnabled_implements:
  fixes psvc :: "('z host_scheme) provider_service"
  assumes "svc_repo psvc = sqlite_providers"
  shows "implements (svc_registry psvc) key s (snd (service_SetEnabled psvc p b s))"
proof -
  obtain r t where run: "service_SetEnabled psvc p b s = (r, t)" by fastforce
  from SetEnabled_view [OF assms _ this] effect.intros(1,2) show ?thesis
    unfolding implements_def run snd_conv by metis
qed

lemma op_SetEnabled:
  fixes psvc :: "('z host_scheme) provider_service"
  assumes "svc_repo psvc = sqlite_providers"
  shows "steps.op_does (svc_registry psvc) key (EnableProvider (NewProviderRepository psvc) p)"
    and "steps.op_does (svc_registry psvc) key (DisableProvider (NewProviderRepository psvc) p)"
  using SetEnabled_implements [OF assms]
  by (simp_all add: steps.op_does_def NewProviderRepository_def)

lemma view_of_Clear: "view_of (Clear p s) = view_of s\<lparr>v_gate := (entries s)(p := None)\<rparr>"
  by (simp add: view_of_def Clear_def enabled_in_def secret_in_def latest_in_def fun_eq_iff)

lemma wf_db_Clear: "wf_db (Clear p s) = wf_db s"
  by (simp add: Clear_def wf_db_def)

lemma SetValues_implements:
  fixes psvc :: "('z host_scheme) provider_service"
  assumes "sqlite_services psvc csvc" and "service_metadata psvc p = Some m"
    and fields: "cf_name ` set (md_fields m) = fst ` set vs" and "distinct (map fst vs)"
  shows "implements (svc_registry psvc) (cs_masterKey csvc) s (snd (SetValues csvc p vs s))"
proof -
  let ?cat = "svc_registry psvc" and ?key = "cs_masterKey csvc"
  have svc: "cs_repo csvc = sqlite_credentials" "cs_cooldown csvc = Some Clear"
    using assms(1) by (auto simp: sqlite_services_def)
  have declared: "fields_of ?cat p = fst ` set vs" using catalog_simps(2) [OF assms(2)] fields by simp
  obtain u s1 where set: "set_values csvc p vs s = (u, s1)" by fastforce
  define t where "t = (case u of Inl e \<Rightarrow> s1 | Inr _ \<Rightarrow> Clear p s1)"
  have run: "snd (SetValues csvc p vs s) = t"
    using set svc(2) by (simp add: SetValues_def t_def split: sum.split)
  have "wf_db t \<and> effect ?cat ?key (view_of s) (view_of t)" if "wf_db s"
  proof -
    note law = sqlite_gated.set_values_client [OF that svc(1) assms(4) set]
    have same: "enabled_in s1 = enabled_in s" "latest_in s1 = latest_in s" "entries s1 = entries s"
      using law credentials_rest_tables [of s1 s] by simp_all
    let ?gate = "case u of Inl e \<Rightarrow> entries s | Inr _ \<Rightarrow> (entries s)(p := None)"
    have "view_of t = view_of s\<lparr>v_secret := secret_in s1, v_gate := ?gate\<rparr>"
      using same by (cases u) (simp_all add: t_def view_of_Clear, simp_all add: view_of_def)
    moreover have "effect ?cat ?key (view_of s) (view_of s\<lparr>v_secret := secret_in s1, v_gate := ?gate\<rparr>)"
    proof (rule effect.stored [OF catalog_simps(1) [OF assms(2)]])
      show "secret_in s1 q f = v_secret (view_of s) q f" if "q \<noteq> p \<or> f \<notin> fields_of ?cat p" for q f
        using law that by (simp add: declared view_of_def)
      show "secret_in s1 p f = v_secret (view_of s) p f \<or> opens_to ?key p f (secret_in s1 p f) \<noteq> None"
        if "f \<in> fields_of ?cat p" for f
        using law that by (fastforce simp: declared view_of_def)
      show "?gate = v_gate (view_of s) \<or>
          ?gate = (v_gate (view_of s))(p := None) \<and> complete ?cat ?key (secret_in s1) p"
        using law by (cases u) (auto simp: view_of_def complete_def declared)
    qed
    moreover have "wf_db t" using law by (cases u) (simp_all add: t_def wf_db_Clear)
    ultimately show ?thesis by simp
  qed
  then show ?thesis by (simp add: run implements_def)
qed

lemmas credential_repository_defs =
  NewCredentialRepository_def Let_def adapter_SetCredentials_def adapter_GetCredentialPresence_def
  adapter_DeleteCredentials_def

lemma op_SetCredentials:
  fixes psvc :: "('z host_scheme) provider_service"
  assumes "sqlite_services psvc csvc" and "\<forall>vs. mset (order vs) = mset vs"
    and "distinct (map fst vs)"
  shows "steps.op_does (svc_registry psvc) (cs_masterKey csvc)
    (SetCredentials (NewCredentialRepository order psvc csvc) p vs)"
  unfolding steps.op_does_def
proof
  fix s :: "'z host_scheme"
  obtain g s1 where get: "service_Get psvc p s = (g, s1)" by fastforce
  have repo: "svc_repo psvc = sqlite_providers" using assms(1) by (simp add: sqlite_services_def)
  note quiet = Get_quiet [OF repo get]
  let ?call = "SetCredentials (NewCredentialRepository order psvc csvc) p vs s"
  show "implements (svc_registry psvc) (cs_masterKey csvc) s (snd ?call)"
  proof (cases "\<exists>q m. g = Inr q \<and> service_metadata psvc p = Some m \<and> md_fields q = md_fields m \<and>
      validateCredentialFields (md_fields m) vs = None")
    case True
    then obtain q m where m: "g = Inr q" "service_metadata psvc p = Some m" "md_fields q = md_fields m"
      "validateCredentialFields (md_fields m) vs = None" by blast
    note perm = permuted_entries [OF assms(2) [rule_format, of vs]]
    have "implements (svc_registry psvc) (cs_masterKey csvc) s1 (snd (SetValues csvc p (order vs) s1))"
      using m(4) assms(3) perm
      by (intro SetValues_implements [OF assms(1) m(2)]) (simp_all add: validateCredentialFields_None_iff)
    from quiet_then [OF quiet this] get m show ?thesis
      by (simp add: credential_repository_defs)
  next
    case False
    have "snd ?call = s1"
    proof (cases g)
      case (Inr q)
      then obtain m where "service_metadata psvc p = Some m" "md_fields q = md_fields m"
        using get by (auto simp: service_Get_def split: option.splits prod.splits sum.splits)
      with False Inr get show ?thesis
        by (auto simp: credential_repository_defs split: option.splits)
    qed (simp add: get credential_repository_defs)
    with quiet show ?thesis by (simp add: quiet_implements)
  qed
qed

lemma Presence_quiet:
  "cs_repo csvc = sqlite_credentials \<Longrightarrow> Presence csvc p s = (r, t) \<Longrightarrow> quiet_step s t"
  using sqlite_cred.Presence_client [of s csvc p r t] credentials_rest_tables [of t s]
  by (auto simp: quiet_step_def view_of_def)

lemma op_Presence:
  fixes psvc :: "('z host_scheme) provider_service"
  assumes "sqlite_services psvc csvc"
  shows "steps.op_does cat key (GetCredentialPresence (NewCredentialRepository order psvc csvc) p)"
  unfolding steps.op_does_def
proof
  fix s :: "'z host_scheme"
  obtain g s1 where get: "service_Get psvc p s = (g, s1)" by fastforce
  obtain r s2 where pres: "Presence csvc p s1 = (r, s2)" by fastforce
  from assms have "quiet_step s s1" "quiet_step s1 s2"
    using Get_quiet [OF _ get] Presence_quiet [OF _ pres] by (simp_all add: sqlite_services_def)
  with quiet_trans [OF this] get pres
  show "implements cat key s (snd (GetCredentialPresence (NewCredentialRepository order psvc csvc) p s))"
    by (cases g; cases r)
      (simp_all add: credential_repository_defs quiet_implements)
qed

lemma Delete_view:
  assumes "cs_repo csvc = sqlite_credentials" and "wf_db s" and "Delete csvc p s = (d, t)"
  shows "wf_db t \<and> (view_of t = view_of s \<or>
    view_of t = view_of s\<lparr>v_secret := (v_secret (view_of s))(p := (\<lambda>_. None))\<rparr>)"
proof -
  note law = sqlite_cred.Delete_client [OF assms(2,1,3)]
  have "enabled_in t = enabled_in s" "latest_in t = latest_in s" "entries t = entries s"
    using law credentials_rest_tables [of t s] by simp_all
  with law show ?thesis by (cases d) (simp_all add: view_of_def)
qed

lemma Delete_implements:
  assumes "cs_repo csvc = sqlite_credentials" and "service_metadata psvc p = Some m"
  shows "implements (svc_registry psvc) key s (snd (Delete csvc p s))"
proof -
  obtain d t where run: "Delete csvc p s = (d, t)" by fastforce
  from Delete_view [OF assms(1) _ run] effect.intros(1)
    effect.erased [OF catalog_simps(1) [OF assms(2)], of key] show ?thesis
    unfolding implements_def run snd_conv by metis
qed

lemma op_Delete:
  fixes psvc :: "('z host_scheme) provider_service"
  assumes "sqlite_services psvc csvc"
  shows "steps.op_does (svc_registry psvc) key
    (DeleteCredentials (NewCredentialRepository order psvc csvc) p)"
  unfolding steps.op_does_def
proof
  fix s :: "'z host_scheme"
  obtain g s1 where get: "service_Get psvc p s = (g, s1)" by fastforce
  have repos: "svc_repo psvc = sqlite_providers" "cs_repo csvc = sqlite_credentials"
    using assms by (simp_all add: sqlite_services_def)
  note quiet = Get_quiet [OF repos(1) get]
  show "implements (svc_registry psvc) key s
    (snd (DeleteCredentials (NewCredentialRepository order psvc csvc) p s))"
  proof (cases g)
    case (Inr q)
    then obtain m where "service_metadata psvc p = Some m"
      using get by (auto simp: service_Get_def split: option.splits)
    from quiet_then [OF quiet Delete_implements [OF repos(2) this]] get Inr show ?thesis
      by (simp add: credential_repository_defs)
  qed (use quiet get in \<open>simp add: credential_repository_defs quiet_implements\<close>)
qed

lemma op_GetUsage:
  fixes psvc :: "('z host_scheme) provider_service"
  assumes "svc_repo psvc = sqlite_providers"
  shows "steps.op_does cat key (GetUsage (NewUsageGetter psvc sqlite_snapshots) p)"
  unfolding steps.op_does_def
proof
  fix s :: "'z host_scheme"
  obtain g s1 where get: "service_Get psvc p s = (g, s1)" by fastforce
  obtain r s2 where snap: "snap_GetSnapshot sqlite_snapshots p s1 = (r, s2)" by fastforce
  have "quiet_step s1 s2"
    using sqlite_snap.GetSnapshot_law [OF _ snap] snapshots_rest_tables [of s2 s1]
    by (auto simp: quiet_step_def view_of_def)
  with quiet_trans [OF Get_quiet [OF assms get] this] Get_quiet [OF assms get] get snap
  show "implements cat key s (snd (GetUsage (NewUsageGetter psvc sqlite_snapshots) p s))"
    by (cases g; cases r) (simp_all add: NewUsageGetter_def adapter_GetUsage_def quiet_implements)
qed

section \<open>Collections\<close>

definition col_catalog :: "'s collector \<Rightarrow> metadata list" where
  "col_catalog c = svc_registry (col_providers c)"

definition col_key :: "'s collector \<Rightarrow> bytes" where
  "col_key c = cs_masterKey (col_credentials c)"

text \<open>What has been established when a collection stored a snapshot or met an \<^verbatim>\<open>ErrAuth\<close>.\<close>

definition attempted :: "('z host_scheme) collector \<Rightarrow> string \<Rightarrow> 'z host_scheme \<Rightarrow> bool" where
  "attempted c p s \<longleftrightarrow> listed (col_catalog c) p \<and> v_enabled (view_of s) p = Some True \<and>
     complete (col_catalog c) (col_key c) (v_secret (view_of s)) p"

lemma attempted_intro:
  assumes "service_metadata (col_providers c) p = Some m" and "enabled_in s p = Some True"
    and "credentialed (col_credentials c) (secret_in s) p (md_fields m)"
  shows "attempted c p s"
  using assms catalog_simps [OF assms(1)]
  by (simp add: attempted_def col_catalog_def col_key_def view_of_def complete_def credentialed_def)

lemma Collect_stored:
  assumes "wf_db s" and "sqlite_wired c" and "Collect c p s = (Inr sn, t)"
  shows "wf_db t \<and> attempted c p s \<and>
    (\<exists>r. snapshot_for p r \<and> view_of t = view_of s\<lparr>v_latest := (v_latest (view_of s))(p \<mapsto> r)\<rparr>)"
proof -
  note law = sqlite_store.Collect_client [OF assms(1) assms(2) [unfolded sqlite_wired_iff] assms(3)]
  then obtain m where "service_metadata (col_providers c) p = Some m"
    "credentialed (col_credentials c) (secret_in s) p (md_fields m)" by auto
  with law have "attempted c p s" by (intro attempted_intro) simp_all
  moreover have "view_of t = view_of s\<lparr>v_latest := (v_latest (view_of s))
      (p \<mapsto> kept_snapshot p (snap_metrics sn) (snap_collected_at sn))\<rparr>"
    using law by (simp add: view_of_def beside_db_def)
  ultimately show ?thesis using law kept_snapshot_for by auto
qed

lemma Collect_failed:
  assumes "sqlite_wired c" and "Collect c p s = (Inl e, t)"
  shows "quiet_step s t"
  using Collect_sqlite [OF _ assms] by (simp add: quiet_step_def view_of_def)

lemma Collect_auth:
  assumes "wf_db s" and "sqlite_wired c" and "Collect c p s = (Inl e, t)" and "errors_is e ErrAuth"
  shows "attempted c p s"
proof -
  obtain g s1 where first: "gather c p s = (g, s1)" by fastforce
  note law = sqlite_store.gather_client [OF assms(1) assms(2) [unfolded sqlite_wired_iff] first]
  show ?thesis
  proof (cases g)
    case (Inl e')
    with first law assms(3,4) show ?thesis by (simp add: Collect_halves)
  next
    case (Inr cr)
    with law show ?thesis by (auto intro: attempted_intro)
  qed
qed

lemma op_Refresh:
  fixes c :: "('z host_scheme) collector"
  assumes "sqlite_wired c"
  shows "steps.op_does (col_catalog c) (col_key c) (RefreshUsage (NewUsageRefresher c) p)"
  unfolding steps.op_does_def
proof
  fix s :: "'z host_scheme"
  obtain r t where run: "Collect c p s = (r, t)" by fastforce
  have "implements (col_catalog c) (col_key c) s t"
  proof (cases r)
    case (Inl e)
    with Collect_failed [OF assms] run show ?thesis by (simp add: quiet_implements)
  next
    case (Inr sn)
    have "effect (col_catalog c) (col_key c) (view_of s) (view_of t)" if "wf_db s"
    proof -
      from Collect_stored [OF that assms run [unfolded Inr]] obtain r' where "attempted c p s"
        "snapshot_for p r'"
        "view_of t = view_of s\<lparr>v_latest := (v_latest (view_of s))(p \<mapsto> r')\<rparr>"
        by (elim conjE exE)
      with effect.collected [of "col_catalog c" p "view_of s" "col_key c" r' "v_gate (view_of s)"]
      show ?thesis by (simp add: attempted_def)
    qed
    with Collect_stored [OF _ assms] run Inr show ?thesis by (simp add: implements_def)
  qed
  with run show "implements (col_catalog c) (col_key c) s (snd (RefreshUsage (NewUsageRefresher c) p s))"
    by (cases r) (simp_all add: NewUsageRefresher_def adapter_RefreshUsage_def)
qed

section \<open>Scheduled attempts\<close>

lemma view_of_slog [simp]: "view_of (slog l m as s) = view_of s" "wf_db (slog l m as s) = wf_db s"
  using view_of_runtime [of "slog l m as s" s] same_more_tables(1) [of "slog l m as s" s]
  by (simp_all add: runtime_more_frame)

lemma view_of_recordFailure:
  "\<exists>e. view_of (recordFailure reg p s) = view_of s\<lparr>v_gate := (entries s)(p \<mapsto> e)\<rparr> \<and>
     failures e = (case entries s p of None \<Rightarrow> 1 | Some e0 \<Rightarrow> failures e0 + 1)"
  "wf_db (recordFailure reg p s) = wf_db s"
  by (auto simp: recordFailure_eq Let_def view_of_def enabled_in_def secret_in_def latest_in_def wf_db_def
      fun_eq_iff split: option.split)

lemma settle_implements:
  fixes sch :: "('z host_scheme) scheduler"
  assumes "sqlite_wired (sch_collector sch)" and "attempt sch p s = (r, t)" and "wf_db s"
  shows "wf_db (settle sch p r t) \<and> effect (col_catalog (sch_collector sch)) (col_key (sch_collector sch))
    (view_of s) (view_of (settle sch p r t))"
proof -
  let ?c = "sch_collector sch"
  define s0 where "s0 = (if sch_cooldown sch = None then s else snd (active p s))"
  have more: "runtime.more s0 = runtime.more s" by (simp add: s0_def active_frame)
  have s0: "wf_db s0" "view_of s0 = view_of s"
    using view_of_runtime [OF more] same_more_tables(1) [OF more] assms(3) by simp_all
  have run: "Collect ?c p s0 = (r, t)" using assms(2) by (simp add: attempt_def s0_def)
  show ?thesis
  proof (cases r)
    case (Inr sn)
    from Collect_stored [OF s0(1) assms(1) run [unfolded Inr]] obtain r' where
      r': "wf_db t" "attempted ?c p s0" "snapshot_for p r'"
        "view_of t = view_of s\<lparr>v_latest := (v_latest (view_of s))(p \<mapsto> r')\<rparr>"
      unfolding s0(2) by (elim conjE exE)
    let ?gate = "if sch_cooldown sch = None then entries s else (entries s)(p := None)"
    have "entries t = entries s" using r'(4) by (simp add: view_of_def)
    then have "view_of (settle sch p r t) =
        view_of s\<lparr>v_latest := (v_latest (view_of s))(p \<mapsto> r'), v_gate := ?gate\<rparr>"
      using r'(4) Inr by (simp add: settle_def view_of_Clear) (simp add: view_of_def)
    moreover have "wf_db (settle sch p r t)" using r'(1) Inr by (simp add: settle_def wf_db_Clear)
    ultimately show ?thesis
      using effect.collected [of "col_catalog ?c" p "view_of s" "col_key ?c" r' ?gate] r'(2,3) s0(2)
      by (simp add: attempted_def view_of_def)
  next
    case (Inl e)
    have t: "wf_db t" "view_of t = view_of s"
      using Collect_failed [OF assms(1)] run Inl s0 by (auto simp: quiet_step_def)
    show ?thesis
    proof (cases "errors_is e ErrAuth \<and> sch_cooldown sch \<noteq> None")
      case True
      then obtain reg where reg: "sch_cooldown sch = Some reg" by auto
      from True have "\<not> errors_is e ErrFetcherNotFound" using errors_is_unique by blast
      with True reg Inl have settle: "view_of (settle sch p r t) = view_of (recordFailure reg p t)"
        "wf_db (settle sch p r t)"
        using t(1) by (simp_all add: settle_def view_of_recordFailure(2))
      obtain e' where e': "view_of (recordFailure reg p t) = view_of s\<lparr>v_gate := (entries t)(p \<mapsto> e')\<rparr>"
        "failures e' = (case entries t p of None \<Rightarrow> 1 | Some e0 \<Rightarrow> failures e0 + 1)"
        using view_of_recordFailure(1) [of reg p t] t(2) by auto
      have "entries t = v_gate (view_of s)" using t(2) by (simp add: view_of_def)
      moreover have "attempted ?c p s0" using Collect_auth [OF s0(1) assms(1)] run Inl True by simp
      ultimately show ?thesis
        using effect.gated [of "col_catalog ?c" p "view_of s" "col_key ?c" e'] e' settle s0(2)
        by (simp add: attempted_def)
    next
      case False
      with Inl t have "view_of (settle sch p r t) = view_of s" "wf_db (settle sch p r t)"
        by (auto simp: settle_def split: option.split)
      then show ?thesis by (simp add: effect.intros(1))
    qed
  qed
qed

lemma collectOne_implements:
  fixes sch :: "('z host_scheme) scheduler"
  assumes "sqlite_wired (sch_collector sch)"
  shows "implements (col_catalog (sch_collector sch)) (col_key (sch_collector sch)) s (collectOne sch p s)"
proof -
  obtain r t where att: "attempt sch p s = (r, t)" by fastforce
  have "quiet_step s (snd (active p s))"
    using view_of_runtime [OF active_frame [of p s]] same_more_tables(1) [OF active_frame [of p s]]
    by (simp add: quiet_step_def)
  then show ?thesis
    using settle_implements [OF assms att] att
    by (auto simp: collectOne_eq implements_def quiet_step_def effect.intros(1))
qed

section \<open>The booted service\<close>

lemma register_minimax:
  "\<exists>psvc. RegisterFetcher minimax_New (NewService sqlite_providers Registry) = Inr psvc \<and>
     svc_repo psvc = sqlite_providers \<and> svc_registry psvc = Registry \<and>
     svc_fetchers psvc = [''minimax'' \<mapsto> Some minimax_New]"
  by (simp add: RegisterFetcher_def NewService_def service_metadata_def Registry_def minimax_New_def
      NewWithClient_def Metadata_def register_def newRuntimeRegistry_def Let_def)

lemma boot_cases:
  fixes s :: "'z host_scheme"
  assumes "boot bd env drv s = (r, t)"
  obtains (no_config) e where "r = Inr (Inl e)" and "t = s" and "loadConfig env = Inl e"
  | (no_database) cfg e e' where "r = Inr (Inl e)" and "loadConfig env = Inr cfg"
      and "sqlite_New drv (cfg_dbPath cfg) (slog Info ''configuration loaded'' (LogValue cfg) s) = (Inl e', t)"
  | (no_rows) cfg s1 e where "r = Inr (Inl e)" and "loadConfig env = Inr cfg"
      and "sqlite_New drv (cfg_dbPath cfg) (slog Info ''configuration loaded'' (LogValue cfg) s) = (Inr (sqliteStore drv), s1)"
      and "t = close_store (sqliteStore drv) (snd (Reconcile (NewService sqlite_providers Registry) s1))"
  | (ready) cfg s1 psvc where "r = Inr (Inr (wire bd cfg (sqliteStore drv) psvc))"
      and "loadConfig env = Inr cfg"
      and "sqlite_New drv (cfg_dbPath cfg) (slog Info ''configuration loaded'' (LogValue cfg) s) = (Inr (sqliteStore drv), s1)"
      and "Reconcile (NewService sqlite_providers Registry) s1 = (Inr (), t)"
      and "RegisterFetcher minimax_New (NewService sqlite_providers Registry) = Inr psvc"
proof (cases "loadConfig env")
  case (Inl e)
  with assms show ?thesis by (auto simp: boot_def intro: no_config)
next
  case (Inr cfg)
  obtain d s1 where db: "sqlite_New drv (cfg_dbPath cfg) (slog Info ''configuration loaded'' (LogValue cfg) s) = (d, s1)"
    by fastforce
  show ?thesis
  proof (cases d)
    case Failed: (Inl e)
    show ?thesis by (rule no_database [OF _ Inr]) (use assms Inr db Failed in \<open>auto simp: boot_def\<close>)
  next
    case Open: (Inr u)
    have u: "u = sqliteStore drv" using sqlite_New_store db Open by blast
    obtain x s2 where rec: "Reconcile (NewService sqlite_providers Registry) s1 = (x, s2)" by fastforce
    obtain psvc :: "('z host_scheme) provider_service" where psvc: "RegisterFetcher minimax_New (NewService sqlite_providers Registry) = Inr psvc"
      using register_minimax by blast
    show ?thesis
    proof (cases x)
      case (Inl e)
      with assms \<open>loadConfig _ = Inr cfg\<close> db Open u rec
      show ?thesis by (intro no_rows [of _ cfg s1]) (auto simp: boot_def Let_def sqliteStore_def)
    next
      case Done: (Inr y)
      with assms Inr db Open u rec psvc
      show ?thesis by (intro ready [of cfg psvc s1]) (auto simp: boot_def Let_def sqliteStore_def)
    qed
  qed
qed

text \<open>How the services of a booted process are connected.\<close>

lemma booted_wiring:
  fixes s :: "'z host_scheme"
  assumes "boot bd env drv s = (Inr (Inr a), t)"
  obtains cfg psvc where "a = wire bd cfg (sqliteStore drv) psvc" and "svc_repo psvc = sqlite_providers"
    and "svc_registry psvc = Registry"
proof -
  from assms show ?thesis
  proof (cases rule: boot_cases)
    case (ready cfg s1 psvc)
    from register_minimax ready(5) have "svc_repo psvc = sqlite_providers" "svc_registry psvc = Registry"
      by (metis Inr_inject)+
    with ready(1) show ?thesis by (intro that) auto
  qed simp_all
qed

lemma wire_simps [simp]:
  "app_config (wire bd cfg (sqliteStore drv) psvc) = cfg" "app_store (wire bd cfg (sqliteStore drv) psvc) = sqliteStore drv" "app_providers (wire bd cfg (sqliteStore drv) psvc) = psvc"
  "col_providers (app_collector (wire bd cfg (sqliteStore drv) psvc)) = psvc"
  "col_credentials (app_collector (wire bd cfg (sqliteStore drv) psvc)) = app_credentials (wire bd cfg (sqliteStore drv) psvc)"
  "col_snapshots (app_collector (wire bd cfg (sqliteStore drv) psvc)) = sqlite_snapshots"
  "sch_providers (app_scheduler (wire bd cfg (sqliteStore drv) psvc)) = psvc"
  "sch_collector (app_scheduler (wire bd cfg (sqliteStore drv) psvc)) = app_collector (wire bd cfg (sqliteStore drv) psvc)"
  "cs_masterKey (app_credentials (wire bd cfg (sqliteStore drv) psvc)) = cfg_masterKey cfg"
  "cs_repo (app_credentials (wire bd cfg (sqliteStore drv) psvc)) = sqlite_credentials"
  "cs_cooldown (app_credentials (wire bd cfg (sqliteStore drv) psvc)) = Some Clear"
  "sch_cooldown (app_scheduler (wire bd cfg (sqliteStore drv) psvc)) =
     Some (NewAuthCooldownRegistry (cfg_pollInterval cfg) maxAuthCooldown)"
  "col_key (app_collector (wire bd cfg (sqliteStore drv) psvc)) = cfg_masterKey cfg"
  "col_catalog (app_collector (wire bd cfg (sqliteStore drv) psvc)) = svc_registry psvc"
  by (simp_all add: wire_def sqliteStore_def Let_def NewCollector_def NewCredentialService_def scheduler_New_def
      col_key_def col_catalog_def)

lemma wire_services:
  assumes "svc_repo psvc = sqlite_providers"
  shows "sqlite_services psvc (app_credentials (wire bd cfg (sqliteStore drv) psvc))"
    and "sqlite_wired (app_collector (wire bd cfg (sqliteStore drv) psvc))"
    and "sqlite_scheduler (app_scheduler (wire bd cfg (sqliteStore drv) psvc))"
  using assms by (simp_all add: sqlite_services_def sqlite_wired_def sqlite_scheduler_def)

lemma handler_implements:
  fixes psvc :: "('z host_scheme) provider_service"
  assumes repo: "svc_repo psvc = sqlite_providers" and order: "\<forall>vs. mset (bd_order bd vs) = mset vs"
  shows "implements (svc_registry psvc) (cfg_masterKey cfg) s
    (snd (snd (app_handler (wire bd cfg (sqliteStore drv) psvc) r w s)))"
proof -
  let ?a = "wire bd cfg (sqliteStore drv) psvc" and ?cat = "svc_registry psvc" and ?key = "cfg_masterKey cfg"
  note services = wire_services [OF repo, of bd cfg drv]
  have "steps.performs ?cat ?key (NewHandler (NewProviderRepository psvc)
      (NewCredentialRepository (bd_order bd) psvc (app_credentials ?a))
      (NewUsageGetter psvc sqlite_snapshots) (NewUsageRefresher (app_collector ?a)))"
  proof (rule steps.performs_NewHandler)
    show "steps.op_does ?cat ?key (SetCredentials
        (NewCredentialRepository (bd_order bd) psvc (app_credentials ?a)) i vs)"
      if "distinct (map fst vs)" for i vs
      using op_SetCredentials [OF services(1) order that] by simp
    show "steps.op_does ?cat ?key (RefreshUsage (NewUsageRefresher (app_collector ?a)) i)" for i
      using op_Refresh [OF services(2)] by simp
  qed (rule op_List op_Get op_SetEnabled op_Presence op_Delete op_GetUsage, rule repo services(1))+
  then have "steps.performs ?cat ?key (app_handler ?a)"
    by (simp add: wire_def sqliteStore_def Let_def steps.performs_server)
  then show ?thesis by (simp add: steps.performs_def)
qed

lemma view_of_restart: "view_of (s\<lparr>entries := g\<rparr>) = view_of s\<lparr>v_gate := g\<rparr>"
  "wf_db (s\<lparr>entries := g\<rparr>) = wf_db s"
  by (simp_all add: view_of_def enabled_in_def secret_in_def latest_in_def wf_db_def fun_eq_iff)

text \<open>
  The driver keeps what is stored: opening the database and applying the pending migrations only
  creates tables, and closing it loses nothing.
\<close>

abbreviation keeps_stored :: "('z host_scheme) sql_driver \<Rightarrow> bool" where
  "keeps_stored drv \<equiv> driver_does quiet_step drv"

lemma quiet_step_preorder: "reflp quiet_step" "transp quiet_step"
  by (auto simp: quiet_step_def intro!: reflpI transpI)

lemma sqlite_New_quiet:
  "keeps_stored drv \<Longrightarrow> quiet_step s (snd (sqlite_New drv path s))"
  by (rule sqlite_New_does [OF _ quiet_step_preorder prod.collapse [symmetric]])

lemma close_store_quiet:
  assumes "keeps_stored drv"
  shows "quiet_step s (close_store (sqliteStore drv) s)"
proof -
  obtain r t where run: "sqlite_Close drv s = (r, t)" by fastforce
  from sqlite_Close_does [OF assms run] run show ?thesis
    by (cases r) (simp_all add: close_store_def sqliteStore_def quiet_step_def)
qed

lemma Reconcile_view:
  fixes s :: "'z host_scheme"
  assumes "wf_db s" and "Reconcile (NewService sqlite_providers Registry) s = (x, t)"
  shows "wf_db t \<and> (\<exists>ids \<subseteq> md_id ` set Registry.
    view_of t = view_of s\<lparr>v_enabled := ensure_rows ids (v_enabled (view_of s))\<rparr> \<and>
    (x = Inr () \<longrightarrow> ids = md_id ` set Registry))"
proof -
  let ?svc = "NewService sqlite_providers Registry :: ('z host_scheme) provider_service"
  have svc: "svc_repo ?svc = sqlite_providers" "svc_registry ?svc = Registry"
    by (simp_all add: NewService_def)
  have law: "wf_db t \<and> providers_rest t = providers_rest s \<and>
    (\<exists>ids \<subseteq> md_id ` set Registry. enabled_in t = ensure_rows ids (enabled_in s) \<and>
       (case x of Inl e \<Rightarrow> opaque e | Inr _ \<Rightarrow> ids = md_id ` set Registry))"
    using sqlite_prov.Reconcile_client [OF assms(1) svc(1) _ assms(2)] distinct_Registry
    by (simp only: svc(2))
  then obtain ids where ids: "ids \<subseteq> md_id ` set Registry" "enabled_in t = ensure_rows ids (enabled_in s)"
    "case x of Inl e \<Rightarrow> opaque e | Inr _ \<Rightarrow> ids = md_id ` set Registry" by blast
  have "x = Inr () \<longrightarrow> ids = md_id ` set Registry" using ids(3) by (cases x) simp_all
  moreover have "view_of t = view_of s\<lparr>v_enabled := ensure_rows ids (v_enabled (view_of s))\<rparr>"
    using providers_rest_tables [of t s] law ids(2) by (simp add: view_of_def)
  ultimately show ?thesis using law ids(1) by blast
qed

lemma boot_view:
  assumes "keeps_stored drv" and "wf_db s" and "boot bd env drv s = (r, t)"
  shows "wf_db t \<and> (\<exists>ids \<subseteq> md_id ` set Registry.
    view_of t = view_of s\<lparr>v_enabled := ensure_rows ids (v_enabled (view_of s))\<rparr> \<and>
    ((\<exists>a. r = Inr (Inr a)) \<longrightarrow> ids = md_id ` set Registry))"
proof -
  have opened: "wf_db s1 \<and> view_of s1 = view_of s"
    if "s1 = snd (sqlite_New drv path (slog l m as s))" for s1 path l m as
    using sqlite_New_quiet [OF assms(1), of "slog l m as s" path] assms(2) that by (simp add: quiet_step_def)
  have none: "view_of s = view_of s\<lparr>v_enabled := ensure_rows {} (v_enabled (view_of s))\<rparr>" by simp
  from assms(3) show ?thesis
  proof (cases rule: boot_cases)
    case (no_config e)
    with assms(2) none show ?thesis by auto
  next
    case (no_database cfg e e')
    have "wf_db t" "view_of t = view_of s" using opened [of t] no_database(3) by (metis snd_conv)+
    with none no_database(1) show ?thesis by auto
  next
    case (no_rows cfg s1 e)
    have s1: "wf_db s1" "view_of s1 = view_of s" using opened [of s1] no_rows(3) by (metis snd_conv)+
    obtain x u where rec: "Reconcile (NewService sqlite_providers Registry) s1 = (x, u)" by fastforce
    from Reconcile_view [OF s1(1) this] close_store_quiet [OF assms(1), of u] s1(2) no_rows(1,4) rec
    show ?thesis by (auto simp: quiet_step_def)
  next
    case (ready cfg s1 psvc)
    have s1: "wf_db s1" "view_of s1 = view_of s" using opened [of s1] ready(3) by (metis snd_conv)+
    from Reconcile_view [OF s1(1) ready(4)] s1(2) show ?thesis by auto
  qed
qed

lemma restart_implements:
  assumes "keeps_stored drv"
  shows "implements Registry key s (snd (boot bd env drv (s\<lparr>entries := (\<lambda>_. None)\<rparr>)))"
proof -
  obtain r t where run: "boot bd env drv (s\<lparr>entries := (\<lambda>_. None)\<rparr>) = (r, t)"
    by fastforce
  have "wf_db t \<and> effect Registry key (view_of s) (view_of t)" if "wf_db s"
  proof -
    from boot_view [OF assms _ run] that obtain ids where t: "wf_db t" "ids \<subseteq> md_id ` set Registry"
      "view_of t = view_of s\<lparr>v_gate := (\<lambda>_. None), v_enabled := ensure_rows ids (v_enabled (view_of s))\<rparr>"
      by (auto simp: view_of_restart)
    moreover have "view_of s\<lparr>v_gate := (\<lambda>_. None), v_enabled := e\<rparr> =
        view_of s\<lparr>v_enabled := e, v_gate := (\<lambda>_. None)\<rparr>" for e by simp
    ultimately show ?thesis using effect.restarted [OF t(2), of key "view_of s"] by simp
  qed
  with run show ?thesis by (simp add: implements_def)
qed

section \<open>Refinement\<close>

lemma tick_loop_effects:
  fixes sch :: "('z host_scheme) scheduler"
  assumes "sqlite_wired (sch_collector sch)"
  shows "wf_db s \<Longrightarrow> wf_db (tick_loop sch ps s) \<and>
    (effect (col_catalog (sch_collector sch)) (col_key (sch_collector sch)))\<^sup>*\<^sup>*
      (view_of s) (view_of (tick_loop sch ps s))"
proof (induction ps arbitrary: s)
  case (Cons p ps)
  obtain b s1 where ctx: "ctx_Err s = (b, s1)" by fastforce
  have s1: "view_of s1 = view_of s" "wf_db s1"
    using view_of_runtime [OF ctx_Err_more [OF ctx]] same_more_tables(1) [OF ctx_Err_more [OF ctx]]
      Cons.prems by simp_all
  let ?t = "collectOne sch (md_id p) s1"
  from collectOne_implements [OF assms, of s1 "md_id p"] s1
  have t: "wf_db ?t" "effect (col_catalog (sch_collector sch)) (col_key (sch_collector sch))
      (view_of s) (view_of ?t)"
    by (simp_all add: implements_def)
  from Cons.IH [OF Cons.prems] Cons.IH [OF t(1)] t(2) ctx s1 Cons.prems show ?case
    by (auto intro: converse_rtranclp_into_rtranclp)
qed simp

lemma tick_effects:
  fixes sch :: "('z host_scheme) scheduler"
  assumes "sqlite_scheduler sch" and "wf_db s"
  shows "wf_db (tick sch s) \<and>
    (effect (col_catalog (sch_collector sch)) (col_key (sch_collector sch)))\<^sup>*\<^sup>*
      (view_of s) (view_of (tick sch s))"
proof -
  have sch: "svc_repo (sch_providers sch) = sqlite_providers" "sqlite_wired (sch_collector sch)"
    using assms(1) by (simp_all add: sqlite_scheduler_def)
  obtain l s1 where list: "service_List (sch_providers sch) s = (l, s1)" by fastforce
  have s1: "wf_db s1" "view_of s1 = view_of s"
    using sqlite_prov.service_List_client [OF assms(2) sch(1) list] providers_rest_tables [of s1 s]
    by (simp_all add: view_of_def)
  with tick_loop_effects [OF sch(2) s1(1)] list show ?thesis
    by (cases l) (simp_all add: tick_def)
qed

text \<open>
  C3: The service implements its specification. For the application that a boot returned, every
  HTTP request (any method, path, headers and body), every scheduled attempt for any provider
  and every restart, successful or not, is one effect of the abstract machine on what an
  outsider sees, and every tick of the scheduler is a sequence of effects; the tables keep their
  keys throughout. So nothing the network sends can switch a provider that is not in the
  catalog, store an undeclared field or one that does not open under the key, or collect for a
  disabled provider.
\<close>
theorem service_refines:
  fixes s0 :: "'z host_scheme"
  assumes "boot bd env drv s0 = (Inr (Inr a), t0)" and "keeps_stored drv"
    and "\<forall>vs. mset (bd_order bd vs) = mset vs"
  shows "(let key = cfg_masterKey (app_config a) in
    (\<forall>r w s. implements Registry key s (snd (snd (app_handler a r w s)))) \<and>
    (\<forall>p s. implements Registry key s (collectOne (app_scheduler a) p s)) \<and>
    (\<forall>s. wf_db s \<longrightarrow> wf_db (tick (app_scheduler a) s) \<and>
       (effect Registry key)\<^sup>*\<^sup>* (view_of s) (view_of (tick (app_scheduler a) s))) \<and>
    (\<forall>s. implements Registry key s
       (snd (boot bd env drv (s\<lparr>entries := (\<lambda>_. None)\<rparr>)))))"
proof -
  obtain cfg psvc where a: "a = wire bd cfg (sqliteStore drv) psvc" and repo: "svc_repo psvc = sqlite_providers"
    and cat: "svc_registry psvc = Registry" by (rule booted_wiring [OF assms(1)])
  note services = wire_services [OF repo, of bd cfg drv]
  show ?thesis
    using handler_implements [OF repo assms(3), of cfg] collectOne_implements [of "app_scheduler a"]
      tick_effects [of "app_scheduler a"] restart_implements [OF assms(2)] services
    by (simp add: a cat Let_def)
qed

section \<open>Reachable states\<close>

text \<open>
  A process starts on an empty database; then requests, whole ticks, single attempts (a tick that
  requests interleave with), whatever else moves the runtime on, and restarts follow in any order.
\<close>

inductive reachable ::
    "build \<Rightarrow> (string \<Rightarrow> string)
       \<Rightarrow> ('z host_scheme) sql_driver \<Rightarrow> 'z app \<Rightarrow> 'z host_scheme \<Rightarrow> bool"
  for bd env drv a where
  fresh: "wf_db s \<Longrightarrow> view_of s = \<lparr>v_enabled = (\<lambda>_. None), v_secret = (\<lambda>_ _. None),
      v_latest = (\<lambda>_. None), v_gate = (\<lambda>_. None)\<rparr> \<Longrightarrow>
    boot bd env drv s = (Inr (Inr a), t) \<Longrightarrow> reachable bd env drv a t"
| request: "reachable bd env drv a s \<Longrightarrow> app_handler a r new_writer s = (p, w, t) \<Longrightarrow>
    reachable bd env drv a t"
| ticked: "reachable bd env drv a s \<Longrightarrow>
    reachable bd env drv a (tick (app_scheduler a) s)"
| tried: "reachable bd env drv a s \<Longrightarrow>
    reachable bd env drv a (collectOne (app_scheduler a) p s)"
| moved: "reachable bd env drv a s \<Longrightarrow> runtime.more t = runtime.more s \<Longrightarrow>
    reachable bd env drv a t"
| rebooted: "reachable bd env drv a s \<Longrightarrow>
    boot bd env drv (s\<lparr>entries := (\<lambda>_. None)\<rparr>) = (Inr (Inr a), t) \<Longrightarrow>
    reachable bd env drv a t"

lemma reachable_booted:
  "reachable bd env drv a s \<Longrightarrow>
     \<exists>s0 t0. boot bd env drv s0 = (Inr (Inr a), t0)"
  by (induction rule: reachable.induct) auto

definition safe :: "'z app \<Rightarrow> 'z host_scheme \<Rightarrow> bool" where
  "safe a s \<longleftrightarrow> wf_db s \<and> secure Registry (cfg_masterKey (app_config a)) (view_of s)"

lemma safe_step:
  "safe a s \<Longrightarrow> implements Registry (cfg_masterKey (app_config a)) s t \<Longrightarrow> safe a t"
  by (auto simp: safe_def implements_def intro: effect_secure)

lemma safe_fresh:
  assumes "wf_db s" and "view_of s = \<lparr>v_enabled = (\<lambda>_. None), v_secret = (\<lambda>_ _. None),
      v_latest = (\<lambda>_. None), v_gate = (\<lambda>_. None)\<rparr>"
    and "keeps_stored drv" and "boot bd env drv s = (Inr (Inr a), t)"
  shows "safe a t"
  using boot_view [OF assms(3,1,4)] assms(2)
  by (auto simp: safe_def secure_def ensure_rows_def listed_def)

lemma reachable_safe:
  assumes "reachable bd env drv a s" and "keeps_stored drv"
    and "\<forall>vs. mset (bd_order bd vs) = mset vs"
  shows "safe a s"
proof -
  from reachable_booted [OF assms(1)] obtain s0 t0
    where booted: "boot bd env drv s0 = (Inr (Inr a), t0)" by blast
  obtain cfg psvc where a: "a = wire bd cfg (sqliteStore drv) psvc" and repo: "svc_repo psvc = sqlite_providers"
    and cat: "svc_registry psvc = Registry" by (rule booted_wiring [OF booted])
  note services = wire_services [OF repo, of bd cfg drv]
  from assms(1) show ?thesis
  proof (induction rule: reachable.induct)
    case (fresh s t)
    then show ?case by (intro safe_fresh [OF _ _ assms(2)])
  next
    case (request s r p w t)
    have "implements Registry (cfg_masterKey (app_config a)) s t"
      using handler_implements [OF repo assms(3), of cfg s drv r new_writer] request.hyps(2) by (simp add: a cat)
    with request.IH show ?case by (rule safe_step)
  next
    case (ticked s)
    with tick_effects [of "app_scheduler a" s] services effects_secure show ?case
      by (auto simp: safe_def a cat)
  next
    case (tried s p)
    have "implements Registry (cfg_masterKey (app_config a)) s (collectOne (app_scheduler a) p s)"
      using collectOne_implements [of "app_scheduler a" s p] services by (simp add: a cat)
    with tried.IH show ?case by (rule safe_step)
  next
    case (moved s t)
    then show ?case using view_of_runtime same_more_tables(1) by (metis safe_def)
  next
    case (rebooted s t)
    then show ?case using restart_implements [OF assms(2), of _ s bd env]
      by (intro safe_step [OF rebooted.IH]) (metis snd_conv)
  qed
qed

text \<open>
  C2: The invariant of the service, in every state that any interleaving of requests, ticks,
  attempts and restarts reaches from an empty database: every provider of the catalog has its
  row; every stored credential belongs to a declared field of a catalog provider and opens under
  the master key; every snapshot belongs to a catalog provider, names it, and carries no error
  and a UTC time; only catalog providers are ever in cooldown.
\<close>
theorem reachable_secure:
  assumes "reachable bd env drv a s" and "keeps_stored drv"
    and "\<forall>vs. mset (bd_order bd vs) = mset vs"
  shows "wf_db s \<and>
    (\<forall>p \<in> md_id ` set Registry. enabled_in s p \<noteq> None) \<and>
    (\<forall>p f c. secret_in s p f = Some c \<longrightarrow> f \<in> fields_of Registry p \<and>
       opens_to (cfg_masterKey (app_config a)) p f (Some c) \<noteq> None) \<and>
    (\<forall>p sn. latest_in s p = Some (Inr sn) \<longrightarrow> p \<in> md_id ` set Registry \<and> snap_provider_id sn = p \<and>
       snap_last_error sn = None \<and> zone (snap_collected_at sn) = 0) \<and>
    (\<forall>p e. entries s p = Some e \<longrightarrow> p \<in> md_id ` set Registry)"
proof -
  from reachable_safe [OF assms] have wf: "wf_db s"
    and "secure Registry (cfg_masterKey (app_config a)) (view_of s)" by (simp_all add: safe_def)
  note inv = secureD [OF this(2)]
  have "enabled_in s p \<noteq> None" if "p \<in> md_id ` set Registry" for p
    using inv(1) [of p] that by (simp add: view_of_def listed_def)
  moreover have "f \<in> fields_of Registry p \<and> opens_to (cfg_masterKey (app_config a)) p f (Some c) \<noteq> None"
    if "secret_in s p f = Some c" for p f c
    using inv(2,3) [of p f] that by (simp add: view_of_def)
  moreover have "p \<in> md_id ` set Registry \<and> snap_provider_id sn = p \<and> snap_last_error sn = None \<and>
      zone (snap_collected_at sn) = 0" if "latest_in s p = Some (Inr sn)" for p sn
    using inv(4) [of p "Inr sn"] that by (simp add: view_of_def listed_def snapshot_for_def)
  moreover have "p \<in> md_id ` set Registry" if "entries s p = Some e" for p e
    using inv(5) [of p] that by (simp add: view_of_def listed_def)
  ultimately show ?thesis using wf by blast
qed

section \<open>Reading back in reachable states\<close>

text \<open>
  C17: No stored credential is ever lost to the code: in every reachable state, revealing a field
  that has a stored value answers a value or a failure of the database, never a decryption
  error, and on a working database the value; revealing one without a stored value is not found
  (or a failure of the database).
\<close>
theorem reachable_reveals:
  assumes "reachable bd env drv a s" and "keeps_stored drv"
    and "\<forall>vs. mset (bd_order bd vs) = mset vs"
    and "Reveal (app_credentials a) p f s = (r, t)"
  shows "case secret_in s p f of
      None \<Rightarrow> \<exists>e. r = Inl e \<and> (errors_is e ErrNotFound \<or> opaque e)
    | Some blob \<Rightarrow>
        \<exists>v. opens_to (cfg_masterKey (app_config a)) p f (Some blob) = Some v \<and>
          (if reliable_db s then r = Inr v else r = Inr v \<or> (\<exists>e. r = Inl e \<and> opaque e))"
proof -
  obtain s0 t0 where "boot bd env drv s0 = (Inr (Inr a), t0)"
    using reachable_booted [OF assms(1)] by blast
  then obtain cfg psvc where a: "a = wire bd cfg (sqliteStore drv) psvc" by (rule booted_wiring)
  have wf: "wf_db s" and inv: "secure Registry (cfg_masterKey cfg) (view_of s)"
    using reachable_safe [OF assms(1-3)] by (simp_all add: safe_def a)
  have repo: "cs_repo (app_credentials a) = sqlite_credentials"
    and key: "cs_masterKey (app_credentials a) = cfg_masterKey cfg" by (simp_all add: a)
  note law = sqlite_cred.Reveal_client [OF wf repo assms(4)]
  show ?thesis
  proof (cases "secret_in s p f")
    case None
    with law show ?thesis by (cases r) auto
  next
    case (Some blob)
    then obtain v where v: "opens_to (cfg_masterKey cfg) p f (Some blob) = Some v"
      using secureD(3) [OF inv, of p f] by (auto simp: view_of_def)
    have "r = Inr v \<or> (\<exists>e. r = Inl e \<and> opaque e)"
      using law v Some by (cases r) (auto simp: key)
    moreover have "r = Inr v" if "reliable_db s"
      using sqlite_cred.Reveal_healthy(2) [OF wf that repo, of p f v] v Some assms(4)
      by (auto simp: key)
    ultimately show ?thesis using v Some by (auto simp: a)
  qed
qed

section \<open>Starting up\<close>

lemma boot_succeeds:
  fixes s :: "'z host_scheme"
  assumes "keeps_stored drv" and "wf_db s" and cfg: "loadConfig env = Inr cfg"
    and db: "sqlite_New drv (cfg_dbPath cfg) (slog Info ''configuration loaded'' (LogValue cfg) s) = (Inr db, s1)"
    and ok: "reliable_db s1"
  shows "\<exists>a t. boot bd env drv s = (Inr (Inr a), t)"
proof -
  let ?svc = "NewService sqlite_providers Registry :: ('z host_scheme) provider_service"
  have "wf_db s1"
    using sqlite_New_quiet [OF assms(1), of "slog Info ''configuration loaded'' (LogValue cfg) s" "cfg_dbPath cfg"]
      assms(2) db by (simp add: quiet_step_def)
  then obtain s2 where "Reconcile ?svc s1 = (Inr (), s2)"
    using sqlite_prov.Reconcile_succeeds [OF _ ok, of ?svc] distinct_Registry
    by (auto simp: NewService_def)
  moreover obtain psvc :: "('z host_scheme) provider_service"
    where "RegisterFetcher minimax_New (NewService sqlite_providers Registry) = Inr psvc"
    using register_minimax by blast
  ultimately show ?thesis using cfg db sqlite_New_store [OF db] by (auto simp: boot_def sqliteStore_def)
qed

text \<open>
  C18: A boot never panics. Whatever fails in it, nothing that is stored is lost: no flag,
  credential or snapshot changes. If it returns an application, the configuration was accepted,
  the master key has 32 bytes, exactly the missing providers of the catalog were added, disabled,
  and exactly Minimax is live. And once the configuration is accepted and the database opened
  and working, it does return one.
\<close>
theorem boot_ready:
  fixes s :: "'z host_scheme"
  assumes "keeps_stored drv" and "wf_db s"
    and "boot bd env drv s = (r, t)"
  shows "wf_db t \<and> secret_in t = secret_in s \<and> latest_in t = latest_in s \<and> entries t = entries s \<and>
    (case r of
       Inl msg \<Rightarrow> False
     | Inr (Inl e) \<Rightarrow> \<forall>p. enabled_in s p \<noteq> None \<longrightarrow> enabled_in t p = enabled_in s p
     | Inr (Inr a) \<Rightarrow>
         loadConfig env = Inr (app_config a) \<and> length (cfg_masterKey (app_config a)) = 32 \<and>
         enabled_in t = (\<lambda>p. if enabled_in s p = None \<and> p \<in> {''openai'', ''anthropic'', ''minimax''}
                             then Some False else enabled_in s p) \<and>
         (\<forall>p. HasFetcher (app_providers a) p \<longleftrightarrow> p = ''minimax'')) \<and>
    (\<forall>cfg db s1. loadConfig env = Inr cfg \<longrightarrow>
       sqlite_New drv (cfg_dbPath cfg) (slog Info ''configuration loaded'' (LogValue cfg) s) = (Inr db, s1) \<longrightarrow>
       reliable_db s1 \<longrightarrow> (\<exists>a. r = Inr (Inr a)))"
proof -
  from boot_view [OF assms] obtain ids where t: "wf_db t"
    "view_of t = view_of s\<lparr>v_enabled := ensure_rows ids (v_enabled (view_of s))\<rparr>"
    "(\<exists>a. r = Inr (Inr a)) \<longrightarrow> ids = md_id ` set Registry" by blast
  have same: "secret_in t = secret_in s" "latest_in t = latest_in s" "entries t = entries s"
    "enabled_in t = ensure_rows ids (enabled_in s)" using t(2) by (simp_all add: view_of_def)
  have keep: "enabled_in t p = enabled_in s p" if "enabled_in s p \<noteq> None" for p
    using same(4) that by (simp add: ensure_rows_def)
  have names: "md_id ` set Registry = {''openai'', ''anthropic'', ''minimax''}"
    by (simp add: Registry_def)
  have works: "\<exists>a. r = Inr (Inr a)" if "loadConfig env = Inr cfg"
    and "sqlite_New drv (cfg_dbPath cfg) (slog Info ''configuration loaded'' (LogValue cfg) s) = (Inr db, s1)"
    and "reliable_db s1" for cfg db s1
    using boot_succeeds [OF assms(1,2) that, of bd] by (simp add: assms(3))
  have out: "case r of Inl msg \<Rightarrow> False
     | Inr (Inl e) \<Rightarrow> \<forall>p. enabled_in s p \<noteq> None \<longrightarrow> enabled_in t p = enabled_in s p
     | Inr (Inr a) \<Rightarrow>
         loadConfig env = Inr (app_config a) \<and> length (cfg_masterKey (app_config a)) = 32 \<and>
         enabled_in t = (\<lambda>p. if enabled_in s p = None \<and> p \<in> {''openai'', ''anthropic'', ''minimax''}
                             then Some False else enabled_in s p) \<and>
         (\<forall>p. HasFetcher (app_providers a) p \<longleftrightarrow> p = ''minimax'')"
    using assms(3)
  proof (cases rule: boot_cases)
    case (ready cfg s1 psvc)
    have fetchers: "svc_fetchers psvc = [''minimax'' \<mapsto> Some minimax_New]"
      using register_minimax ready(5) by (metis Inr_inject)
    have "ids = md_id ` set Registry" using t(3) ready(1) by blast
    then have ids: "ids = {''openai'', ''anthropic'', ''minimax''}" by (simp add: names)
    have rows: "enabled_in t = (\<lambda>p. if enabled_in s p = None \<and> p \<in> {''openai'', ''anthropic'', ''minimax''}
        then Some False else enabled_in s p)"
      unfolding same(4) ensure_rows_def ids ..
    have live: "\<forall>p. HasFetcher psvc p \<longleftrightarrow> p = ''minimax''"
      by (auto simp: HasFetcher_iff fetchers split: if_splits)
    show ?thesis
      unfolding ready(1) sum.case wire_simps
      by (intro conjI ready(2) loadConfig_key [OF ready(2)] rows live)
  qed (use keep in \<open>simp_all\<close>)
  from t(1) same(1-3) out works show ?thesis by blast
qed

section \<open>After an authentication failure\<close>

text \<open>
  C29: No provider is given up on: however often its authentication has failed before, once the
  clock has moved on by the cap (an hour as shipped) after a failed attempt, the next attempt is
  made, unless something else changed its cooldown entry in between; and right after the
  failure, at any reading within the backoff, it is not.
\<close>
theorem auth_retry:
  fixes sch :: "('z host_scheme) scheduler"
  assumes "sch_cooldown sch = Some reg" and "0 < sint (maxCooldown reg)"
    and "\<not> fst (active p s)" and "attempt sch p s = (Inl e, s1)" and "errors_is e ErrAuth"
    and "entries t p = entries (collectOne sch p s) p"
  shows "if instant (rt_clock s1 0) + sint (maxCooldown reg) \<le> instant (rt_clock t 0)
    then collectOne sch p t = (case attempt sch p t of (r, u) \<Rightarrow> settle sch p r u)
    else \<exists>b. 0 < b \<and> b \<le> sint (maxCooldown reg) \<and>
      (instant (rt_clock t 0) < instant (rt_clock s1 0) + b \<longleftrightarrow> fst (active p t))"
proof -
  define n where "n = (case entries s1 p of None \<Rightarrow> 1 | Some e \<Rightarrow> failures e + 1)"
  have "\<not> errors_is e ErrFetcherNotFound" using assms(5) errors_is_unique by blast
  then have "collectOne sch p s =
      slog Warn ''scheduler: provider authentication failed, engaging cooldown''
        [(''provider'', p), (''error'', error_text e)] (recordFailure reg p s1)"
    using assms(1,3-5) by (simp add: collectOne_eq settle_def)
  then have entry: "entries t p =
      Some \<lparr>failures = n, until = time_Add (rt_clock s1 0) (backoff reg n)\<rparr>"
    using assms(6) by (simp add: recordFailure_eq n_def Let_def)
  have b: "0 < sint (backoff reg n)" "sint (backoff reg n) \<le> sint (maxCooldown reg)"
    using assms(2) by (auto simp: backoff_def Let_def)
  have gate: "fst (active p t) \<longleftrightarrow> instant (rt_clock t 0) < instant (rt_clock s1 0) + sint (backoff reg n)"
    by (simp add: active_eq entry time_Add_def)
  with b show ?thesis by (auto simp: collectOne_eq)
qed

section \<open>Concrete instances\<close>

definition demo_build :: build where
  "demo_build = \<lparr>bd_uiHTML = ''<html></html>'', bd_spec = ''openapi: 3.1.0'', bd_order = rev\<rparr>"

text \<open>A driver on which everything works.\<close>

definition demo_driver :: "host sql_driver" where
  "demo_driver =
     \<lparr>drv_MkdirAll = (\<lambda>p s. (Inr (), s)), drv_Open = (\<lambda>n p s. (Inr (), s)),
      drv_SetMaxOpenConns = (\<lambda>n s. s), drv_Ping = (\<lambda>s. (Inr (), s)),
      goose_NewProvider = (\<lambda>s. (Inr (), s)), goose_Up = (\<lambda>s. (Inr (), s)),
      drv_Close = (\<lambda>s. (Inr (), s))\<rparr>"

lemma demo_driver_quiet: "keeps_stored demo_driver"
  by (simp add: driver_does_def demo_driver_def quiet_step_def)

lemma demo_driver_opens: "sqlite_New demo_driver path s = (Inr (sqliteStore demo_driver), s)"
  by (simp add: sqlite_New_def demo_driver_def migrate_def Let_def)

lemma demo_order: "\<forall>vs. mset (bd_order demo_build vs) = mset vs"
  by (simp add: demo_build_def)

lemma demo_boots:
  obtains a t where "boot demo_build demo_env demo_driver empty_host = (Inr (Inr a), t)"
    and "secret_in t = (\<lambda>_ _. None)" and "app_config a = demo_config" and "reliable_db t"
proof -
  have log: "reliable_db (slog Info m as empty_host)" for m as
    by (simp add: slog_def reliable_db_def empty_host_def)
  obtain a t where run: "boot demo_build demo_env demo_driver empty_host = (Inr (Inr a), t)"
    using boot_succeeds [OF demo_driver_quiet empty_host_simps(1) demo_config_loads demo_driver_opens log,
        of demo_build] by blast
  have "secret_in t = secret_in empty_host"
    using boot_view [OF demo_driver_quiet empty_host_simps(1) run] by (auto simp: view_of_def)
  moreover have "app_config a = demo_config"
    using run by (cases rule: boot_cases) (auto simp: demo_config_loads)
  moreover have "reliable_db t" using run
  proof (cases rule: boot_cases)
    case (ready cfg s1 psvc)
    let ?svc = "NewService sqlite_providers Registry :: host provider_service"
    have s1: "s1 = slog Info ''configuration loaded'' (LogValue cfg) empty_host"
      using ready(3) by (simp add: demo_driver_opens)
    have "wf_db s1" "reliable_db s1" by (simp_all add: s1 slog_def wf_db_def reliable_db_def empty_host_def)
    from sqlite_prov.Reconcile_succeeds [OF this, of ?svc] ready(4) distinct_Registry show ?thesis
      by (auto simp: NewService_def)
  qed simp_all
  ultimately show ?thesis using run by (intro that) auto
qed

lemma demo_reachable:
  assumes "boot demo_build demo_env demo_driver empty_host = (Inr (Inr a), t)"
  shows "reachable demo_build demo_env demo_driver a t"
  by (rule reachable.fresh [OF empty_host_simps(1) _ assms])
    (simp add: view_of_def latest_in_def empty_host_def enabled_in_def secret_in_def fun_eq_iff)

theorem service_refines_witness:
  "\<exists>a t. boot demo_build demo_env demo_driver empty_host = (Inr (Inr a), t) \<and>
     implements Registry (replicate 32 7) t
       (snd (snd (app_handler a (demo_request ''POST'' ''minimax'') new_writer t)))"
proof -
  obtain a t where run: "boot demo_build demo_env demo_driver empty_host = (Inr (Inr a), t)"
    and cfg: "app_config a = demo_config" by (rule demo_boots)
  from service_refines [OF run demo_driver_quiet demo_order] run show ?thesis
    by (intro exI [of _ a] exI [of _ t]) (simp add: cfg demo_config_def Let_def)
qed

theorem reachable_secure_witness:
  "\<exists>a s. reachable demo_build demo_env demo_driver a s \<and> enabled_in s ''minimax'' \<noteq> None"
proof -
  obtain a t where run: "boot demo_build demo_env demo_driver empty_host = (Inr (Inr a), t)"
    by (rule demo_boots)
  from reachable_secure [OF demo_reachable [OF run] demo_driver_quiet demo_order] demo_reachable [OF run]
  show ?thesis by (auto simp: Registry_def)
qed

text \<open>A PUT of the credentials of a provider, over HTTP, to a booted application.\<close>

lemma chain_state:
  obtains i s0 where "runtime.more s0 = runtime.more s" and "entropy s \<Longrightarrow> entropy s0"
    and "runtime.more (snd (snd (chain [withRequestID, withLogging, withRecovery] h r w s))) =
      runtime.more (snd (snd (h (contextWithRequestID i r) (push_recorder (header_Set ''X-Request-Id'' i w)) s0)))"
proof -
  obtain i s1 where i: "newRequestID s = (i, s1)" by fastforce
  let ?r = "contextWithRequestID i r" and ?w = "push_recorder (header_Set ''X-Request-Id'' i w)"
  obtain t s0 where now: "time_Now s1 = (t, s0)" by fastforce
  obtain p w2 s2 where h: "h ?r ?w s0 = (p, w2, s2)" by (metis prod_cases3)
  have more: "runtime.more s0 = runtime.more s"
    using newRequestID_more [OF i] runtime_more_frame(1) [of s1] now by simp
  moreover have "entropy s0" if "entropy s"
    using that i now
    by (auto simp: newRequestID_def rand_Read_def entropy_def advance_def time_Now_def split: sum.splits prod.splits)
  moreover have "runtime.more (snd (snd (chain [withRequestID, withLogging, withRecovery] h r w s))) = runtime.more s2"
    by (cases p) (simp_all add: chain_three withRequestID_def i withLogging_def now withRecovery_def h
        runtime_more_frame split_beta)
  ultimately show ?thesis using that [of s0 i] h by simp
qed

definition credentials_put :: web_request where
  "credentials_put = demo_put\<lparr>wq_path := rooted ([''api'', ''v1''] @ [''providers'', ''minimax'', ''credentials''])\<rparr>"

lemma put_over_http:
  fixes s :: host
  assumes "svc_repo psvc = sqlite_providers" and "svc_registry psvc = Registry" and "wf_db s" and "reliable_db s"
    and "entropy s" and "length (cfg_masterKey cfg) = KeySize" and "enabled_in s ''minimax'' = Some b"
  shows "\<exists>p w t. app_handler (wire demo_build cfg (sqliteStore drv) psvc) credentials_put new_writer s = (p, w, t) \<and>
    reliable_db t \<and>
    opens_to (cfg_masterKey cfg) ''minimax'' ''subscription_key'' (secret_in t ''minimax'' ''subscription_key'') = Some ''k2''"
proof -
  let ?a = "wire demo_build cfg (sqliteStore drv) psvc" and ?csvc = "app_credentials (wire demo_build cfg (sqliteStore drv) psvc)"
  let ?segs = "[''providers'', ''minimax'', ''credentials'']" and ?vs = "[(''subscription_key'', ''k2'')]"
  let ?repo = "NewCredentialRepository rev psvc ?csvc"
  let ?r = "credentials_put\<lparr>wq_path_values := []\<rparr>"
  have plain: "list_all plain_segment ?segs" "?segs \<noteq> []" by (simp_all add: plain_segment_def)
  have same: "app_handler ?a credentials_put w s = chain [withRequestID, withLogging, withRecovery]
      (\<lambda>r. handleProviderCredentials ?repo (with_values [(''id'', ''minimax'')] r)) ?r w s" for w s
  proof -
    have path: "wq_path (contextWithRequestID i ?r) = rooted ([''api'', ''v1''] @ ?segs)" for i
      by (simp add: contextWithRequestID_def credentials_put_def)
    have "app_handler ?a credentials_put w s =
        NewHandler (NewProviderRepository psvc) ?repo (NewUsageGetter psvc sqlite_snapshots)
          (NewUsageRefresher (app_collector ?a)) ?r w s"
      unfolding wire_def sqliteStore_def credentials_put_def
      by (simp add: Let_def demo_build_def server_api [OF plain] del: append.simps)
    also have "\<dots> = chain [withRequestID, withLogging, withRecovery]
        (\<lambda>r. handleProviderCredentials ?repo (with_values [(''id'', ''minimax'')] r)) ?r w s"
      unfolding NewHandler_def
      by (rule chain_inner, rule ServeMux_api [OF plain path]) (simp add: api_target_def)
    finally show ?thesis .
  qed
  obtain i s0 where s0: "runtime.more s0 = runtime.more s" "entropy s0"
    and after: "runtime.more (snd (snd (app_handler ?a credentials_put new_writer s))) =
      runtime.more (snd (snd (handleProviderCredentials ?repo (with_values [(''id'', ''minimax'')] (contextWithRequestID i ?r))
        (push_recorder (header_Set ''X-Request-Id'' i new_writer)) s0)))"
    using chain_state [where s = s and w = new_writer and r = ?r and
        h = "\<lambda>r. handleProviderCredentials ?repo (with_values [(''id'', ''minimax'')] r)"] assms(5)
    unfolding same by metis
  note t0 = same_more_tables [OF s0(1)]
  have svcs: "sqlite_services psvc ?csvc" by (rule wire_services [OF assms(1)])
  have m: "service_metadata psvc ''minimax'' = Some demo_metadata"
    using assms(2) by (simp add: service_metadata_def Registry_demo)
  have work: "working ?csvc s0" using t0 s0 assms by (simp add: working_def)
  have "update_status psvc s0 ''minimax'' ?vs = 204"
    using m t0 assms(7) by (simp add: update_status_def demo_metadata_def)
  from adapter_SetCredentials_succeeds [OF _ svcs work this, of rev] t0 assms(3) obtain t where
    set: "adapter_SetCredentials \<lparr>ca_providers = psvc, ca_credentials = ?csvc, ca_order = rev\<rparr> ''minimax'' ?vs s0 = (Inr (), t)"
    and rel: "reliable_db t" by auto
  have opens: "opens_to (cfg_masterKey cfg) ''minimax'' ''subscription_key'' (secret_in t ''minimax'' ''subscription_key'') =
      Some ''k2''"
    using adapter_SetCredentials_sqlite [OF _ svcs _ _ set] t0 assms(3) by simp
  have "snd (snd (handleProviderCredentials ?repo (with_values [(''id'', ''minimax'')] (contextWithRequestID i ?r))
        (push_recorder (header_Set ''X-Request-Id'' i new_writer)) s0)) = t"
    using demo_put_body demo_put_simps(1,3) set
    by (simp add: handleProviderCredentials_def handleSetCredentials_def credentials_put_def with_values_def
        contextWithRequestID_def PathValue_def NewCredentialRepository_def Let_def)
  with after have "runtime.more (snd (snd (app_handler ?a credentials_put new_writer s))) = runtime.more t" by simp
  from same_more_tables [OF this] rel opens show ?thesis by (metis prod.collapse)
qed

theorem reachable_reveals_witness:
  "\<exists>a s t. reachable demo_build demo_env demo_driver a s \<and>
     Reveal (app_credentials a) ''minimax'' ''subscription_key'' s = (Inr ''k2'', t)"
proof -
  obtain a s where run: "boot demo_build demo_env demo_driver empty_host = (Inr (Inr a), s)"
    and cfg: "app_config a = demo_config" and rel: "reliable_db s" by (rule demo_boots)
  obtain cfg' psvc where a: "a = wire demo_build cfg' (sqliteStore demo_driver) psvc" "svc_repo psvc = sqlite_providers"
    "svc_registry psvc = Registry" by (rule booted_wiring [OF run])
  let ?s = "s\<lparr>rt_rand := (\<lambda>_. Inr (\<lambda>_. 0))\<rparr>"
  have moved: "reachable demo_build demo_env demo_driver a ?s"
    by (rule reachable.moved [OF demo_reachable [OF run]]) simp
  note same = same_more_tables [of ?s s]
  have "wf_db s \<and> enabled_in s ''minimax'' \<noteq> None"
    using reachable_safe [OF demo_reachable [OF run] demo_driver_quiet demo_order]
    by (simp add: safe_def secure_def view_of_def listed_def Registry_def)
  then obtain b where "wf_db ?s" "enabled_in ?s ''minimax'' = Some b" using same by auto
  moreover have "entropy ?s" "reliable_db ?s" "length (cfg_masterKey cfg') = KeySize"
    using rel same cfg by (simp_all add: entropy_def a(1) demo_config_def KeySize_def)
  ultimately obtain p w t where put: "app_handler a credentials_put new_writer ?s = (p, w, t)" "reliable_db t"
    "opens_to (cfg_masterKey cfg') ''minimax'' ''subscription_key'' (secret_in t ''minimax'' ''subscription_key'') =
      Some ''k2''"
    using put_over_http [OF a(2,3), where s = ?s and cfg = cfg' and b = b and drv = demo_driver] unfolding a(1) by blast
  have "reachable demo_build demo_env demo_driver a t" by (rule reachable.request [OF moved put(1)])
  moreover obtain r u where rev: "Reveal (app_credentials a) ''minimax'' ''subscription_key'' t = (r, u)" by fastforce
  obtain blob where blob: "secret_in t ''minimax'' ''subscription_key'' = Some blob" using opens_to_SomeD [OF put(3)] ..
  from reachable_reveals [OF calculation demo_driver_quiet demo_order rev] put(2,3) blob
  have "r = Inr ''k2''" by (simp add: a(1))
  ultimately show ?thesis using rev by blast
qed

theorem boot_ready_witness:
  "\<exists>r t. boot demo_build demo_env demo_driver empty_host = (Inr (Inr r), t) \<and>
     enabled_in t ''openai'' = Some False \<and> HasFetcher (app_providers r) ''minimax''"
proof -
  obtain a t where run: "boot demo_build demo_env demo_driver empty_host = (Inr (Inr a), t)"
    by (rule demo_boots)
  from boot_ready [OF demo_driver_quiet empty_host_simps(1) run] run show ?thesis by simp
qed

definition rejecting :: "creds \<Rightarrow> runtime \<Rightarrow> usage_metric list result \<times> runtime" where
  "rejecting = (\<lambda>cr rt. (Inl (Sentinel ErrAuth), rt))"

lemma rejected_attempt:
  "\<exists>e s1. attempt (demo_scheduler rejecting) ''minimax'' (ready_host no_net) = (Inl e, s1) \<and> errors_is e ErrAuth"
proof -
  note outcome = sqlite_store.Collect_healthy [OF ready_host_simps(1,2)
      demo_collector_simps(1) [unfolded sqlite_wired_iff] demo_collector_simps(2) demo_readable, of rejecting]
  have "credentialed (col_credentials (demo_collector rejecting)) (secret_in (ready_host no_net)) ''minimax''
      (md_fields demo_metadata)"
    by (simp add: credentialed_def demo_metadata_def opens_to_demo_blob)
  with outcome obtain s1 where "Collect (demo_collector rejecting) ''minimax'' (ready_host no_net) =
      (Inl (Wrap (''provider: fetch '' @ ''minimax'') (Sentinel ErrAuth)), s1)"
    by (auto simp: sqlite_store.collect_outcome_def rejecting_def)
  then show ?thesis by (simp add: attempt_def active_eq)
qed

theorem auth_retry_witness:
  "\<exists>s1 e. \<exists>t :: host. attempt (demo_scheduler rejecting) ''minimax'' (ready_host no_net) = (Inl e, s1) \<and>
     entries t ''minimax'' \<noteq> None \<and>
     collectOne (demo_scheduler rejecting) ''minimax'' t =
       (case attempt (demo_scheduler rejecting) ''minimax'' t of
          (r, u) \<Rightarrow> settle (demo_scheduler rejecting) ''minimax'' r u)"
proof -
  let ?sch = "demo_scheduler rejecting" and ?s = "ready_host no_net"
  obtain e s1 where att: "attempt ?sch ''minimax'' ?s = (Inl e, s1)" "errors_is e ErrAuth"
    using rejected_attempt by blast
  have gate: "\<not> fst (active ''minimax'' ?s)" by (simp add: active_eq)
  let ?t = "(collectOne ?sch ''minimax'' ?s)
      \<lparr>rt_clock := (\<lambda>_. \<lparr>instant = instant (rt_clock s1 0) + 3600000000000, zone = 0\<rparr>)\<rparr>"
  have cap: "sint (maxCooldown (NewAuthCooldownRegistry 300000000000 3600000000000)) = 3600000000000"
    by (simp add: NewAuthCooldownRegistry_def)
  have "\<not> errors_is e ErrFetcherNotFound" using att(2) errors_is_unique by blast
  with att gate have "entries (collectOne ?sch ''minimax'' ?s) ''minimax'' \<noteq> None"
    by (simp add: collectOne_eq settle_def recordFailure_eq Let_def)
  with auth_retry [OF demo_scheduler_simps(2) _ gate att, of ?t] att(1) cap
  show ?thesis by (intro exI [of _ s1] exI [of _ e] exI [of _ ?t]) simp
qed

end
