(* ===== verification/Lifecycle.thy ===== *)
theory Lifecycle
  imports System
begin

text \<open>
  A whole run of the process, \<^verbatim>\<open>bootstrap\<close> and \<^verbatim>\<open>main\<close> of
  \<^verbatim>\<open>cmd/aud/main.go\<close>: what it does to the stored data, how it exits, and that it
  leaves no database handle open.
\<close>

section \<open>Serving\<close>

text \<open>What happens while the process serves, in any interleaving.\<close>

datatype event = Requested web_request | Ticked | Tried string

primrec serve :: "event list \<Rightarrow> 'z app \<Rightarrow> 'z host_scheme \<Rightarrow> 'z host_scheme" where
  "serve [] a s = s"
| "serve (e # es) a s = serve es a
     (case e of
        Requested r \<Rightarrow> snd (snd (app_handler a r new_writer s))
      | Ticked \<Rightarrow> tick (app_scheduler a) s
      | Tried p \<Rightarrow> collectOne (app_scheduler a) p s)"

lemma implements_star:
  assumes "implements cat key s t" and "wf_db s"
  shows "wf_db t \<and> (effect cat key)\<^sup>*\<^sup>* (view_of s) (view_of t)"
  using assms unfolding implements_def by blast

lemma serve_effects:
  fixes psvc :: "('z host_scheme) provider_service" and s :: "'z host_scheme"
  assumes repo: "svc_repo psvc = sqlite_providers" and cat: "svc_registry psvc = Registry"
    and order: "\<forall>vs. mset (bd_order bd vs) = mset vs"
  shows "wf_db s \<Longrightarrow> wf_db (serve es (wire bd cfg (sqliteStore drv) psvc) s) \<and>
    (effect Registry (cfg_masterKey cfg))\<^sup>*\<^sup>* (view_of s) (view_of (serve es (wire bd cfg (sqliteStore drv) psvc) s))"
proof (induction es arbitrary: s)
  case (Cons e es)
  let ?a = "wire bd cfg (sqliteStore drv) psvc" and ?eff = "effect Registry (cfg_masterKey cfg)"
  note services = wire_services [OF repo, of bd cfg drv]
  define u where "u = (case e of
        Requested r \<Rightarrow> snd (snd (app_handler ?a r new_writer s))
      | Ticked \<Rightarrow> tick (app_scheduler ?a) s
      | Tried p \<Rightarrow> collectOne (app_scheduler ?a) p s)"
  have u: "wf_db u \<and> ?eff\<^sup>*\<^sup>* (view_of s) (view_of u)"
  proof (cases e)
    case (Requested r)
    with handler_implements [OF repo order, of cfg s drv r new_writer] show ?thesis
      by (intro implements_star [OF _ Cons.prems]) (simp add: u_def cat)
  next
    case Ticked
    with tick_effects [OF services(3) Cons.prems] show ?thesis by (simp add: u_def cat)
  next
    case (Tried p)
    with collectOne_implements [of "app_scheduler ?a" s p] services(2) show ?thesis
      by (intro implements_star [OF _ Cons.prems]) (simp add: u_def cat)
  qed
  from Cons.IH [of u] u have "wf_db (serve es ?a u)" "?eff\<^sup>*\<^sup>* (view_of s) (view_of (serve es ?a u))"
    by (auto intro: rtranclp_trans)
  then show ?case by (simp add: u_def)
qed simp

section \<open>The end of a run\<close>

lemma serve_result_quiet:
  fixes s :: "'z host_scheme"
  shows "view_of (snd (serve_result out s)) = view_of s" "wf_db (snd (serve_result out s)) = wf_db s"
  by (simp_all add: serve_result_def Let_def split: serve_outcome.split option.split)

definition clean_end :: "serve_outcome \<Rightarrow> bool" where
  "clean_end out \<longleftrightarrow> out = ListenerClosed \<or> out = Signalled None"

lemma serve_result_clean: "(\<exists>u. fst (serve_result out s) = Inr u) \<longleftrightarrow> clean_end out"
  by (simp add: serve_result_def clean_end_def Let_def split: serve_outcome.split option.split)

text \<open>The state in which a run ends, before the exit is logged.\<close>

definition scheduler_starts :: "config \<Rightarrow> bool" where
  "scheduler_starts cfg \<longleftrightarrow> 0 < sint (cfg_pollInterval cfg)"

lemma Run_starts:
  "sch = app_scheduler (wire bd cfg (sqliteStore drv) psvc) \<Longrightarrow>
     (case Run sch [] s of Inl msg \<Rightarrow> \<not> scheduler_starts cfg | Inr x \<Rightarrow> scheduler_starts cfg)"
  by (simp add: Run_def scheduler_starts_def wire_def scheduler_New_def Let_def)

lemma bootstrap_eq:
  "bootstrap bd env drv serving out s =
     (case boot bd env drv s of
        (Inl msg, s1) \<Rightarrow> (Inl msg, s1)
      | (Inr (Inl e), s1) \<Rightarrow>
          (Inr (Inl e), slog Error ''service exited with error'' [(''error'', error_text e)] s1)
      | (Inr (Inr a), s1) \<Rightarrow>
          (let s2 = serving a (slog Info ''starting server'' [(''addr'', srv_Addr (app_server a))] s1)
           in case Run (app_scheduler a) [] s1 of
                Inl msg \<Rightarrow> (Inl msg, s2)
              | Inr _ \<Rightarrow>
                  (case serve_result out s2 of
                     (r, s3) \<Rightarrow>
                       (Inr r, case r of
                          Inl e \<Rightarrow> slog Error ''service exited with error'' [(''error'', error_text e)] (close_store (app_store a) s3)
                        | Inr _ \<Rightarrow> close_store (app_store a) s3))))"
  by (simp add: bootstrap_def run_def Let_def split: prod.split sum.split)

text \<open>The end of serving, the deferred close and the log line of the exit leave the data alone.\<close>

lemma after_serving:
  fixes v :: "'z host_scheme"
  assumes "keeps_stored drv" and "wf_db v" and "serve_result out v = (x, y)"
  shows "wf_db (close_store (sqliteStore drv) y) \<and> view_of (close_store (sqliteStore drv) y) = view_of v"
  using close_store_quiet [OF assms(1), of y] serve_result_quiet [of out v] assms(2,3)
  by (simp add: quiet_step_def)

lemma served_run:
  fixes s :: "'z host_scheme"
  assumes "keeps_stored drv" and "boot bd env drv s = (Inr (Inr a), u)"
    and a: "a = wire bd cfg (sqliteStore drv) psvc"
    and v: "v = serving a (slog Info ''starting server'' [(''addr'', srv_Addr (app_server a))] u)" "wf_db v"
    and "bootstrap bd env drv serving out s = (r, t)"
  shows "wf_db t \<and> view_of t = view_of v \<and>
    aud_main r = (if sint (cfg_pollInterval cfg) \<le> 0 then 2 else if clean_end out then 0 else 1)"
proof -
  obtain x y where res: "serve_result out v = (x, y)" by fastforce
  have store: "app_store a = sqliteStore drv" by (simp add: a)
  have run: "(r, t) = (case Run (app_scheduler a) [] u of
      Inl msg \<Rightarrow> (Inl msg, v)
    | Inr _ \<Rightarrow> (Inr x, case x of
          Inl e \<Rightarrow> slog Error ''service exited with error'' [(''error'', error_text e)] (close_store (sqliteStore drv) y)
        | Inr _ \<Rightarrow> close_store (sqliteStore drv) y))"
    using assms(6) by (cases "Run (app_scheduler a) [] u"; cases x)
      (simp_all add: bootstrap_eq assms(2) Let_def v(1) [symmetric] res store)
  have "wf_db t \<and> view_of t = view_of v"
    using run after_serving [OF assms(1) v(2) res] v(2) by (auto split: sum.splits)
  moreover have "aud_main r = (if sint (cfg_pollInterval cfg) \<le> 0 then 2 else if clean_end out then 0 else 1)"
    using run Run_starts [of "app_scheduler a" bd cfg drv psvc u, OF arg_cong [OF a]] serve_result_clean [of out v]
    by (auto simp: res scheduler_starts_def aud_main_def split: sum.splits)
  ultimately show ?thesis by blast
qed

lemma boot_config:
  "boot bd env drv s = (Inr (Inr a), t) \<Longrightarrow> loadConfig env = Inr (app_config a)"
  by (erule boot_cases) auto

text \<open>
  C19: A whole run of the process, from an empty cooldown registry. Its exit code is 1 when the
  boot fails; 2, a panic, when the boot succeeds with a poll interval that is not positive; 0 when
  serving ended by a closed listener or a shutdown that worked, and 1 otherwise. The tables keep
  their keys; and everything it did to the stored data, boot, any interleaving of requests, ticks
  and attempts, and shutdown together, is a sequence of effects of the abstract machine under the
  configured key, or nothing when the configuration was rejected.
\<close>
theorem process_run:
  fixes s :: "'z host_scheme"
  assumes "keeps_stored drv" and "\<forall>vs. mset (bd_order bd vs) = mset vs"
    and "wf_db s" and "entries s = (\<lambda>_. None)"
    and "bootstrap bd env drv (serve events) out s = (r, t)"
  shows "wf_db t \<and>
    (case loadConfig env of
       Inl e \<Rightarrow> view_of t = view_of s
     | Inr cfg \<Rightarrow> (effect Registry (cfg_masterKey cfg))\<^sup>*\<^sup>* (view_of s) (view_of t)) \<and>
    aud_main r =
      (case boot bd env drv s of
         (Inr (Inr a), u) \<Rightarrow>
           if sint (cfg_pollInterval (app_config a)) \<le> 0 then 2 else if clean_end out then 0 else 1
       | _ \<Rightarrow> 1)"
proof -
  obtain b u where boot: "boot bd env drv s = (b, u)" by fastforce
  have fresh: "s\<lparr>entries := (\<lambda>_. None)\<rparr> = s" using assms(4) by (metis process.surjective process.update_convs(1))
  have u: "wf_db u" "effect Registry key (view_of s) (view_of u)" for key
    using restart_implements [OF assms(1), of key s bd env] boot assms(3)
    by (simp_all add: fresh implements_def)
  show ?thesis
  proof (cases "\<exists>a. b = Inr (Inr a)")
    case True
    then obtain a where a: "b = Inr (Inr a)" ..
    obtain cfg psvc where w: "a = wire bd cfg (sqliteStore drv) psvc" and psvc: "svc_repo psvc = sqlite_providers"
      "svc_registry psvc = Registry" using booted_wiring boot a by metis
    have cfg: "loadConfig env = Inr cfg" using boot_config boot a w by fastforce
    let ?u = "slog Info ''starting server'' [(''addr'', srv_Addr (app_server a))] u"
    have v: "wf_db (serve events a ?u)"
      "(effect Registry (cfg_masterKey cfg))\<^sup>*\<^sup>* (view_of u) (view_of (serve events a ?u))"
      using serve_effects [OF psvc assms(2), of ?u events cfg drv] u(1) by (simp_all add: w)
    note run = served_run [OF assms(1) boot [unfolded a] w refl v(1) assms(5)]
    have "(effect Registry (cfg_masterKey cfg))\<^sup>*\<^sup>* (view_of s) (view_of (serve events a ?u))"
      using converse_rtranclp_into_rtranclp [OF u(2) v(2)] .
    with run boot a show ?thesis by (simp add: cfg w)
  next
    case False
    with boot_ready [OF assms(1,3) boot] obtain e where e: "b = Inr (Inl e)"
      by (cases b rule: sum.exhaust) (auto split: sum.splits)
    have t: "r = Inr (Inl e)" "view_of t = view_of u" "wf_db t = wf_db u"
      using assms(5) by (auto simp: bootstrap_eq boot e)
    have "view_of t = view_of s" if "loadConfig env = Inl e'" for e'
      using boot that t(2) by (simp add: boot_def)
    with t u boot e show ?thesis by (auto simp: aud_main_def split: sum.split)
  qed
qed

section \<open>The database handle\<close>

text \<open>
  \<open>h\<close> tells from the part of the state that only the driver sees whether a handle is open.
\<close>

abbreviation owns_handle :: "('z \<Rightarrow> bool) \<Rightarrow> ('z host_scheme) sql_driver \<Rightarrow> bool" where
  "owns_handle h drv \<equiv> handle_contract (\<lambda>s. h (host.more s)) drv"

lemma host_more_slog [simp]: "host.more (slog l m as s) = host.more s"
  by (simp add: slog_def)

lemma host_more_Reconcile:
  fixes s :: "'z host_scheme"
  assumes "wf_db s" and "Reconcile (NewService sqlite_providers Registry) s = (x, t)"
  shows "host.more t = host.more s"
proof -
  have "providers_rest t = providers_rest s"
    using sqlite_prov.Reconcile_client [OF assms(1) _ _ assms(2)] distinct_Registry
    by (simp add: NewService_def)
  then show ?thesis by (simp add: providers_rest_def outside_tables_def)
qed

lemma boot_store:
  assumes "boot bd env drv s = (Inr (Inr a), t)"
  shows "app_store a = sqliteStore drv"
  using assms by (cases rule: boot_cases) simp_all

lemma close_store_closes: "owns_handle h drv \<Longrightarrow> \<not> h (host.more (close_store (sqliteStore drv) s))"
  using sqlite_Close_handle [of "\<lambda>s. h (host.more s)" drv s]
  by (auto simp: close_store_def sqliteStore_def split: prod.splits sum.splits)

text \<open>
  C20: The database handle: when the process starts with none, the boot leaves one open exactly
  when it hands over an application, however it fails otherwise (a directory that cannot be
  made, a failing open, ping, migration or reconciliation), and at the end of a run none is open,
  whatever happened while it served, and even when closing reports an error; unless the process
  died of the panic that a poll interval that is not positive causes.
\<close>
theorem run_releases:
  fixes s :: "'z host_scheme"
  assumes "keeps_stored drv" and "owns_handle h drv"
    and "wf_db s" and "\<not> h (host.more s)"
    and "boot bd env drv s = (b, t)"
  shows "(h (host.more t) \<longleftrightarrow> (\<exists>a. b = Inr (Inr a))) \<and>
    (case bootstrap bd env drv serving out s of
       (Inl msg, u) \<Rightarrow> \<exists>cfg. loadConfig env = Inr cfg \<and> sint (cfg_pollInterval cfg) \<le> 0
     | (Inr x, u) \<Rightarrow> \<not> h (host.more u))"
proof -
  have opened: "h (host.more s1) = (d = Inr (sqliteStore drv)) \<and> wf_db s1"
    if "sqlite_New drv path (slog l m as s) = (d, s1)" for d s1 path l m as
    using sqlite_New_handle [OF assms(2) _ that] sqlite_New_quiet [OF assms(1), of "slog l m as s" path]
      that assms(3,4) by (simp add: quiet_step_def)
  have boot: "h (host.more t) \<longleftrightarrow> (\<exists>a. b = Inr (Inr a))"
    using assms(5)
  proof (cases rule: boot_cases)
    case (no_database cfg e e')
    with opened [OF no_database(3)] show ?thesis by simp
  next
    case (ready cfg s1 psvc)
    with opened [OF ready(3)] host_more_Reconcile [OF _ ready(4)] show ?thesis by simp
  qed (simp_all add: assms(4) close_store_closes [OF assms(2)])
  have "case bootstrap bd env drv serving out s of
       (Inl msg, u) \<Rightarrow> \<exists>cfg. loadConfig env = Inr cfg \<and> sint (cfg_pollInterval cfg) \<le> 0
     | (Inr x, u) \<Rightarrow> \<not> h (host.more u)"
  proof (cases "\<exists>a. b = Inr (Inr a)")
    case True
    then obtain a where a: "b = Inr (Inr a)" ..
    then obtain cfg psvc where w: "a = wire bd cfg (sqliteStore drv) psvc" using booted_wiring assms(5) by metis
    have "loadConfig env = Inr cfg" using boot_config assms(5) a w by fastforce
    then show ?thesis
      using Run_starts [of "app_scheduler a" bd cfg drv psvc t, folded w] close_store_closes [OF assms(2)]
      by (auto simp: bootstrap_eq assms(5) a w Let_def scheduler_starts_def split: sum.splits prod.splits)
  next
    case False
    with boot_ready [OF assms(1,3,5)] obtain e where "b = Inr (Inl e)"
      by (cases b rule: sum.exhaust) (auto split: sum.splits)
    with boot show ?thesis by (simp add: bootstrap_eq assms(5))
  qed
  with boot show ?thesis ..
qed

section \<open>Concrete instances\<close>

text \<open>A driver with a visible handle, whose ping or close can fail.\<close>

record connection = host +
  is_open :: bool

definition demo_connection :: "goerr option \<Rightarrow> goerr option \<Rightarrow> connection sql_driver" where
  "demo_connection ping close =
     \<lparr>drv_MkdirAll = (\<lambda>p s. (Inr (), s)), drv_Open = (\<lambda>n p s. (Inr (), s\<lparr>is_open := True\<rparr>)),
      drv_SetMaxOpenConns = (\<lambda>n s. s),
      drv_Ping = (\<lambda>s. (case ping of None \<Rightarrow> Inr () | Some e \<Rightarrow> Inl e, s)),
      goose_NewProvider = (\<lambda>s. (Inr (), s)), goose_Up = (\<lambda>s. (Inr (), s)),
      drv_Close = (\<lambda>s. (case close of None \<Rightarrow> Inr () | Some e \<Rightarrow> Inl e, s\<lparr>is_open := False\<rparr>))\<rparr>"

abbreviation open_handle :: "\<lparr>is_open :: bool\<rparr> \<Rightarrow> bool" where
  "open_handle x \<equiv> x = \<lparr>is_open = True\<rparr>"

lemma open_handle_iff: "open_handle (host.more s) \<longleftrightarrow> is_open s"
  by (cases s) simp

lemma demo_connection_contract:
  "keeps_stored (demo_connection ping close)" "owns_handle open_handle (demo_connection ping close)"
  unfolding open_handle_iff
  by (simp_all add: demo_connection_def driver_does_def handle_contract_def quiet_step_def wf_db_def
      view_of_def enabled_in_def secret_in_def latest_in_def fun_eq_iff split: option.splits)

definition closed_host :: connection where
  "closed_host = host.extend empty_host \<lparr>is_open = False\<rparr>"

theorem run_releases_witness:
  "\<exists>e t. boot demo_build demo_env
       (demo_connection (Some (ErrorString ''locked'')) (Some (ErrorString ''io''))) closed_host
     = (Inr (Inl e), t) \<and> \<not> is_open t"
proof -
  let ?drv = "demo_connection (Some (ErrorString ''locked'')) (Some (ErrorString ''io''))"
  have s: "wf_db closed_host" "\<not> open_handle (host.more closed_host)"
    by (simp_all add: closed_host_def host.extend_def wf_db_def empty_host_def unique_keys_def)
  have new: "sqlite_New ?drv demo_path s =
      (Inl (Wrap (''sqlite: open '' @ demo_path) (ErrorString ''locked'')), s\<lparr>is_open := False\<rparr>)" for demo_path s
    by (simp add: sqlite_New_def demo_connection_def Let_def)
  have boot: "\<exists>e t. boot demo_build demo_env ?drv closed_host = (Inr (Inl e), t)"
    by (simp add: boot_def demo_config_loads new)
  then obtain e t where run: "boot demo_build demo_env ?drv closed_host = (Inr (Inl e), t)"
    by blast
  from run_releases [OF demo_connection_contract s run] have "\<not> open_handle (host.more t)" by auto
  with run show ?thesis unfolding open_handle_iff by auto
qed

theorem process_run_witness:
  "\<exists>t. bootstrap demo_build demo_env demo_driver
       (serve [Requested (demo_request ''POST'' ''minimax''), Ticked]) (Signalled None) empty_host
     = (Inr (Inr ()), t) \<and> wf_db t"
proof -
  obtain r t where run: "bootstrap demo_build demo_env demo_driver
       (serve [Requested (demo_request ''POST'' ''minimax''), Ticked]) (Signalled None) empty_host = (r, t)"
    by fastforce
  obtain a u where boot: "boot demo_build demo_env demo_driver empty_host = (Inr (Inr a), u)"
    and cfg: "app_config a = demo_config" by (rule demo_boots)
  have "entries empty_host = (\<lambda>_. None)" by (simp add: empty_host_def)
  from process_run [OF demo_driver_quiet demo_order empty_host_simps(1) this run] boot
  have "aud_main r = 0" "wf_db t" by (simp_all add: clean_end_def cfg demo_config_def)
  with run show ?thesis by (auto simp: aud_main_def split: sum.splits)
qed

end
