(* ===== verification/Resumption.thy ===== *)
theory Resumption
  imports Prelude
begin

text \<open>
  Operations as sequences of atomic calls, so that several of them can run at the same time: a
  program either has its result or makes one call on the shared state and goes on with what the
  call answered. A pool of such programs runs in any interleaving, and new ones arrive at any
  moment; a crash ends all of them between two calls.
\<close>

section \<open>Programs\<close>

datatype ('s, 'a) prog =
  Return 'a
| Act "'s \<Rightarrow> ('s, 'a) prog \<times> 's"

primrec then_do :: "('s, 'a) prog \<Rightarrow> ('a \<Rightarrow> ('s, 'b) prog) \<Rightarrow> ('s, 'b) prog" where
  "then_do (Return a) k = k a"
| "then_do (Act f) k = Act (map_prod (\<lambda>p. then_do p k) id \<circ> f)"

definition call :: "('s \<Rightarrow> 'a \<times> 's) \<Rightarrow> ('s, 'a) prog" where
  "call op = Act (\<lambda>s. case op s of (a, t) \<Rightarrow> (Return a, t))"

text \<open>A program that nothing interrupts.\<close>

primrec exec :: "('s, 'a) prog \<Rightarrow> 's \<Rightarrow> 'a \<times> 's" where
  "exec (Return a) = (\<lambda>s. (a, s))"
| "exec (Act f) = (\<lambda>s. case (map_prod exec id \<circ> f) s of (run, t) \<Rightarrow> run t)"

lemma exec_call [simp]: "exec (call op) = op"
  by (simp add: call_def fun_eq_iff split: prod.split)

lemma exec_then [simp]: "exec (then_do p k) s = (case exec p s of (a, t) \<Rightarrow> exec (k a) t)"
proof (induction p arbitrary: s)
  case (Act f)
  obtain q t where step: "f s = (q, t)" by fastforce
  have "f s \<in> range f" "q \<in> Basic_BNFs.fsts (f s)" by (rule rangeI, simp add: step prod_set_simps)
  from Act [OF this] show ?case by (simp add: step)
qed simp

section \<open>What every call of a program does\<close>

text \<open>
  Whenever the program is resumed in a state with \<open>I\<close>, whatever happened to the state since its
  last call, its next call keeps \<open>I\<close> and is a step of \<open>R\<close>; and its result has \<open>Q\<close>.
\<close>

inductive behaves :: "('s \<Rightarrow> bool) \<Rightarrow> ('s \<Rightarrow> 's \<Rightarrow> bool) \<Rightarrow> ('a \<Rightarrow> bool) \<Rightarrow> ('s, 'a) prog \<Rightarrow> bool"
  for I R Q where
  result: "Q a \<Longrightarrow> behaves I R Q (Return a)"
| action: "(\<And>s q t. I s \<Longrightarrow> f s = (q, t) \<Longrightarrow> I t \<and> R s t) \<Longrightarrow>
    (\<And>s q t. I s \<Longrightarrow> f s = (q, t) \<Longrightarrow> behaves I R Q q) \<Longrightarrow> behaves I R Q (Act f)"

inductive_simps behaves_simps [simp]: "behaves I R Q (Return a)" "behaves I R Q (Act f)"

lemma behaves_call:
  assumes "\<And>s a t. I s \<Longrightarrow> op s = (a, t) \<Longrightarrow> I t \<and> R s t \<and> Q a"
  shows "behaves I R Q (call op)"
  using assms by (auto simp: call_def split: prod.splits)

lemma behaves_then:
  assumes "behaves I R Q p" and "\<And>a. Q a \<Longrightarrow> behaves I R Q' (k a)"
  shows "behaves I R Q' (then_do p k)"
  using assms(1)
proof (induction rule: behaves.induct)
  case (action f)
  have "I t \<and> R s t \<and> behaves I R Q' q" if "I s" "(map_prod (\<lambda>p. then_do p k) id \<circ> f) s = (q, t)" for s q t
    using action.hyps(1) [OF that(1)] action.IH [OF that(1)] that(2) by (cases "f s") auto
  then show ?case unfolding then_do.simps by (intro behaves.action) blast+
qed (simp add: assms(2))

lemma behaves_weaken:
  assumes "behaves I R Q p" and "\<And>s t. R s t \<Longrightarrow> R' s t" and "\<And>a. Q a \<Longrightarrow> Q' a"
  shows "behaves I R' Q' p"
  using assms(1) by (induction rule: behaves.induct) (auto intro!: behaves.intros assms(2,3))

lemma behaves_call_then:
  assumes "\<And>s a t. I s \<Longrightarrow> op s = (a, t) \<Longrightarrow> I t \<and> R s t \<and> behaves I R Q (k a)"
  shows "behaves I R Q (then_do (call op) k)"
  by (rule behaves_then [where Q = "\<lambda>a. behaves I R Q (k a)", OF behaves_call]) (use assms in auto)

section \<open>Pools\<close>

text \<open>\<open>T\<close> holds the programs that may arrive.\<close>

inductive pool_step :: "('s, 'a) prog set \<Rightarrow> ('s, 'a) prog list \<times> 's \<Rightarrow> ('s, 'a) prog list \<times> 's \<Rightarrow> bool"
  for T where
  arrives: "p \<in> T \<Longrightarrow> pool_step T (ps, s) (p # ps, s)"
| resumes: "i < length ps \<Longrightarrow> ps ! i = Act f \<Longrightarrow> f s = (p, t) \<Longrightarrow> pool_step T (ps, s) (ps[i := p], t)"

inductive crash_step :: "('s, 'a) prog set \<Rightarrow> ('s, 'a) prog list \<times> 's \<Rightarrow> ('s, 'a) prog list \<times> 's \<Rightarrow> bool"
  for T where
  runs: "pool_step T c d \<Longrightarrow> crash_step T c d"
| crashes: "crash_step T (ps, s) ([], s)"

text \<open>
  If every program of the pool and every one that may arrive behaves, then so does the pool: the
  state keeps \<open>I\<close>, and whatever the interleaving, it only moves by steps of \<open>R\<close>.
\<close>

lemma pool_step_behaves:
  assumes "pool_step T (ps, s) (ps', t)" and "\<forall>p \<in> T. behaves I R Q p"
    and "\<forall>p \<in> set ps. behaves I R Q p" and "I s"
  shows "(\<forall>p \<in> set ps'. behaves I R Q p) \<and> I t \<and> R\<^sup>*\<^sup>* s t"
  using assms(1)
proof cases
  case (resumes i f p)
  then have "behaves I R Q (Act f)" using assms(3) nth_mem by metis
  with resumes assms(4) have "behaves I R Q p" "I t" "R s t" by auto
  moreover have "set ps' \<subseteq> insert p (set ps)" by (simp add: resumes set_update_subset_insert)
  ultimately show ?thesis using assms(3) by auto
qed (use assms(2-4) in auto)

lemma pool_behaves:
  assumes "(crash_step T)\<^sup>*\<^sup>* (ps, s) (ps', t)" and "\<forall>p \<in> T. behaves I R Q p"
    and "\<forall>p \<in> set ps. behaves I R Q p" and "I s"
  shows "(\<forall>p \<in> set ps'. behaves I R Q p) \<and> I t \<and> R\<^sup>*\<^sup>* s t"
  using assms(1)
proof (induction rule: rtranclp_induct2)
  case (step qs u ps' t)
  from step.IH have u: "\<forall>p \<in> set qs. behaves I R Q p" "I u" "R\<^sup>*\<^sup>* s u" by simp_all
  from step.hyps(2) show ?case
  proof cases
    case runs
    from pool_step_behaves [OF this assms(2) u(1,2)] u(3) show ?thesis by auto
  qed (use u in auto)
qed (use assms(3,4) in simp)

text \<open>A pool can run any one program to its end: what a sequential execution does is one interleaving.\<close>

lemma pool_runs:
  "i < length ps \<Longrightarrow> ps ! i = p \<Longrightarrow> exec p s = (a, t) \<Longrightarrow>
     (pool_step T)\<^sup>*\<^sup>* (ps, s) (ps[i := Return a], t)"
proof (induction p arbitrary: s ps)
  case (Act f)
  obtain q u where step: "f s = (q, u)" by fastforce
  have "f s \<in> range f" "q \<in> Basic_BNFs.fsts (f s)" by (rule rangeI, simp add: step prod_set_simps)
  moreover have "exec q u = (a, t)" using Act.prems(3) by (simp add: step)
  ultimately have "(pool_step T)\<^sup>*\<^sup>* (ps[i := q], u) (ps[i := Return a], t)"
    using Act.IH [of "f s" q "ps[i := q]" u] Act.prems(1) by simp
  from converse_rtranclp_into_rtranclp [OF pool_step.resumes [OF Act.prems(1,2) step] this]
  show ?case by simp
next
  case (Return x)
  then show ?case by (metis exec.simps(1) fst_conv list_update_id rtranclp.rtrancl_refl snd_conv)
qed

section \<open>What a program assures in spite of the others\<close>

text \<open>
  \<open>E\<close> is what the others may do between two calls. The program ends with a result and a state
  that satisfy \<open>Q\<close>, and they still do whatever the others do afterwards.
\<close>

primrec assures :: "('s \<Rightarrow> 's \<Rightarrow> bool) \<Rightarrow> ('a \<Rightarrow> 's \<Rightarrow> bool) \<Rightarrow> ('s, 'a) prog \<Rightarrow> 's \<Rightarrow> bool" where
  "assures E Q (Return a) = (\<lambda>s. \<forall>t. E s t \<longrightarrow> Q a t)"
| "assures E Q (Act f) =
     (\<lambda>s. \<forall>t. E s t \<longrightarrow> (case (map_prod (assures E Q) id \<circ> f) t of (holds, u) \<Rightarrow> holds u))"

lemma assures_Act:
  "assures E Q (Act f) s \<longleftrightarrow> (\<forall>t q u. E s t \<longrightarrow> f t = (q, u) \<longrightarrow> assures E Q q u)"
  by (auto simp: split_beta map_prod_def)

lemma assures_later: "transp E \<Longrightarrow> assures E Q p s \<Longrightarrow> E s t \<Longrightarrow> assures E Q p t"
  by (cases p) (auto dest: transpD)

lemma assures_weaken:
  "assures E Q p s \<Longrightarrow> (\<And>a t. Q a t \<Longrightarrow> Q' a t) \<Longrightarrow> assures E Q' p s"
proof (induction p arbitrary: s)
  case (Act f)
  have "assures E Q' q u" if "E s t" "f t = (q, u)" for q t u
  proof -
    have "f t \<in> range f" "q \<in> Basic_BNFs.fsts (f t)" by (rule rangeI, simp add: that prod_set_simps)
    moreover have "assures E Q q u" using Act.prems(1) that by auto
    ultimately show ?thesis using Act.IH Act.prems(2) by blast
  qed
  then show ?case unfolding assures_Act by blast
qed auto

lemma assures_then:
  assumes "reflp E"
  shows "assures E (\<lambda>a. assures E Q (k a)) p s \<Longrightarrow> assures E Q (then_do p k) s"
proof (induction p arbitrary: s)
  case (Act f)
  have "assures E Q (then_do q k) u" if "E s t" "f t = (q, u)" for q t u
  proof -
    have "f t \<in> range f" "q \<in> Basic_BNFs.fsts (f t)" by (rule rangeI, simp add: that prod_set_simps)
    moreover have "assures E (\<lambda>a. assures E Q (k a)) q u" using Act.prems(1) that by auto
    ultimately show ?thesis using Act.IH by blast
  qed
  then show ?case unfolding then_do.simps assures_Act by (auto simp: map_prod_def split_beta)
next
  case (Return a)
  then show ?case using assms by (simp add: reflpD)
qed

lemma assures_call:
  assumes "\<And>t a u v. E s t \<Longrightarrow> op t = (a, u) \<Longrightarrow> E u v \<Longrightarrow> Q a v"
  shows "assures E Q (call op) s"
  using assms by (auto simp: call_def split: prod.split)

text \<open>In a pool, the others are the programs that arrive; none of them is the one that is watched.\<close>

lemma pool_assures:
  assumes "(pool_step T)\<^sup>*\<^sup>* ([p], s) (qs, t)" and "reflp E" and "transp E"
    and others: "\<forall>q \<in> T. behaves I R Q0 q" and own: "behaves I R' Q1 p" and "I s"
    and rely: "\<And>u v. I u \<Longrightarrow> I v \<Longrightarrow> R u v \<Longrightarrow> E u v" and "assures E Q p s"
  shows "\<exists>ps q. qs = ps @ [q] \<and> (\<forall>r \<in> set ps. behaves I R Q0 r) \<and> behaves I R' Q1 q \<and> I t \<and>
    assures E Q q t"
  using assms(1)
proof (induction rule: rtranclp_induct2)
  case refl
  show ?case using own assms(6,8) by (intro exI [of _ "[]"] exI [of _ p]) simp
next
  case (step qs u qs' v)
  then obtain ps q where c: "qs = ps @ [q]" "\<forall>r \<in> set ps. behaves I R Q0 r" "behaves I R' Q1 q" "I u"
    "assures E Q q u" by blast
  from step.hyps(2) show ?case
  proof cases
    case (arrives r)
    with c others show ?thesis by (intro exI [of _ "r # ps"] exI [of _ q]) simp
  next
    case (resumes i f r)
    show ?thesis
    proof (cases "i < length ps")
      case True
      with resumes c have "behaves I R Q0 (Act f)" by (metis nth_append nth_mem)
      with resumes c(4) have r: "behaves I R Q0 r" "I v" "R u v" by auto
      then have "assures E Q q v" using assures_later [OF assms(3) c(5)] rely c(4) by blast
      moreover have "set (ps[i := r]) \<subseteq> insert r (set ps)" by (rule set_update_subset_insert)
      ultimately show ?thesis using resumes c r True
        by (intro exI [of _ "ps[i := r]"] exI [of _ q]) (auto simp: list_update_append)
    next
      case False
      with resumes c have i: "i = length ps" and q: "q = Act f" by (auto simp: nth_append)
      have "behaves I R' Q1 r" "I v" using c(3,4) resumes q by auto
      moreover have "assures E Q r v" using c(5) resumes q assms(2) by (auto dest: reflpD)
      ultimately show ?thesis using resumes c i
        by (intro exI [of _ ps] exI [of _ r]) (simp add: list_update_append)
    qed
  qed
qed

end
