(* ===== verification/Concurrent.thy ===== *)
theory Concurrent
  imports Resumption Scheduler Api
begin

text \<open>
  The operations of \<^verbatim>\<open>credential\<close>, \<^verbatim>\<open>scheduler\<close> and the adapters of
  \<^verbatim>\<open>api\<close> again, as programs that make one call at a time on what requests and scheduler
  share: one statement on the single database connection, one operation of the cooldown registry
  under its mutex, one reading of the clock or the random source, one fetch. Operations that make
  a single call need no program of their own. Run alone, a program is the operation.
\<close>

definition perform :: "('s \<Rightarrow> 's) \<Rightarrow> ('s, unit) prog" where
  "perform f = call (\<lambda>s. ((), f s))"

lemma exec_perform [simp]: "exec (perform f) s = ((), f s)"
  by (simp add: perform_def)

section \<open>Setting credentials\<close>

fun set_values_prog ::
    "('z runtime_scheme) credential_service \<Rightarrow> string \<Rightarrow> (string \<times> string) list
       \<Rightarrow> ('z runtime_scheme, unit result) prog" where
  "set_values_prog svc p [] = Return (Inr ())"
| "set_values_prog svc p ((field, v) # vs) =
     then_do (call (Seal (cs_masterKey svc) (bytes_of_string v) (AAD p field))) (\<lambda>sealed.
       case sealed of
         Inl e \<Rightarrow> Return (Inl (Wrap (''credential: seal '' @ p @ ''/'' @ field) e))
       | Inr blob \<Rightarrow>
           then_do (call (cred_Upsert (cs_repo svc) p field blob)) (\<lambda>upserted.
             case upserted of
               Inl e \<Rightarrow> Return (Inl (Wrap (''credential: upsert '' @ p @ ''/'' @ field) e))
             | Inr _ \<Rightarrow> set_values_prog svc p vs))"

definition SetValues_prog ::
    "('z runtime_scheme) credential_service \<Rightarrow> string \<Rightarrow> (string \<times> string) list
       \<Rightarrow> ('z runtime_scheme, unit result) prog" where
  "SetValues_prog svc p vs =
     then_do (set_values_prog svc p vs) (\<lambda>r.
       case r of
         Inl e \<Rightarrow> Return (Inl e)
       | Inr _ \<Rightarrow>
           (case cs_cooldown svc of
              None \<Rightarrow> Return (Inr ())
            | Some clear \<Rightarrow> then_do (perform (clear p)) (\<lambda>_. Return (Inr ()))))"

lemma exec_set_values: "exec (set_values_prog svc p vs) s = set_values svc p vs s"
  by (induction svc p vs s rule: set_values.induct) (auto split: prod.split sum.split)

lemma exec_SetValues: "exec (SetValues_prog svc p vs) s = SetValues svc p vs s"
  by (simp add: SetValues_prog_def SetValues_def exec_set_values split: prod.split sum.split option.split)

section \<open>Collecting\<close>

fun load_fields_prog ::
    "'s credential_service \<Rightarrow> string \<Rightarrow> credential_field list \<Rightarrow> creds \<Rightarrow> ('s, creds result) prog" where
  "load_fields_prog svc p [] creds = Return (Inr creds)"
| "load_fields_prog svc p (f # fs) creds =
     then_do (call (Reveal svc p (cf_name f))) (\<lambda>r.
       case r of
         Inl e \<Rightarrow>
           Return (Inl (if errors_is e ErrNotFound then Sentinel ErrProviderUncredentialed
             else Wrap (''scheduler: load credential '' @ p @ ''/'' @ cf_name f) e))
       | Inr v \<Rightarrow> load_fields_prog svc p fs (creds(cf_name f \<mapsto> v)))"

lemma exec_load_fields: "exec (load_fields_prog svc p fs cr) s = load_fields svc p fs cr s"
  by (induction svc p fs cr s rule: load_fields.induct) (auto simp: fun_upd_def split: prod.split sum.split)

definition Collect_prog ::
    "('z runtime_scheme) collector \<Rightarrow> string \<Rightarrow> ('z runtime_scheme, snapshot result) prog" where
  "Collect_prog c providerID =
     then_do (call (service_Get (col_providers c) providerID)) (\<lambda>got.
       case got of
         Inl e \<Rightarrow> Return (Inl e)
       | Inr p \<Rightarrow>
           if \<not> p_enabled p then Return (Inl (Sentinel ErrProviderDisabled))
           else then_do (load_fields_prog (col_credentials c) (md_id p) (md_fields p) (\<lambda>_. None)) (\<lambda>loaded.
             case loaded of
               Inl e \<Rightarrow> Return (Inl e)
             | Inr creds \<Rightarrow>
                 then_do (call (FetchUsage (col_providers c) providerID creds)) (\<lambda>fetched.
                   case fetched of
                     Inl e \<Rightarrow> Return (Inl e)
                   | Inr metrics \<Rightarrow>
                       then_do (call time_Now) (\<lambda>t.
                         let collectedAt = time_UTC t; storeMetrics = toStoreMetrics metrics
                         in then_do (call (snap_Replace (col_snapshots c) providerID storeMetrics collectedAt))
                              (\<lambda>replaced.
                                 case replaced of
                                   Inl e \<Rightarrow>
                                     Return (Inl (Wrap (''scheduler: replace snapshot '' @ providerID) e))
                                 | Inr _ \<Rightarrow>
                                     Return (Inr \<lparr>snap_provider_id = providerID, snap_metrics = storeMetrics,
                                       snap_collected_at = collectedAt, snap_last_error = None\<rparr>))))))"

lemma exec_Collect: "exec (Collect_prog c p) s = Collect c p s"
  by (simp add: Collect_prog_def Collect_def loadCredentials_def exec_load_fields Let_def
      split: prod.split sum.split)

section \<open>Scheduling\<close>

definition active_prog :: "('z process_scheme) scheduler \<Rightarrow> string \<Rightarrow> ('z process_scheme, bool) prog" where
  "active_prog sch providerID =
     (case sch_cooldown sch of None \<Rightarrow> Return False | Some r \<Rightarrow> call (active providerID))"

text \<open>What follows an attempt, by its result.\<close>

definition settle_prog ::
    "('z process_scheme) scheduler \<Rightarrow> string \<Rightarrow> snapshot result \<Rightarrow> ('z process_scheme, unit) prog" where
  "settle_prog sch providerID r =
     (case r of
        Inl e \<Rightarrow>
          if errors_is e ErrFetcherNotFound then
            perform (slog Warn ''scheduler: provider has no registered fetcher, skipping''
              [(''provider'', providerID)])
          else if errors_is e ErrAuth then
            then_do (case sch_cooldown sch of
                None \<Rightarrow> Return () | Some reg \<Rightarrow> perform (recordFailure reg providerID)) (\<lambda>_.
              perform (slog Warn ''scheduler: provider authentication failed, engaging cooldown''
                [(''provider'', providerID), (''error'', error_text e)]))
          else
            perform (slog Error ''scheduler: collect provider usage failed''
              [(''provider'', providerID), (''error'', error_text e)])
      | Inr _ \<Rightarrow>
          (case sch_cooldown sch of None \<Rightarrow> Return () | Some reg \<Rightarrow> perform (Clear providerID)))"

definition collectOne_prog ::
    "('z process_scheme) scheduler \<Rightarrow> string \<Rightarrow> ('z process_scheme, unit) prog" where
  "collectOne_prog sch providerID =
     then_do (active_prog sch providerID) (\<lambda>gated.
       if gated then
         perform (slog Warn ''scheduler: provider is in auth-failure cooldown, skipping''
           [(''provider'', providerID)])
       else then_do (Collect_prog (sch_collector sch) providerID) (settle_prog sch providerID))"

lemma exec_settle: "exec (settle_prog sch p r) s = ((), settle sch p r s)"
  by (simp add: settle_prog_def settle_def split: sum.split option.split)

lemma exec_active:
  "exec (active_prog sch p) s = (case sch_cooldown sch of None \<Rightarrow> (False, s) | Some r \<Rightarrow> active p s)"
  by (simp add: active_prog_def split: option.split)

lemma exec_collectOne: "exec (collectOne_prog sch p) s = ((), collectOne sch p s)"
proof -
  obtain g s1 where g: "exec (active_prog sch p) s = (g, s1)" by fastforce
  obtain r s2 where r: "Collect (sch_collector sch) p s1 = (r, s2)" by fastforce
  have "collectOne sch p s = (if g then slog Warn ''scheduler: provider is in auth-failure cooldown, skipping''
      [(''provider'', p)] s1 else settle sch p r s2)"
    unfolding collectOne_def g [unfolded exec_active]
    by (simp add: r settle_def split: sum.split option.split)
  then show ?thesis by (simp add: collectOne_prog_def g r exec_Collect exec_settle)
qed

fun tick_loop_prog ::
    "('z process_scheme) scheduler \<Rightarrow> provider list \<Rightarrow> ('z process_scheme, unit) prog" where
  "tick_loop_prog sch [] = Return ()"
| "tick_loop_prog sch (p # ps) =
     (if \<not> p_enabled p then tick_loop_prog sch ps
      else then_do (call ctx_Err) (\<lambda>cancelled.
        if cancelled then Return ()
        else then_do (collectOne_prog sch (md_id p)) (\<lambda>_. tick_loop_prog sch ps)))"

lemma exec_tick_loop: "exec (tick_loop_prog sch ps) s = ((), tick_loop sch ps s)"
  by (induction sch ps s rule: tick_loop.induct) (auto simp: exec_collectOne split: prod.split)

definition tick_prog :: "('z process_scheme) scheduler \<Rightarrow> ('z process_scheme, unit) prog" where
  "tick_prog sch =
     then_do (call (service_List (sch_providers sch))) (\<lambda>r.
       case r of
         Inl e \<Rightarrow> perform (slog Error ''scheduler: list providers'' [(''error'', error_text e)])
       | Inr providers \<Rightarrow> tick_loop_prog sch providers)"

lemma exec_tick: "exec (tick_prog sch) s = ((), tick sch s)"
  by (simp add: tick_prog_def tick_def exec_tick_loop split: prod.split sum.split)

section \<open>The operations behind the API\<close>

definition SetCredentials_prog ::
    "('z runtime_scheme) credential_adapter \<Rightarrow> string \<Rightarrow> (string \<times> string) list
       \<Rightarrow> ('z runtime_scheme, unit result) prog" where
  "SetCredentials_prog a providerID values =
     then_do (call (service_Get (ca_providers a) providerID)) (\<lambda>got.
       case got of
         Inl e \<Rightarrow> Return (Inl e)
       | Inr p \<Rightarrow>
           (case validateCredentialFields (md_fields p) values of
              Some e \<Rightarrow> Return (Inl e)
            | None \<Rightarrow> SetValues_prog (ca_credentials a) providerID (ca_order a values)))"

definition GetCredentialPresence_prog ::
    "'s credential_adapter \<Rightarrow> string \<Rightarrow> ('s, credential_presence list result) prog" where
  "GetCredentialPresence_prog a providerID =
     then_do (call (service_Get (ca_providers a) providerID)) (\<lambda>got.
       case got of
         Inl e \<Rightarrow> Return (Inl e)
       | Inr p \<Rightarrow>
           then_do (call (Presence (ca_credentials a) providerID)) (\<lambda>r.
             case r of
               Inl e \<Rightarrow> Return (Inl e)
             | Inr presence \<Rightarrow>
                 Return (Inr (map (\<lambda>f. \<lparr>cpr_Configured = presence (cf_name f), cpr_Name = cf_name f\<rparr>)
                   (md_fields p)))))"

definition DeleteCredentials_prog :: "'s credential_adapter \<Rightarrow> string \<Rightarrow> ('s, unit result) prog" where
  "DeleteCredentials_prog a providerID =
     then_do (call (service_Get (ca_providers a) providerID)) (\<lambda>got.
       case got of Inl e \<Rightarrow> Return (Inl e) | Inr _ \<Rightarrow> call (Delete (ca_credentials a) providerID))"

definition GetUsage_prog ::
    "'s provider_service \<Rightarrow> 's snapshot_repository \<Rightarrow> string \<Rightarrow> ('s, usage_snapshot result) prog" where
  "GetUsage_prog providers snapshots providerID =
     then_do (call (service_Get providers providerID)) (\<lambda>got.
       case got of
         Inl e \<Rightarrow> Return (Inl e)
       | Inr _ \<Rightarrow>
           then_do (call (snap_GetSnapshot snapshots providerID)) (\<lambda>r.
             case r of
               Inl e \<Rightarrow> Return (if errors_is e ErrNotFound then Inr pending_snapshot else Inl e)
             | Inr snap \<Rightarrow> Return (Inr (toAPIUsageSnapshot snap))))"

definition RefreshUsage_prog ::
    "('z runtime_scheme) collector \<Rightarrow> string \<Rightarrow> ('z runtime_scheme, usage_snapshot result) prog" where
  "RefreshUsage_prog col providerID =
     then_do (Collect_prog col providerID) (\<lambda>r.
       case r of Inl e \<Rightarrow> Return (Inl e) | Inr snap \<Rightarrow> Return (Inr (toAPIUsageSnapshot snap)))"

lemma exec_operations:
  "exec (SetCredentials_prog a p vs) s = adapter_SetCredentials a p vs s"
  "exec (GetCredentialPresence_prog a' p) s' = adapter_GetCredentialPresence a' p s'"
  "exec (DeleteCredentials_prog a' p) s' = adapter_DeleteCredentials a' p s'"
  "exec (GetUsage_prog psvc sns p) s' = adapter_GetUsage psvc sns p s'"
  "exec (RefreshUsage_prog c p) s = adapter_RefreshUsage c p s"
  by (simp_all add: SetCredentials_prog_def adapter_SetCredentials_def GetCredentialPresence_prog_def
      adapter_GetCredentialPresence_def DeleteCredentials_prog_def adapter_DeleteCredentials_def
      GetUsage_prog_def adapter_GetUsage_def RefreshUsage_prog_def adapter_RefreshUsage_def
      exec_SetValues exec_Collect split: prod.split sum.split option.split)

text \<open>
  The interruptible programs are the operations: run without interruption, each makes exactly
  the calls of the operation it stands for and answers the same, so that interleaving them is the
  only difference.
\<close>
theorem programs_exact:
  "exec (SetCredentials_prog a p vs) = adapter_SetCredentials a p vs \<and>
   exec (GetCredentialPresence_prog a p) = adapter_GetCredentialPresence a p \<and>
   exec (DeleteCredentials_prog a p) = adapter_DeleteCredentials a p \<and>
   exec (GetUsage_prog psvc sns p) = adapter_GetUsage psvc sns p \<and>
   exec (RefreshUsage_prog c p) = adapter_RefreshUsage c p \<and>
   exec (collectOne_prog sch p) = Pair () \<circ> collectOne sch p \<and>
   exec (tick_prog sch) = Pair () \<circ> tick sch"
  by (intro conjI ext) (simp_all add: exec_operations exec_collectOne exec_tick)

end
