(* ===== verification/Interleaving.thy ===== *)
theory Interleaving
  imports System Concurrent
begin

text \<open>
  Requests and the scheduler at the same time. \<open>System\<close> interleaves whole operations; here any
  number of them run as the programs of \<open>Concurrent\<close> and are interleaved call by call, arrive at
  any time, and may be cut off between two calls by a crash. The conditions under which
  \<open>Dashboard\<close> lets an operation change something (enabled, all credentials there) are then only
  known to have held when they were checked; what every single call does is the relation
  \<open>micro\<close>, and it keeps the invariant of the service.
\<close>

section \<open>What one call may do\<close>

datatype action =
  Quiet | Switches string | Stores string string | Erases string | Replaces string
| Ungates string | Gates string

inductive micro :: "metadata list \<Rightarrow> bytes \<Rightarrow> action \<Rightarrow> view \<Rightarrow> view \<Rightarrow> bool" for cat key where
  quiet: "micro cat key Quiet v v"
| switches: "listed cat p \<Longrightarrow> v_enabled v p \<noteq> None \<Longrightarrow>
    micro cat key (Switches p) v (v\<lparr>v_enabled := (v_enabled v)(p \<mapsto> b)\<rparr>)"
| stores: "f \<in> fields_of cat p \<Longrightarrow> opens_to key p f (Some blob) \<noteq> None \<Longrightarrow>
    micro cat key (Stores p f) v
      (v\<lparr>v_secret := (v_secret v)(p := (v_secret v p)(f \<mapsto> blob))\<rparr>)"
| erases: "listed cat p \<Longrightarrow>
    micro cat key (Erases p) v (v\<lparr>v_secret := (v_secret v)(p := (\<lambda>_. None))\<rparr>)"
| replaces: "listed cat p \<Longrightarrow> snapshot_for p r \<Longrightarrow>
    micro cat key (Replaces p) v (v\<lparr>v_latest := (v_latest v)(p \<mapsto> r)\<rparr>)"
| ungates: "listed cat p \<Longrightarrow> micro cat key (Ungates p) v (v\<lparr>v_gate := (v_gate v)(p := None)\<rparr>)"
| gates: "listed cat p \<Longrightarrow>
    failures e = (case v_gate v p of None \<Rightarrow> 1 | Some e0 \<Rightarrow> failures e0 + 1) \<Longrightarrow>
    micro cat key (Gates p) v (v\<lparr>v_gate := (v_gate v)(p \<mapsto> e)\<rparr>)"

inductive_cases microE: "micro cat key l v v'"

declare micro.quiet [simp]

lemma micro_secure:
  assumes "micro cat key l v v'" and "secure cat key v"
  shows "secure cat key v'"
  using assms(1)
proof cases
  case (stores f p blob)
  have "g \<in> fields_of cat q \<and> opens_to key q g (v_secret v' q g) \<noteq> None" if "v_secret v' q g \<noteq> None" for q g
    using that secureD(2,3) [OF assms(2), of q g] stores by (cases "q = p \<and> g = f") auto
  with secureD(1,4,5) [OF assms(2)] show ?thesis unfolding secure_def by (simp add: stores(2))
qed (use assms(2) in \<open>auto simp: secure_def split: if_splits\<close>)

lemma micro_frame:
  assumes "micro cat key l v v'"
  shows "v_enabled v' q \<noteq> v_enabled v q \<Longrightarrow> l = Switches q"
    and "v_secret v' q g \<noteq> v_secret v q g \<Longrightarrow> l = Erases q \<or> l = Stores q g"
    and "v_latest v' q \<noteq> v_latest v q \<Longrightarrow> l = Replaces q"
    and "v_gate v' q \<noteq> v_gate v q \<Longrightarrow> l = Ungates q \<or> l = Gates q"
  using assms by (auto elim!: microE split: if_splits)

text \<open>A call whose action, if it has one, is in \<open>L\<close>.\<close>

definition moves :: "metadata list \<Rightarrow> bytes \<Rightarrow> action set \<Rightarrow> 'z host_scheme \<Rightarrow> 'z host_scheme \<Rightarrow> bool" where
  "moves cat key L s t \<longleftrightarrow> (\<exists>l \<in> insert Quiet L. micro cat key l (view_of s) (view_of t))"

lemma moves_quiet: "view_of t = view_of s \<Longrightarrow> moves cat key L s t"
  by (simp add: moves_def)

lemma moves_mono: "moves cat key L s t \<Longrightarrow> L \<subseteq> L' \<Longrightarrow> moves cat key L' s t"
  by (auto simp: moves_def)

abbreviation does_only ::
    "metadata list \<Rightarrow> bytes \<Rightarrow> action set \<Rightarrow> ('a \<Rightarrow> bool) \<Rightarrow> ('z host_scheme, 'a) prog \<Rightarrow> bool" where
  "does_only cat key L Q p \<equiv> behaves wf_db (moves cat key L) Q p"

lemma does_quiet:
  assumes "\<And>s a t. op s = (a, t) \<Longrightarrow> quiet_step s t" and "\<And>s a t. wf_db s \<Longrightarrow> op s = (a, t) \<Longrightarrow> Q a"
  shows "does_only cat key L Q (call op)"
  using assms by (intro behaves_call) (auto simp: quiet_step_def intro!: moves_quiet)

lemma runtime_quiet: "runtime.more t = runtime.more s \<Longrightarrow> quiet_step s t"
  using view_of_runtime [of t s] same_more_tables(1) [of t s] by (simp add: quiet_step_def)

lemma perform_quiet:
  assumes "\<And>s. quiet_step s (f s)"
  shows "does_only cat key L (\<lambda>_. True) (perform f)"
  unfolding perform_def by (rule does_quiet) (use assms in auto)

lemma slog_quiet: "does_only cat key L (\<lambda>_. True) (perform (slog l m as))"
  by (rule perform_quiet) (simp add: quiet_step_def)

section \<open>The calls\<close>

definition got :: "'s provider_service \<Rightarrow> string \<Rightarrow> provider result \<Rightarrow> bool" where
  "got psvc p r \<longleftrightarrow> (case r of
      Inl e \<Rightarrow> \<not> errors_is e ErrAuth
    | Inr q \<Rightarrow> \<exists>m. service_metadata psvc p = Some m \<and> md_id q = p \<and> md_fields q = md_fields m)"

lemma Get_call:
  fixes psvc :: "('z host_scheme) provider_service"
  assumes "svc_repo psvc = sqlite_providers"
  shows "does_only cat key L (got psvc p) (call (service_Get psvc p))"
proof (rule does_quiet)
  fix s r and t :: "'z host_scheme"
  assume "wf_db s" and "service_Get psvc p s = (r, t)"
  from Get_sqlite [OF this(1) assms this(2)] show "got psvc p r"
    by (auto simp: got_def dest: service_metadata_SomeD split: sum.splits)
qed (rule Get_quiet [OF assms])

lemma SetEnabled_call:
  assumes "svc_repo psvc = sqlite_providers" and "Switches p \<in> L"
  shows "does_only (svc_registry psvc) key L (\<lambda>_. True) (call (service_SetEnabled psvc p b))"
proof (rule behaves_call)
  fix s r t assume "wf_db s" and "service_SetEnabled psvc p b s = (r, t)"
  from SetEnabled_view [OF assms(1) this]
  show "wf_db t \<and> moves (svc_registry psvc) key L s t \<and> True"
    using micro.switches [of "svc_registry psvc" p "view_of s" key b] assms(2)
    by (auto simp: moves_def)
qed

lemma Delete_call:
  assumes "cs_repo csvc = sqlite_credentials" and "listed cat p" and "Erases p \<in> L"
  shows "does_only cat key L (\<lambda>_. True) (call (Delete csvc p))"
proof (rule behaves_call)
  fix s r t assume "wf_db s" and "Delete csvc p s = (r, t)"
  from Delete_view [OF assms(1) this] show "wf_db t \<and> moves cat key L s t \<and> True"
    using micro.erases [OF assms(2), of key "view_of s"] assms(3) by (auto simp: moves_def)
qed

lemma Seal_call:
  "does_only cat key L (\<lambda>r. \<forall>blob. r = Inr blob \<longrightarrow> opens_to key' p f (Some blob) \<noteq> None)
     (call (Seal key' (bytes_of_string v) (AAD p f)))"
proof (rule does_quiet)
  fix s r and t :: "'z host_scheme"
  assume "Seal key' (bytes_of_string v) (AAD p f) s = (r, t)"
  then have seal: "Seal key' (bytes_of_string v) (AAD p f) s = (r, t)" .
  have "runtime.more t = runtime.more s" using Seal_frame [of key' "bytes_of_string v" "AAD p f" s] seal by simp
  then show "quiet_step s t" by (rule runtime_quiet)
  show "\<forall>blob. r = Inr blob \<longrightarrow> opens_to key' p f (Some blob) \<noteq> None"
    using opens_to_sealed seal by fastforce
qed

lemma Upsert_call:
  assumes "f \<in> fields_of cat p" and "opens_to key p f (Some blob) \<noteq> None" and "Stores p f \<in> L"
  shows "does_only cat key L (\<lambda>_. True) (call (cred_Upsert sqlite_credentials p f blob))"
proof (rule behaves_call)
  fix s r and t :: "'z host_scheme" assume "wf_db s" and "cred_Upsert sqlite_credentials p f blob s = (r, t)"
  note law = sqlite_cred.Upsert_law [OF this]
  have "enabled_in t = enabled_in s" "latest_in t = latest_in s" "entries t = entries s"
    using law credentials_rest_tables [of t s] by simp_all
  with law have "view_of t = view_of s \<or> view_of t = view_of s\<lparr>v_secret :=
      (v_secret (view_of s))(p := (v_secret (view_of s) p)(f \<mapsto> blob))\<rparr>"
    by (cases r) (simp_all add: view_of_def)
  then show "wf_db t \<and> moves cat key L s t \<and> True"
    using micro.stores [OF assms(1,2), of "view_of s"] assms(3) law by (auto simp: moves_def)
qed

lemma Reveal_call:
  fixes csvc :: "('z host_scheme) credential_service"
  assumes "cs_repo csvc = sqlite_credentials"
  shows "does_only cat key L (\<lambda>_. True) (call (Reveal csvc p f))"
proof (rule does_quiet)
  fix s r and t :: "'z host_scheme" assume "Reveal csvc p f s = (r, t)"
  then show "quiet_step s t"
    using sqlite_cred.GetSecret_law [of s p f _ t] credentials_rest_tables [of t s] assms
    by (auto simp: quiet_step_def view_of_def Reveal_def split: prod.splits sum.splits)
qed simp

lemma Replace_call:
  assumes "listed cat p" and "Replaces p \<in> L"
  shows "does_only cat key L (\<lambda>_. True) (call (snap_Replace sqlite_snapshots p ms at))"
proof (rule behaves_call)
  fix s r and t :: "'z host_scheme" assume "wf_db s" and "snap_Replace sqlite_snapshots p ms at s = (r, t)"
  note law = sqlite_snap.Replace_law [OF this]
  have "enabled_in t = enabled_in s" "secret_in t = secret_in s" "entries t = entries s"
    using law snapshots_rest_tables [of t s] by simp_all
  with law have "view_of t = view_of s \<or> view_of t = view_of s\<lparr>v_latest :=
      (v_latest (view_of s))(p \<mapsto> kept_snapshot p ms at)\<rparr>"
    by (cases r) (simp_all add: view_of_def)
  then show "wf_db t \<and> moves cat key L s t \<and> True"
    using micro.replaces [OF assms(1) kept_snapshot_for, of key "view_of s" ms at] assms(2) law
    by (auto simp: moves_def)
qed

lemma Clear_call:
  assumes "listed cat p" and "Ungates p \<in> L"
  shows "does_only cat key L (\<lambda>_. True) (perform (Clear p))"
  unfolding perform_def
proof (rule behaves_call)
  fix s a and t :: "'z host_scheme" assume "wf_db s" and "((), Clear p s) = (a, t)"
  then show "wf_db t \<and> moves cat key L s t \<and> True"
    using micro.ungates [OF assms(1), of key "view_of s"] assms(2)
    by (auto simp: moves_def view_of_Clear wf_db_Clear) (simp add: view_of_def)
qed

lemma recordFailure_call:
  assumes "listed cat p" and "Gates p \<in> L"
  shows "does_only cat key L (\<lambda>_. True) (perform (recordFailure reg p))"
  unfolding perform_def
proof (rule behaves_call)
  fix s a and t :: "'z host_scheme" assume "wf_db s" and "((), recordFailure reg p s) = (a, t)"
  then have t: "wf_db s" "t = recordFailure reg p s" by simp_all
  obtain e where e: "view_of t = view_of s\<lparr>v_gate := (entries s)(p \<mapsto> e)\<rparr>"
    "failures e = (case entries s p of None \<Rightarrow> 1 | Some e0 \<Rightarrow> failures e0 + 1)"
    using view_of_recordFailure(1) t(2) by blast
  have "v_gate (view_of s) = entries s" by (simp add: view_of_def)
  with micro.gates [OF assms(1), of e "view_of s" key] e assms(2) t
  show "wf_db t \<and> moves cat key L s t \<and> True"
    by (auto simp: moves_def view_of_recordFailure(2))
qed

section \<open>The programs\<close>

lemma does_mono:
  "does_only cat key L Q p \<Longrightarrow> L \<subseteq> L' \<Longrightarrow> (\<And>a. Q a \<Longrightarrow> Q' a) \<Longrightarrow> does_only cat key L' Q' p"
  by (erule behaves_weaken) (auto intro: moves_mono)

text \<open>One thing after the other.\<close>

lemmas does_then = behaves_then [where I = wf_db]

lemma set_values_does:
  assumes "cs_repo csvc = sqlite_credentials" and "\<And>f. f \<in> fst ` set vs \<Longrightarrow> f \<in> fields_of cat p"
    and "range (Stores p) \<subseteq> L"
  shows "does_only cat (cs_masterKey csvc) L (\<lambda>_. True) (set_values_prog csvc p vs)"
  using assms(2)
proof (induction vs)
  case (Cons fv vs)
  obtain f v where fv: "fv = (f, v)" by fastforce
  have f: "f \<in> fields_of cat p" "Stores p f \<in> L" using Cons.prems [of f] assms(3) fv by auto
  have rest: "does_only cat (cs_masterKey csvc) L (\<lambda>_. True) (set_values_prog csvc p vs)"
    using Cons by simp
  show ?case unfolding fv set_values_prog.simps
    by (rule does_then [OF Seal_call [where f = f]])
      (auto simp: assms(1) intro!: does_then [OF Upsert_call] f rest split: sum.split)
qed simp

lemma SetValues_does:
  assumes "cs_repo csvc = sqlite_credentials" and "cs_cooldown csvc = Some Clear"
    and "\<And>f. f \<in> fst ` set vs \<Longrightarrow> f \<in> fields_of cat p" and "listed cat p"
    and "insert (Ungates p) (range (Stores p)) \<subseteq> L"
  shows "does_only cat (cs_masterKey csvc) L (\<lambda>_. True) (SetValues_prog csvc p vs)"
  unfolding SetValues_prog_def using assms(4,5)
  by (intro does_then [OF set_values_does [OF assms(1,3)]])
    (auto simp: assms(2) intro!: does_then [OF Clear_call] split: sum.split)

lemma load_fields_does:
  fixes csvc :: "('z host_scheme) credential_service"
  assumes "cs_repo csvc = sqlite_credentials"
  shows "does_only cat key L (\<lambda>_. True) (load_fields_prog csvc p fs cr)"
  by (induction fs arbitrary: cr)
    (auto intro!: does_then [OF Reveal_call [OF assms]] split: sum.split)

definition attempted_for :: "metadata list \<Rightarrow> string \<Rightarrow> snapshot result \<Rightarrow> bool" where
  "attempted_for cat p r \<longleftrightarrow> (case r of Inl e \<Rightarrow> errors_is e ErrAuth \<longrightarrow> listed cat p | Inr _ \<Rightarrow> listed cat p)"

lemma Collect_does:
  fixes c :: "('z host_scheme) collector"
  assumes "sqlite_wired c" and "Replaces p \<in> L"
  shows "does_only (col_catalog c) key L (attempted_for (col_catalog c) p) (Collect_prog c p)"
  unfolding Collect_prog_def
proof (rule does_then [OF Get_call], goal_cases repo got)
  case repo
  show ?case using assms(1) by (simp add: sqlite_wired_def)
next
  case (got r)
  have repos: "cs_repo (col_credentials c) = sqlite_credentials" "col_snapshots c = sqlite_snapshots"
    using assms(1) by (auto simp: sqlite_wired_def)
  let ?cat = "col_catalog c"
  let ?Q = "attempted_for ?cat p"
  show ?case
  proof (cases r)
    case (Inl e)
    with got show ?thesis by (simp add: got_def attempted_for_def)
  next
    case (Inr q)
    with got have listed: "listed ?cat p"
      by (auto simp: got_def col_catalog_def dest: catalog_simps(1))
    have Q: "?Q x" for x using listed by (simp add: attempted_for_def split: sum.split)
    have fetch: "does_only ?cat key L (\<lambda>_. True) (call (FetchUsage (col_providers c) p creds))" for creds
      by (rule does_quiet) (auto intro: runtime_quiet FetchUsage_more(1))
    have now: "does_only ?cat key L (\<lambda>_. True) (call (time_Now :: 'z host_scheme \<Rightarrow> _))"
      by (rule does_quiet) (auto intro!: runtime_quiet simp: time_Now_def)
    show ?thesis unfolding Inr repos(2)
      by (auto intro!: does_then [OF load_fields_does [OF repos(1)]] does_then [OF fetch] does_then [OF now]
          does_then [OF Replace_call [OF listed assms(2)]] simp: Q Let_def split: sum.split)
  qed
qed

definition attempt_actions :: "string \<Rightarrow> action set" where
  "attempt_actions p = {Replaces p, Ungates p, Gates p}"

lemma settle_does:
  fixes sch :: "('z host_scheme) scheduler"
  assumes "attempted_for cat p r" and "attempt_actions p \<subseteq> L"
  shows "does_only cat key L (\<lambda>_. True) (settle_prog sch p r)"
proof -
  have L: "Ungates p \<in> L" "Gates p \<in> L" using assms(2) by (simp_all add: attempt_actions_def)
  show ?thesis
  proof (cases r)
    case (Inl e)
    with assms(1) L show ?thesis
      by (cases "sch_cooldown sch")
        (auto simp: settle_prog_def attempted_for_def intro!: slog_quiet does_then [OF recordFailure_call])
  next
    case (Inr sn)
    with assms(1) L show ?thesis
      by (cases "sch_cooldown sch") (auto simp: settle_prog_def attempted_for_def intro!: Clear_call)
  qed
qed

lemma collectOne_does:
  fixes sch :: "('z host_scheme) scheduler"
  assumes "sqlite_wired (sch_collector sch)" and "attempt_actions p \<subseteq> L"
  shows "does_only (col_catalog (sch_collector sch)) key L (\<lambda>_. True) (collectOne_prog sch p)"
proof -
  have gate: "does_only (col_catalog (sch_collector sch)) key L (\<lambda>_. True) (active_prog sch p)"
  proof (cases "sch_cooldown sch")
    case (Some reg)
    have "quiet_step s t" if "active p s = (a, t)" for s a and t :: "'z host_scheme"
      using runtime_quiet [OF active_frame [of p s]] that by simp
    then show ?thesis unfolding active_prog_def Some by (auto intro: does_quiet)
  qed (simp add: active_prog_def)
  have "Replaces p \<in> L" using assms(2) by (simp add: attempt_actions_def)
  note collect = Collect_does [OF assms(1) this]
  show ?thesis unfolding collectOne_prog_def
    by (rule does_then [OF gate])
      (auto intro!: slog_quiet does_then [OF collect] settle_does [OF _ assms(2)])
qed

lemma List_does:
  fixes psvc :: "('z host_scheme) provider_service"
  assumes "svc_repo psvc = sqlite_providers"
  shows "does_only cat key L (\<lambda>_. True) (call (service_List psvc))"
proof (rule does_quiet)
  fix s r and t :: "'z host_scheme" assume "service_List psvc s = (r, t)"
  then show "quiet_step s t"
    using sqlite_prov.service_List_client [of s psvc r t] assms providers_rest_tables [of t s]
    by (auto simp: quiet_step_def view_of_def)
qed simp

lemma tick_does:
  fixes sch :: "('z host_scheme) scheduler"
  assumes "sqlite_scheduler sch" and "(\<Union>p. attempt_actions p) \<subseteq> L"
  shows "does_only (col_catalog (sch_collector sch)) key L (\<lambda>_. True) (tick_prog sch)"
proof -
  have sch: "svc_repo (sch_providers sch) = sqlite_providers" "sqlite_wired (sch_collector sch)"
    using assms(1) by (simp_all add: sqlite_scheduler_def)
  note list = List_does [OF sch(1)]
  have ctx: "does_only (col_catalog (sch_collector sch)) key L (\<lambda>_. True) (call (ctx_Err :: 'z host_scheme \<Rightarrow> _))"
    by (rule does_quiet) (auto intro: runtime_quiet ctx_Err_more)
  have attempt: "attempt_actions p \<subseteq> L" for p using assms(2) by blast
  have loop: "does_only (col_catalog (sch_collector sch)) key L (\<lambda>_. True) (tick_loop_prog sch ps)" for ps
    by (induction ps) (auto intro!: does_then [OF ctx] does_then [OF collectOne_does [OF sch(2) attempt]])
  show ?thesis unfolding tick_prog_def
    by (rule does_then [OF list]) (auto intro!: slog_quiet loop split: sum.split)
qed

section \<open>What requests and the scheduler run\<close>

datatype operation =
  ListAll | GetOne string | Enable string | Disable string
| SetCreds string "(string \<times> string) list" | ShowCreds string | DeleteCreds string
| Usage string | Refresh string | Tick

text \<open>Of the answer, the pool keeps whether it was a success.\<close>

definition outcome :: "('s, 'a result) prog \<Rightarrow> ('s, bool) prog" where
  "outcome p = then_do p (\<lambda>r. Return (case r of Inl e \<Rightarrow> False | Inr a \<Rightarrow> True))"

definition program :: "build \<Rightarrow> 'z app \<Rightarrow> operation \<Rightarrow> ('z host_scheme, bool) prog" where
  "program bd a op =
     (let ad = \<lparr>ca_providers = app_providers a, ca_credentials = app_credentials a, ca_order = bd_order bd\<rparr>
      in case op of
           ListAll \<Rightarrow> outcome (call (service_List (app_providers a)))
         | GetOne p \<Rightarrow> outcome (call (service_Get (app_providers a) p))
         | Enable p \<Rightarrow> outcome (call (service_SetEnabled (app_providers a) p True))
         | Disable p \<Rightarrow> outcome (call (service_SetEnabled (app_providers a) p False))
         | SetCreds p vs \<Rightarrow> outcome (SetCredentials_prog ad p vs)
         | ShowCreds p \<Rightarrow> outcome (GetCredentialPresence_prog ad p)
         | DeleteCreds p \<Rightarrow> outcome (DeleteCredentials_prog ad p)
         | Usage p \<Rightarrow> outcome (GetUsage_prog (app_providers a) (st_snapshots (app_store a)) p)
         | Refresh p \<Rightarrow> outcome (RefreshUsage_prog (app_collector a) p)
         | Tick \<Rightarrow> then_do (tick_prog (app_scheduler a)) (\<lambda>_. Return True))"

text \<open>What an operation may do to whom.\<close>

definition may :: "operation \<Rightarrow> action set" where
  "may op =
     (case op of
        Enable p \<Rightarrow> {Switches p} | Disable p \<Rightarrow> {Switches p}
      | SetCreds p vs \<Rightarrow> insert (Ungates p) (range (Stores p))
      | DeleteCreds p \<Rightarrow> {Erases p}
      | Refresh p \<Rightarrow> {Replaces p}
      | Tick \<Rightarrow> (\<Union>p. attempt_actions p)
      | _ \<Rightarrow> {})"

lemma outcome_does: "does_only cat key L Q p \<Longrightarrow> does_only cat key L (\<lambda>_. True) (outcome p)"
  unfolding outcome_def by (erule does_then) simp

lemma SetCredentials_does:
  assumes "svc_repo (ca_providers ad) = sqlite_providers" and "cs_repo (ca_credentials ad) = sqlite_credentials"
    and "cs_cooldown (ca_credentials ad) = Some Clear" and "\<forall>vs. mset (ca_order ad vs) = mset vs"
  shows "does_only (svc_registry (ca_providers ad)) (cs_masterKey (ca_credentials ad)) (may (SetCreds p vs))
    (\<lambda>_. True) (SetCredentials_prog ad p vs)"
  unfolding SetCredentials_prog_def
proof (rule does_then [OF Get_call [OF assms(1)]], goal_cases got)
  case (got r)
  show ?case
  proof (cases "\<exists>q. r = Inr q \<and> validateCredentialFields (md_fields q) vs = None")
    case True
    then obtain q m where r: "r = Inr q" "validateCredentialFields (md_fields q) vs = None"
      and m: "service_metadata (ca_providers ad) p = Some m" "md_fields q = md_fields m"
      using got by (auto simp: got_def)
    have "fst ` set (ca_order ad vs) = fields_of (svc_registry (ca_providers ad)) p"
      using r(2) m catalog_simps(2) [OF m(1)] mset_eq_setD [OF assms(4) [rule_format, of vs]]
      by (simp add: validateCredentialFields_None_iff)
    with catalog_simps(1) [OF m(1)] have "does_only (svc_registry (ca_providers ad))
        (cs_masterKey (ca_credentials ad)) (may (SetCreds p vs)) (\<lambda>_. True)
        (SetValues_prog (ca_credentials ad) p (ca_order ad vs))"
      by (intro SetValues_does assms(2,3)) (simp_all add: may_def)
    with r show ?thesis by simp
  qed (auto split: sum.split option.split)
qed

lemma GetSnapshot_does:
  "does_only cat key L (\<lambda>_. True) (call (snap_GetSnapshot sqlite_snapshots p))"
proof (rule does_quiet)
  fix s r and t :: "'z host_scheme" assume "snap_GetSnapshot sqlite_snapshots p s = (r, t)"
  then show "quiet_step s t"
    using sqlite_snap.GetSnapshot_law [of s p r t] snapshots_rest_tables [of t s]
    by (auto simp: quiet_step_def view_of_def)
qed simp

lemma GetCredentialPresence_does:
  assumes "svc_repo (ca_providers ad) = sqlite_providers" and "cs_repo (ca_credentials ad) = sqlite_credentials"
  shows "does_only (svc_registry (ca_providers ad)) key L (\<lambda>_. True) (GetCredentialPresence_prog ad p)"
proof -
  have "quiet_step s t" if "Presence (ca_credentials ad) p s = (r, t)" for r s t
    using Presence_quiet [OF assms(2) that] .
  then show ?thesis unfolding GetCredentialPresence_prog_def
    by (intro does_then [OF Get_call [OF assms(1)]]) (auto intro!: does_then [OF does_quiet] split: sum.split)
qed

lemma DeleteCredentials_does:
  assumes "svc_repo (ca_providers ad) = sqlite_providers" and "cs_repo (ca_credentials ad) = sqlite_credentials"
  shows "does_only (svc_registry (ca_providers ad)) key (may (DeleteCreds p)) (\<lambda>_. True)
    (DeleteCredentials_prog ad p)"
  unfolding DeleteCredentials_prog_def using assms(2)
  by (intro does_then [OF Get_call [OF assms(1)]])
    (auto simp: may_def got_def dest: catalog_simps(1) intro!: Delete_call split: sum.split)

lemma GetUsage_does:
  assumes "svc_repo psvc = sqlite_providers"
  shows "does_only (svc_registry psvc) key L (\<lambda>_. True) (GetUsage_prog psvc sqlite_snapshots p)"
  unfolding GetUsage_prog_def
  by (rule does_then [OF Get_call [OF assms]]) (auto intro!: does_then [OF GetSnapshot_does] split: sum.split)

lemma RefreshUsage_does:
  assumes "sqlite_wired c"
  shows "does_only (col_catalog c) key (may (Refresh p)) (\<lambda>_. True) (RefreshUsage_prog c p)"
  unfolding RefreshUsage_prog_def using Collect_does [OF assms, of p "may (Refresh p)" key]
  by (intro does_then [where Q = "attempted_for (col_catalog c) p"]) (auto simp: may_def split: sum.split)

lemma program_does:
  fixes psvc :: "('z host_scheme) provider_service"
  assumes repo: "svc_repo psvc = sqlite_providers" and order: "\<forall>vs. mset (bd_order bd vs) = mset vs"
    and a: "a = wire bd cfg (sqliteStore drv) psvc"
  shows "does_only (svc_registry psvc) (cfg_masterKey cfg) (may op) (\<lambda>_. True) (program bd a op)"
proof -
  note services = wire_services [OF repo, of bd cfg drv]
  let ?ad = "\<lparr>ca_providers = psvc, ca_credentials = app_credentials a, ca_order = bd_order bd\<rparr>"
  have ad: "svc_repo (ca_providers ?ad) = sqlite_providers" "cs_repo (ca_credentials ?ad) = sqlite_credentials"
    "cs_cooldown (ca_credentials ?ad) = Some Clear" "\<forall>vs. mset (ca_order ?ad vs) = mset vs"
    "svc_registry (ca_providers ?ad) = svc_registry psvc" "cs_masterKey (ca_credentials ?ad) = cfg_masterKey cfg"
    using repo order by (simp_all add: a)
  have sns: "st_snapshots (app_store a) = sqlite_snapshots" unfolding a wire_simps by (simp add: sqliteStore_def)
  have parts: "app_providers a = psvc" "col_catalog (app_collector a) = svc_registry psvc"
    "sch_collector (app_scheduler a) = app_collector a" "sqlite_wired (app_collector a)"
    "sqlite_scheduler (app_scheduler a)"
    using services by (simp_all add: a)
  note does = List_does [OF repo] Get_call [OF repo] SetEnabled_call [OF repo]
    SetCredentials_does [OF ad(1-4), unfolded ad(5,6)] GetCredentialPresence_does [OF ad(1,2), unfolded ad(5)]
    DeleteCredentials_does [OF ad(1,2), unfolded ad(5)] GetUsage_does [OF repo]
    RefreshUsage_does [OF parts(4), unfolded parts(2)] tick_does [OF parts(5), unfolded parts(2,3)]
  note does = does [unfolded may_def operation.case]
  show ?thesis
    by (cases op) (auto simp: program_def Let_def parts(1) sns may_def
        intro!: outcome_does does does_then [OF does(9)])
qed

section \<open>Every interleaving\<close>

lemma may_iff:
  "Switches q \<in> may op \<longleftrightarrow> op = Enable q \<or> op = Disable q"
  "Erases q \<in> may op \<longleftrightarrow> op = DeleteCreds q"
  "Stores q f \<in> may op \<longleftrightarrow> (\<exists>vs. op = SetCreds q vs)"
  "Replaces q \<in> may op \<longleftrightarrow> op = Refresh q \<or> op = Tick"
  "Ungates q \<in> may op \<longleftrightarrow> op = Tick \<or> (\<exists>vs. op = SetCreds q vs)"
  "Gates q \<in> may op \<longleftrightarrow> op = Tick"
  by (cases op, auto simp: may_def attempt_actions_def)+

definition actions :: "operation set \<Rightarrow> action set" where
  "actions ops = (\<Union>op \<in> ops. may op)"

lemma moves_star_secure:
  "(moves cat key L)\<^sup>*\<^sup>* s t \<Longrightarrow> secure cat key (view_of s) \<Longrightarrow> secure cat key (view_of t)"
  by (induction rule: rtranclp_induct) (auto simp: moves_def intro: micro_secure)

lemma moves_frame:
  assumes "moves cat key L s t"
  shows "Switches q \<notin> L \<Longrightarrow> enabled_in t q = enabled_in s q"
    and "Erases q \<notin> L \<Longrightarrow> Stores q g \<notin> L \<Longrightarrow> secret_in t q g = secret_in s q g"
    and "Replaces q \<notin> L \<Longrightarrow> latest_in t q = latest_in s q"
    and "Ungates q \<notin> L \<Longrightarrow> Gates q \<notin> L \<Longrightarrow> entries t q = entries s q"
proof -
  from assms obtain l where l: "l = Quiet \<or> l \<in> L" "micro cat key l (view_of s) (view_of t)"
    by (auto simp: moves_def)
  note frame = micro_frame [OF l(2), of q, unfolded view_of_def view.select_convs]
  show "Switches q \<notin> L \<Longrightarrow> enabled_in t q = enabled_in s q" using frame(1) l(1) by blast
  show "Erases q \<notin> L \<Longrightarrow> Stores q g \<notin> L \<Longrightarrow> secret_in t q g = secret_in s q g"
    using frame(2) [of g] l(1) by blast
  show "Replaces q \<notin> L \<Longrightarrow> latest_in t q = latest_in s q" using frame(3) l(1) by blast
  show "Ungates q \<notin> L \<Longrightarrow> Gates q \<notin> L \<Longrightarrow> entries t q = entries s q" using frame(4) l(1) by blast
qed

lemma star_same: "R\<^sup>*\<^sup>* s t \<Longrightarrow> (\<And>s t. R s t \<Longrightarrow> f t = f s) \<Longrightarrow> f t = f s"
  by (induction rule: rtranclp_induct) auto

lemma moves_star_frame:
  assumes "(moves cat key L)\<^sup>*\<^sup>* s t"
  shows "Switches q \<notin> L \<Longrightarrow> enabled_in t q = enabled_in s q"
    and "Erases q \<notin> L \<Longrightarrow> Stores q g \<notin> L \<Longrightarrow> secret_in t q g = secret_in s q g"
    and "Replaces q \<notin> L \<Longrightarrow> latest_in t q = latest_in s q"
    and "Ungates q \<notin> L \<Longrightarrow> Gates q \<notin> L \<Longrightarrow> entries t q = entries s q"
  by (rule star_same [OF assms], erule moves_frame(1), assumption)
    (rule star_same [OF assms], erule moves_frame(2), assumption, assumption,
     rule star_same [OF assms], erule moves_frame(3), assumption,
     rule star_same [OF assms], erule moves_frame(4), assumption, assumption)

lemma interleaved_moves:
  assumes "boot bd env drv s0 = (Inr (Inr a), t0)" and "\<forall>vs. mset (bd_order bd vs) = mset vs"
    and "(crash_step (program bd a ` ops))\<^sup>*\<^sup>* ([], s) (ps, t)" and "wf_db s"
  shows "wf_db t \<and> (moves Registry (cfg_masterKey (app_config a)) (actions ops))\<^sup>*\<^sup>* s t"
proof -
  obtain cfg psvc where a: "a = wire bd cfg (sqliteStore drv) psvc" and repo: "svc_repo psvc = sqlite_providers"
    and cat: "svc_registry psvc = Registry" by (rule booted_wiring [OF assms(1)])
  have "does_only Registry (cfg_masterKey cfg) (actions ops) (\<lambda>_. True) (program bd a op)" if "op \<in> ops" for op
    by (rule does_mono [OF program_does [OF repo assms(2) a, of op, unfolded cat]]) (use that in \<open>auto simp: actions_def\<close>)
  with pool_behaves [OF assms(3), of wf_db "moves Registry (cfg_masterKey cfg) (actions ops)" "\<lambda>_. True"]
  show ?thesis using assms(4) by (simp add: a)
qed

text \<open>
  C4: The invariant of the service survives real concurrency: from any reachable state, let any
  number of requests and scheduler ticks arrive at any time, interleave call by call in any order,
  and let crashes cut them off anywhere. Still, in every state on the way, every catalog provider
  has its row, every stored credential belongs to a declared field and opens under the key,
  snapshots and cooldowns belong to catalog providers.
\<close>
theorem interleaved_secure:
  assumes "reachable bd env drv a s" and "keeps_stored drv"
    and "\<forall>vs. mset (bd_order bd vs) = mset vs"
    and "(crash_step (range (program bd a)))\<^sup>*\<^sup>* ([], s) (ps, t)"
  shows "wf_db t \<and> secure Registry (cfg_masterKey (app_config a)) (view_of t)"
proof -
  obtain s0 t0 where booted: "boot bd env drv s0 = (Inr (Inr a), t0)"
    using reachable_booted [OF assms(1)] by blast
  have s: "wf_db s" "secure Registry (cfg_masterKey (app_config a)) (view_of s)"
    using reachable_safe [OF assms(1-3)] by (simp_all add: safe_def)
  from interleaved_moves [OF booted assms(3,4) s(1)] moves_star_secure s(2) show ?thesis by blast
qed

text \<open>
  C21: Operations meddle with nothing else, whatever they are interleaved with: while only
  operations of \<open>ops\<close> run, a flag changes only if one of them enables or disables that provider,
  a stored credential only if one sets or deletes that provider's credentials, a snapshot only if
  one refreshes that provider or is a tick, and a cooldown only if one sets that provider's
  credentials or is a tick.
\<close>
theorem interleaved_frame:
  assumes "boot bd env drv s0 = (Inr (Inr a), t0)" and "\<forall>vs. mset (bd_order bd vs) = mset vs"
    and "(crash_step (program bd a ` ops))\<^sup>*\<^sup>* ([], s) (ps, t)" and "wf_db s"
  shows "(enabled_in t p \<noteq> enabled_in s p \<longrightarrow> Enable p \<in> ops \<or> Disable p \<in> ops) \<and>
    (secret_in t p \<noteq> secret_in s p \<longrightarrow> DeleteCreds p \<in> ops \<or> (\<exists>vs. SetCreds p vs \<in> ops)) \<and>
    (latest_in t p \<noteq> latest_in s p \<longrightarrow> Refresh p \<in> ops \<or> Tick \<in> ops) \<and>
    (entries t p \<noteq> entries s p \<longrightarrow> Tick \<in> ops \<or> (\<exists>vs. SetCreds p vs \<in> ops))"
proof -
  have act: "Switches q \<in> actions ops \<longleftrightarrow> Enable q \<in> ops \<or> Disable q \<in> ops"
    "Erases q \<in> actions ops \<longleftrightarrow> DeleteCreds q \<in> ops"
    "Stores q f \<in> actions ops \<longleftrightarrow> (\<exists>vs. SetCreds q vs \<in> ops)"
    "Replaces q \<in> actions ops \<longleftrightarrow> Refresh q \<in> ops \<or> Tick \<in> ops"
    "Ungates q \<in> actions ops \<longleftrightarrow> Tick \<in> ops \<or> (\<exists>vs. SetCreds q vs \<in> ops)"
    "Gates q \<in> actions ops \<longleftrightarrow> Tick \<in> ops" for q f
    by (auto simp: actions_def may_iff)
  note frame = moves_star_frame [OF conjunct2 [OF interleaved_moves [OF assms]], of p]
  from frame(2) act(2,3) have secret: "secret_in t p = secret_in s p"
    if "DeleteCreds p \<notin> ops" "\<nexists>vs. SetCreds p vs \<in> ops" using that by (intro ext) blast
  from frame(1,3,4) act(1,4,5,6) secret show ?thesis by blast
qed

section \<open>A credential set among other operations\<close>

text \<open>What operations do that do not concern the credentials of \<open>p\<close>.\<close>

definition spares :: "string \<Rightarrow> 'z host_scheme \<Rightarrow> 'z host_scheme \<Rightarrow> bool" where
  "spares p u v \<longleftrightarrow> (wf_db u \<longrightarrow> wf_db v) \<and> secret_in v p = secret_in u p"

lemma spares_preorder: "reflp (spares p)" "transp (spares p)"
  by (auto simp: spares_def intro!: reflpI transpI)

lemma quiet_spares: "quiet_step s t \<Longrightarrow> wf_db s \<Longrightarrow> wf_db t \<and> secret_in t p = secret_in s p"
  by (simp add: quiet_step_def view_of_def)

definition all_stored ::
    "bytes \<Rightarrow> string \<Rightarrow> (string \<times> string) list \<Rightarrow> 'z host_scheme \<Rightarrow> bool" where
  "all_stored key p vs s \<longleftrightarrow> (\<forall>(f, v) \<in> set vs. opens_to key p f (secret_in s p f) = Some v)"

lemma set_values_assures:
  assumes "cs_repo csvc = sqlite_credentials"
  shows "distinct (map fst vs) \<Longrightarrow> wf_db s \<Longrightarrow> assures (spares p) (\<lambda>r t. wf_db t \<and>
      (\<forall>g. g \<notin> fst ` set vs \<longrightarrow> secret_in t p g = secret_in s p g) \<and>
      (r = Inr () \<longrightarrow> all_stored (cs_masterKey csvc) p vs t)) (set_values_prog csvc p vs) s"
proof (induction vs arbitrary: s)
  case Nil
  then show ?case by (auto simp: spares_def all_stored_def)
next
  case (Cons fv vs)
  let ?key = "cs_masterKey csvc"
  obtain f v where fv: "fv = (f, v)" by fastforce
  have new: "f \<notin> fst ` set vs" "distinct (map fst vs)" using Cons.prems(1) fv by auto
  show ?case unfolding fv set_values_prog.simps
  proof (intro assures_then spares_preorder assures_call, goal_cases sealed)
    case (sealed t r u w)
    have "runtime.more u = runtime.more t"
      using Seal_frame [of ?key "bytes_of_string v" "AAD p f" t] sealed(2) by simp
    then have u: "wf_db w" "secret_in w p = secret_in s p"
      using quiet_spares [OF runtime_quiet, of u t p] sealed(1,3) Cons.prems(2) by (auto simp: spares_def)
    show ?case
    proof (cases r)
      case (Inl e)
      with u show ?thesis by (auto simp: spares_def)
    next
      case (Inr blob)
      have opens: "opens_to ?key p f (Some blob) = Some v"
        using opens_to_sealed sealed(2) Inr by blast
      show ?thesis unfolding Inr sum.case
      proof (intro assures_then spares_preorder assures_call, goal_cases upserted)
        case (upserted x r' y z)
        have x: "wf_db x" "secret_in x p = secret_in s p" using upserted(1) u by (auto simp: spares_def)
        note law = sqlite_cred.Upsert_law [OF x(1) upserted(2) [unfolded assms]]
        show ?case
        proof (cases r')
          case (Inl e)
          with law x upserted(3) show ?thesis by (auto simp: spares_def)
        next
          case Done: (Inr u')
          have z: "wf_db z" "secret_in z p = (secret_in s p)(f \<mapsto> blob)"
            using law Done x(2) upserted(3) by (auto simp: spares_def)
          show ?thesis unfolding Done sum.case
            by (rule assures_weaken [OF Cons.IH [OF new(2) z(1)]])
              (use z new opens in \<open>auto simp: all_stored_def\<close>)
        qed
      qed
    qed
  qed
qed

lemma SetValues_assures:
  assumes "cs_repo csvc = sqlite_credentials" and "cs_cooldown csvc = Some Clear"
    and "distinct (map fst vs)" and "wf_db s"
  shows "assures (spares p) (\<lambda>r t. r = Inr () \<longrightarrow> all_stored (cs_masterKey csvc) p vs t)
    (SetValues_prog csvc p vs) s"
  unfolding SetValues_prog_def
proof (rule assures_then [OF spares_preorder(1)],
    rule assures_weaken [OF set_values_assures [OF assms(1,3,4)]], goal_cases stored)
  case (stored r t)
  show ?case
  proof (cases r)
    case (Inl e)
    then show ?thesis by simp
  next
    case (Inr x)
    have keep: "all_stored (cs_masterKey csvc) p vs y" if "secret_in y p = secret_in t p" for y :: "'a host_scheme"
      using stored Inr that by (simp add: all_stored_def)
    show ?thesis unfolding Inr assms(2) sum.case option.case perform_def
      by (rule assures_then [OF spares_preorder(1)], rule assures_call) (auto simp: spares_def intro!: keep)
  qed
qed

lemma SetCredentials_assures:
  assumes "svc_repo (ca_providers ad) = sqlite_providers" and "cs_repo (ca_credentials ad) = sqlite_credentials"
    and "cs_cooldown (ca_credentials ad) = Some Clear" and "\<forall>vs. mset (ca_order ad vs) = mset vs"
    and "distinct (map fst vs)" and "wf_db s"
  shows "assures (spares p) (\<lambda>ok t. ok \<longrightarrow> all_stored (cs_masterKey (ca_credentials ad)) p vs t)
    (outcome (SetCredentials_prog ad p vs)) s"
  unfolding outcome_def SetCredentials_prog_def
proof (intro assures_then spares_preorder assures_call, goal_cases got)
  case (got t r u w)
  have "wf_db w" using quiet_spares [OF Get_quiet [OF assms(1) got(2)]] got(1,3) assms(6)
    by (auto simp: spares_def)
  moreover have "distinct (map fst (ca_order ad vs))" "set (ca_order ad vs) = set vs"
    using permuted_entries [OF assms(4) [rule_format, of vs]] assms(5) by simp_all
  ultimately have set: "assures (spares p) (\<lambda>r t. r = Inr () \<longrightarrow>
      all_stored (cs_masterKey (ca_credentials ad)) p vs t)
      (SetValues_prog (ca_credentials ad) p (ca_order ad vs)) w"
    using SetValues_assures [OF assms(2,3), of "ca_order ad vs" w p] by (simp add: all_stored_def)
  show ?case
  proof (cases "\<exists>q. r = Inr q \<and> validateCredentialFields (md_fields q) vs = None")
    case True
    then obtain q where q: "r = Inr q" "validateCredentialFields (md_fields q) vs = None" by blast
    show ?thesis unfolding q sum.case option.case
      by (rule assures_weaken [OF set]) (auto simp: all_stored_def spares_def split: sum.split)
  qed (auto split: sum.split option.split)
qed

text \<open>
  C5: A credential set that succeeds has stored every submitted value, whatever it was interleaved
  with: as long as no other operation sets or deletes the credentials of the same provider, any
  number of requests for anything, ticks included, may run between its calls and after it, and
  every submitted field opens to the submitted value.
\<close>
theorem interleaved_put:
  assumes "boot bd env drv s0 = (Inr (Inr a), t0)" and "\<forall>vs. mset (bd_order bd vs) = mset vs"
    and "\<forall>ws. SetCreds p ws \<notin> ops" and "DeleteCreds p \<notin> ops" and "distinct (map fst vs)" and "wf_db s"
    and "(pool_step (program bd a ` ops))\<^sup>*\<^sup>* ([program bd a (SetCreds p vs)], s) (ps, t)"
    and "last ps = Return True"
  shows "\<forall>(f, v) \<in> set vs. opens_to (cfg_masterKey (app_config a)) p f (secret_in t p f) = Some v"
proof -
  obtain cfg psvc where a: "a = wire bd cfg (sqliteStore drv) psvc" and repo: "svc_repo psvc = sqlite_providers"
    and cat: "svc_registry psvc = Registry" by (rule booted_wiring [OF assms(1)])
  note does = program_does [OF repo assms(2) a, unfolded cat]
  let ?key = "cfg_masterKey cfg" and ?Q = "\<lambda>ok t. ok \<longrightarrow> all_stored (cfg_masterKey cfg) p vs t"
  have others: "\<forall>q \<in> program bd a ` ops. does_only Registry ?key (actions ops) (\<lambda>_. True) q"
    by (auto simp: actions_def intro: does_mono [OF does])
  have rely: "spares p u v" if "wf_db v" "moves Registry ?key (actions ops) u v" for u v
  proof -
    have "Erases p \<notin> actions ops" "Stores p g \<notin> actions ops" for g
      using assms(3,4) by (auto simp: actions_def may_iff)
    then have "secret_in v p = secret_in u p" using moves_frame(2) [OF that(2)] by blast
    with that(1) show ?thesis by (simp add: spares_def)
  qed
  let ?ad = "\<lparr>ca_providers = psvc, ca_credentials = app_credentials a, ca_order = bd_order bd\<rparr>"
  have "assures (spares p) (\<lambda>ok t. ok \<longrightarrow> all_stored (cs_masterKey (ca_credentials ?ad)) p vs t)
      (outcome (SetCredentials_prog ?ad p vs)) s"
    by (rule SetCredentials_assures) (use repo assms(2,5,6) in \<open>simp_all add: a\<close>)
  then have "assures (spares p) ?Q (program bd a (SetCreds p vs)) s"
    by (simp add: program_def Let_def a)
  from pool_assures [OF assms(7) spares_preorder others does assms(6) rely this]
  obtain qs q where "ps = qs @ [q]" "assures (spares p) ?Q q t" by blast
  with assms(8) have "all_stored ?key p vs t" by (simp add: spares_def)
  then show ?thesis by (simp add: all_stored_def a)
qed

section \<open>Concrete instances\<close>

lemma demo_booted:
  obtains a t where "boot demo_build demo_env demo_driver empty_host = (Inr (Inr a), t)"
    and "reachable demo_build demo_env demo_driver a t" and "app_config a = demo_config"
proof -
  obtain a t where run: "boot demo_build demo_env demo_driver empty_host = (Inr (Inr a), t)"
    and cfg: "app_config a = demo_config" by (rule demo_boots)
  from that [OF run demo_reachable [OF run] cfg] show ?thesis .
qed

lemma demo_app:
  obtains a s0 psvc where "boot demo_build demo_env demo_driver empty_host = (Inr (Inr a), s0)"
    and "a = wire demo_build demo_config (sqliteStore demo_driver) psvc" and "svc_repo psvc = sqlite_providers"
    and "svc_registry psvc = Registry"
proof -
  obtain a s0 where boot: "boot demo_build demo_env demo_driver empty_host = (Inr (Inr a), s0)"
    and cfg: "app_config a = demo_config" by (rule demo_booted)
  obtain cfg psvc where a: "a = wire demo_build cfg (sqliteStore demo_driver) psvc"
    and psvc: "svc_repo psvc = sqlite_providers" "svc_registry psvc = Registry" by (rule booted_wiring [OF boot])
  have "cfg = demo_config" using cfg by (simp add: a)
  with that [OF boot _ psvc] a show ?thesis by simp
qed

lemma crash_free: "(pool_step T)\<^sup>*\<^sup>* c d \<Longrightarrow> (crash_step T)\<^sup>*\<^sup>* c d"
  by (erule rtranclp_mono [THEN predicate2D, rotated]) (auto intro: crash_step.runs)

lemma arrives_and_runs:
  assumes "p \<in> T" and "exec p s = (b, t)"
  shows "(crash_step T)\<^sup>*\<^sup>* ([], s) ([Return b], t)"
proof -
  have "(pool_step T)\<^sup>*\<^sup>* ([p], s) ([p][0 := Return b], t)" by (rule pool_runs) (use assms(2) in simp_all)
  with crash_step.runs [OF pool_step.arrives [OF assms(1), of "[]" s]] crash_free show ?thesis
    by (fastforce intro: converse_rtranclp_into_rtranclp)
qed

theorem interleaved_secure_witness:
  "\<exists>a b. \<exists>(s :: host) t. (crash_step (range (program demo_build a)))\<^sup>*\<^sup>* ([], s) ([Return b], t) \<and>
     enabled_in t ''openai'' \<noteq> None"
proof -
  obtain a s where a: "reachable demo_build demo_env demo_driver a s" by (rule demo_booted)
  obtain b t where run: "exec (program demo_build a (Enable ''openai'')) s = (b, t)" by fastforce
  have pool: "(crash_step (range (program demo_build a)))\<^sup>*\<^sup>* ([], s) ([Return b], t)"
    by (rule arrives_and_runs [OF _ run]) simp
  from interleaved_secure [OF a demo_driver_quiet demo_order pool]
  have "v_enabled (view_of t) ''openai'' \<noteq> None"
    by (auto simp: secure_def listed_def Registry_def)
  with pool show ?thesis unfolding view_of_def view.select_convs by blast
qed

theorem interleaved_frame_witness:
  "\<exists>a b. \<exists>(s :: host) t. (crash_step (program demo_build a ` {Tick, Enable ''openai''}))\<^sup>*\<^sup>* ([], s) ([Return b], t) \<and>
     secret_in t = secret_in s"
proof -
  obtain a s where boot: "boot demo_build demo_env demo_driver empty_host = (Inr (Inr a), s)"
    and a: "reachable demo_build demo_env demo_driver a s" by (rule demo_booted)
  have wf: "wf_db s" using reachable_safe [OF a demo_driver_quiet demo_order] by (simp add: safe_def)
  obtain b t where run: "exec (program demo_build a Tick) s = (b, t)" by fastforce
  have pool: "(crash_step (program demo_build a ` {Tick, Enable ''openai''}))\<^sup>*\<^sup>* ([], s) ([Return b], t)"
    by (rule arrives_and_runs [OF _ run]) simp
  have "secret_in t p = secret_in s p" for p
    using interleaved_frame [OF boot demo_order pool wf, of p] by simp
  with pool show ?thesis by blast
qed

theorem interleaved_put_witness:
  "\<exists>a ps t. (pool_step (program demo_build a ` {Tick}))\<^sup>*\<^sup>*
       ([program demo_build a (SetCreds ''minimax'' [(''subscription_key'', ''k2'')])], ready_host no_net)
       (ps, t) \<and>
     opens_to (replicate 32 7) ''minimax'' ''subscription_key''
       (secret_in t ''minimax'' ''subscription_key'') = Some ''k2''"
proof -
  obtain a s0 psvc where boot: "boot demo_build demo_env demo_driver empty_host = (Inr (Inr a), s0)"
    and a: "a = wire demo_build demo_config (sqliteStore demo_driver) psvc"
    and repo: "svc_repo psvc = sqlite_providers" and cat: "svc_registry psvc = Registry" by (rule demo_app)
  let ?vs = "[(''subscription_key'', ''k2'')]" and ?s = "ready_host no_net"
  obtain q u where get: "service_Get psvc ''minimax'' ?s = (Inr q, u)"
    "map cf_name (md_fields q) = [''subscription_key'']" "rt_rand u 0 = Inr (\<lambda>j. 0)"
    "reliable_db u"
    using ready_Get [OF repo cat, of no_net] by (elim exE conjE) (rule that)
  have "wf_db u" using Get_quiet [OF repo get(1)] by (auto simp: quiet_step_def)
  from one_field_set [OF _ _ _ get(1-3) this get(4), of "app_credentials a" "bd_order demo_build" "''k2''"]
  obtain t where "adapter_SetCredentials \<lparr>ca_providers = psvc, ca_credentials = app_credentials a,
      ca_order = bd_order demo_build\<rparr> ''minimax'' ?vs ?s = (Inr (), t)"
    by (auto simp: a demo_config_def demo_build_def)
  then have run: "exec (program demo_build a (SetCreds ''minimax'' ?vs)) ?s = (True, t)"
    by (simp add: program_def outcome_def Let_def a exec_operations)
  have pool: "(pool_step (program demo_build a ` {Tick}))\<^sup>*\<^sup>*
      ([program demo_build a (SetCreds ''minimax'' ?vs)], ?s) ([Return True], t)"
    using pool_runs [of 0 "[program demo_build a (SetCreds ''minimax'' ?vs)]", OF _ _ run] by simp
  from interleaved_put [OF boot demo_order _ _ _ ready_host_simps(1) pool] pool
  show ?thesis by (intro exI [of _ a] exI [of _ "[Return True]"] exI [of _ t]) (simp add: a demo_config_def)
qed

end
