(* ===== verification/Journey.thy ===== *)
theory Journey
  imports Interleaving
begin

text \<open>
  From the credential that a user submits to the numbers that the dashboard shows: the operations
  behind the API, encryption, storage, the collector and the Minimax fetcher in one piece.
\<close>

section \<open>The provider that is live\<close>

lemma booted_fetchers:
  assumes "boot bd env drv s = (Inr (Inr a), t)"
  shows "svc_fetchers (app_providers a) = [''minimax'' \<mapsto> Some minimax_New]"
  using assms
proof (cases rule: boot_cases)
  case (ready cfg s1 psvc)
  with register_minimax show ?thesis by (metis Inr_inject Inl_Inr_False wire_simps(3))
qed simp_all

lemma minimax_metadata: "svc_registry psvc = Registry \<Longrightarrow> service_metadata psvc ''minimax'' = Some demo_metadata"
  by (simp add: service_metadata_def Registry_demo)

lemma net_of_rest:
  "providers_rest t = providers_rest s \<Longrightarrow> rt_net t = rt_net s"
  "credentials_rest t = credentials_rest s \<Longrightarrow> rt_net t = rt_net s"
  by (simp_all add: providers_rest_def credentials_rest_def outside_tables_def)

section \<open>What a collection asks and answers\<close>

text \<open>The answer of the endpoint to the one request that carries this key.\<close>

definition endpoint_answer :: "string \<Rightarrow> 'z runtime_scheme \<Rightarrow> (int \<times> bytes) option" where
  "endpoint_answer key s =
     (case rt_net s 0 (usage_request key) of
        Inl m \<Rightarrow> None
      | Inr resp \<Rightarrow> (case resp_body resp of Inl m \<Rightarrow> None | Inr body \<Rightarrow> Some (resp_status resp, body)))"

definition key_refused :: "(int \<times> bytes) option \<Rightarrow> bool" where
  "key_refused answer \<longleftrightarrow> (\<exists>status body. answer = Some (status, body) \<and>
     (status = 401 \<or> status = 403 \<or> 200 \<le> status \<and> status < 300 \<and>
      (\<exists>payload. decoded body = Inr payload \<and> isAuthError (StatusCode (BaseResp payload)))))"

definition two_windows :: "(int \<times> bytes) option \<Rightarrow> usage_metric list \<Rightarrow> bool" where
  "two_windows answer ms \<longleftrightarrow> (\<exists>status body payload m1 m2 now.
     answer = Some (status, body) \<and> 200 \<le> status \<and> status < 300 \<and> decoded body = Inr payload \<and>
     StatusCode (BaseResp payload) = 0 \<and> ms = [m1, m2] \<and>
     toMetric (Current5h (Data payload)) ''token_plan_5h'' ''5h'' now = Inr m1 \<and>
     toMetric (CurrentWeek (Data payload)) ''token_plan_weekly'' ''week'' now = Inr m2)"

lemma fetch_with_key:
  assumes "key \<noteq> []" and "ft_FetchUsage minimax_New [''subscription_key'' \<mapsto> key] s = (r, t)"
  shows "rt_net t = advance (rt_net s) \<and>
    (case r of Inl e \<Rightarrow> errors_is e ErrAuth \<longrightarrow> key_refused (endpoint_answer key s)
     | Inr ms \<Rightarrow> two_windows (endpoint_answer key s) ms)"
proof -
  let ?cr = "[''subscription_key'' \<mapsto> key]"
  have key: "sent_key ?cr = Some key" "next_response ?cr s = endpoint_answer key s"
    using assms(1)
    by (simp_all add: sent_key_def next_response_def endpoint_answer_def subscriptionKeyCredential_def)
  show ?thesis
  proof (cases "endpoint_answer key s")
    case None
    with assms(2) key show ?thesis
      by (auto simp: minimax_FetchUsage_eq after_request_def split: sum.splits)
  next
    case (Some sb)
    obtain status body where sb: "sb = (status, body)" by fastforce
    consider (denied) "status = 401 \<or> status = 403"
      | (other) "\<not> (status = 401 \<or> status = 403)" "status < 200 \<or> 300 \<le> status"
      | (good) "200 \<le> status" "status < 300" by linarith
    then show ?thesis
    proof cases
      case good
      show ?thesis
      proof (cases "decoded body")
        case (Inl e)
        with good Some sb key assms(2) decoded_opaque [OF Inl] show ?thesis
          by (auto simp: minimax_FetchUsage_eq after_request_def)
      next
        case (Inr payload)
        with good Some sb key assms(2)
        have metrics: "minimax_metrics payload (after_request s) = (r, t)"
          by (simp add: minimax_FetchUsage_eq)
        then have net: "rt_net t = advance (rt_net s)"
          by (auto simp: minimax_metrics_def time_Now_def Let_def after_request_def split: if_splits sum.splits)
        show ?thesis
        proof (cases r)
          case Err: (Inl e)
          with metrics minimax_metrics_auth [of payload "after_request s"] Inr good net sb show ?thesis
            by (auto simp: Some key_refused_def)
        next
          case Ok: (Inr ms)
          show ?thesis
            by (rule minimax_metrics_InrE [OF metrics [unfolded Ok]])
              (use Inr good net sb Ok in \<open>auto simp: Some two_windows_def\<close>)
        qed
      qed
    qed (use Some sb key assms(2) in \<open>auto simp: minimax_FetchUsage_eq after_request_def key_refused_def\<close>)
  qed
qed

section \<open>Collecting with a stored key\<close>

lemma Collect_minimax:
  fixes c :: "('z host_scheme) collector"
  assumes "sqlite_wired c" and reg: "svc_registry (col_providers c) = Registry"
    and live: "svc_fetchers (col_providers c) = [''minimax'' \<mapsto> Some minimax_New]"
    and "wf_db s" and on: "enabled_in s ''minimax'' = Some True" and "key \<noteq> []"
    and key: "opens_to (cs_masterKey (col_credentials c)) ''minimax'' ''subscription_key''
      (secret_in s ''minimax'' ''subscription_key'') = Some key"
    and run: "Collect c ''minimax'' s = (r, t)"
  shows "case r of
      Inl e \<Rightarrow> errors_is e ErrAuth \<longrightarrow> key_refused (endpoint_answer key s)
    | Inr sn \<Rightarrow> rt_net t = advance (rt_net s) \<and>
        (\<exists>ms. snap_metrics sn = toStoreMetrics ms \<and> two_windows (endpoint_answer key s) ms)"
proof -
  note wired = assms(1) [unfolded sqlite_wired_iff]
  obtain g s1 where first: "gather c ''minimax'' s = (g, s1)" by fastforce
  note law1 = sqlite_store.gather_client [OF assms(4) wired first]
  show ?thesis
  proof (cases g)
    case (Inl e)
    with first law1 run show ?thesis by (auto simp: Collect_halves)
  next
    case (Inr cr)
    let ?cr = "[''subscription_key'' \<mapsto> key] :: creds"
    have "cr = ?cr" using law1 Inr minimax_metadata [OF reg] key by (auto simp: revealed_def demo_metadata_def)
    with first Inr have first: "gather c ''minimax'' s = (Inr ?cr, s1)" by simp
    obtain x u where fetch: "ft_FetchUsage minimax_New ?cr (runtime.truncate s1) = (x, u)" by fastforce
    then obtain s2 where within: "within_runtime (ft_FetchUsage minimax_New ?cr) s1 = (x, s2)"
      and net: "rt_net s2 = rt_net u" and more: "runtime.more s2 = runtime.more s1"
      by (auto simp: within_runtime_def)
    have same: "rt_net (runtime.truncate s1) = rt_net s"
      "endpoint_answer key (runtime.truncate s1) = endpoint_answer key s"
      using law1 by (simp_all add: runtime.truncate_def endpoint_answer_def)
    note exchange = fetch_with_key [OF assms(6) fetch, unfolded same]
    note used = FetchUsage_live [OF minimax_metadata [OF reg], of minimax_New ?cr s1, unfolded within]
    show ?thesis
    proof (cases x)
      case (Inl e)
      with used live first run exchange show ?thesis by (auto simp: Collect_halves)
    next
      case (Inr ms)
      with used live first run have keep: "keep_usage c ''minimax'' ms s2 = (r, t)" by (simp add: Collect_halves)
      have "wf_db s2" using same_more_tables(1) [OF more] law1 by (simp add: sqlite_store.untouched_def)
      note law2 = sqlite_store.keep_usage_client [OF this wired keep]
      with Inr exchange net show ?thesis by (cases r) auto
    qed
  qed
qed

section \<open>From the submitted key to the usage\<close>

text \<open>The key is stored and the provider enabled: what the collection finds.\<close>

lemma key_then_enabled:
  assumes "boot bd env drv s0 = (Inr (Inr a), t0)" and "\<forall>vs. mset (bd_order bd vs) = mset vs"
    and "wf_db s"
    and "adapter_SetCredentials \<lparr>ca_providers = app_providers a, ca_credentials = app_credentials a,
        ca_order = bd_order bd\<rparr> ''minimax'' [(''subscription_key'', key)] s = (Inr (), s1)"
    and "service_SetEnabled (app_providers a) ''minimax'' True s1 = (Inr q, s2)"
  shows "wf_db s2 \<and> enabled_in s2 ''minimax'' = Some True \<and> rt_net s2 = rt_net s1 \<and>
    opens_to (cs_masterKey (app_credentials a)) ''minimax'' ''subscription_key''
      (secret_in s2 ''minimax'' ''subscription_key'') = Some key"
proof -
  obtain cfg psvc where a: "a = wire bd cfg (sqliteStore drv) psvc" and repo: "svc_repo psvc = sqlite_providers"
    and cat: "svc_registry psvc = Registry" by (rule booted_wiring [OF assms(1)])
  from adapter_SetCredentials_sqlite [OF assms(3) wire_services(1) [OF repo] assms(2) [rule_format] _
      assms(4) [unfolded a wire_simps]]
  have s1: "wf_db s1" "opens_to (cs_masterKey (app_credentials a)) ''minimax'' ''subscription_key''
       (secret_in s1 ''minimax'' ''subscription_key'') = Some key"
    by (simp_all add: a)
  note law = sqlite_prov.service_SetEnabled_client [OF s1(1) _ assms(5)]
  then show ?thesis
    using s1 providers_rest_tables [of s2 s1] net_of_rest(1) [of s2 s1] repo by (auto simp: a)
qed

text \<open>A metric as the API shows it and as the fetcher reported it.\<close>

definition shows_metric :: "usage_metric \<Rightarrow> api_usage_metric \<Rightarrow> bool" where
  "shows_metric m u \<longleftrightarrow> aum_Name u = um_name m \<and> aum_Window u = um_window m \<and> aum_Unit u = um_unit m \<and>
     aum_Used u = um_used m \<and> aum_Limit u = um_limit m \<and> aum_Remaining u = um_remaining m \<and>
     aum_ResetAt u = um_reset_at m"

lemma shows_stored: "list_all2 shows_metric ms (map toAPIUsageMetric (toStoreMetrics ms))"
  by (simp add: toStoreMetrics_def list.rel_map shows_metric_def toAPIUsageMetric_def toStoreMetric_def
      list_all2_same)

text \<open>
  C6: The key that the user submits is the key that the provider is asked with. After setting
  Minimax's subscription key and enabling Minimax, a refresh that succeeds has sent exactly one
  request, the documented one with exactly the submitted key, and shows exactly the two windows
  that the endpoint answered to it; and a refresh that ends in an authentication failure does so
  because the endpoint refused that very key.
\<close>
theorem submitted_key_is_sent:
  assumes "boot bd env drv s0 = (Inr (Inr a), t0)" and "\<forall>vs. mset (bd_order bd vs) = mset vs"
    and "wf_db s" and "key \<noteq> []"
    and "adapter_SetCredentials \<lparr>ca_providers = app_providers a, ca_credentials = app_credentials a,
        ca_order = bd_order bd\<rparr> ''minimax'' [(''subscription_key'', key)] s = (Inr (), s1)"
    and "service_SetEnabled (app_providers a) ''minimax'' True s1 = (Inr q, s2)"
    and "adapter_RefreshUsage (app_collector a) ''minimax'' s2 = (r, s3)"
  shows "case r of
      Inl e \<Rightarrow> errors_is e ErrAuth \<longrightarrow> key_refused (endpoint_answer key s2)
    | Inr us \<Rightarrow> rt_net s3 = advance (rt_net s2) \<and>
        (\<exists>ms. two_windows (endpoint_answer key s2) ms \<and> list_all2 shows_metric ms (us_Metrics us))"
proof -
  obtain cfg psvc where a: "a = wire bd cfg (sqliteStore drv) psvc" and repo: "svc_repo psvc = sqlite_providers"
    and cat: "svc_registry psvc = Registry" by (rule booted_wiring [OF assms(1)])
  have live: "svc_fetchers psvc = [''minimax'' \<mapsto> Some minimax_New]"
    using booted_fetchers [OF assms(1)] by (simp add: a)
  obtain x where "Collect (app_collector a) ''minimax'' s2 = (x, s3)"
    "r = (case x of Inl e \<Rightarrow> Inl e | Inr snap \<Rightarrow> Inr (toAPIUsageSnapshot snap))"
    using assms(7) by (auto simp: adapter_RefreshUsage_def split: prod.splits sum.splits)
  then show ?thesis
    using Collect_minimax [OF wire_services(2) [OF repo, of bd cfg drv] _ _ _ _ assms(4), where s = s2 and r = x and t = s3]
      key_then_enabled [OF assms(1-3,5,6)] cat live
    by (cases x) (auto simp: a toAPIUsageSnapshot_def shows_stored)
qed

section \<open>A key that works\<close>

definition demo_net :: "nat \<Rightarrow> http_request \<Rightarrow> string + http_response" where
  "demo_net = (\<lambda>i req.
     if req = usage_request ''k2''
     then Inr \<lparr>resp_status = 200, resp_body = Inr (bytes_of_string (json_text demo_reply))\<rparr>
     else Inl ''connection refused'')"

lemma demo_net_fetch:
  assumes "rt_net s = demo_net"
  shows "\<exists>ms t. ft_FetchUsage minimax_New [''subscription_key'' \<mapsto> ''k2''] s = (Inr ms, t) \<and>
     storable_metrics (toStoreMetrics ms)"
proof -
  have names: "utf8_valid ''token_plan_5h''" "utf8_valid ''5h''" "utf8_valid ''prompts''"
    "utf8_valid ''token_plan_weekly''" "utf8_valid ''week''" by code_simp+
  have "next_response [''subscription_key'' \<mapsto> ''k2''] s = Some (200, bytes_of_string (json_text demo_reply))"
    "sent_key [''subscription_key'' \<mapsto> ''k2''] = Some ''k2''"
    using assms by (simp_all add: sent_key_def next_response_def demo_net_def subscriptionKeyCredential_def)
  then show ?thesis
    by (simp add: minimax_FetchUsage_eq decoded_demo_reply minimax_metrics_def demo_response_def toMetric_def
        nilToNilTime_def time_Now_def Let_def toStoreMetrics_def toStoreMetric_def storable_metrics_def
        storable_metric_def names)
qed

lemma collected_when_fetched:
  fixes s :: "'z host_scheme"
  assumes "sqlite_store.collect_outcome c p m s" and "enabled_in s p = Some True"
    and "credentialed (col_credentials c) (secret_in s) p (md_fields m)"
    and "svc_fetchers (col_providers c) p = Some (Some f)"
    and "\<And>s'. rt_net s' = rt_net s \<Longrightarrow>
      \<exists>ms t. ft_FetchUsage f (revealed (col_credentials c) (secret_in s) p (md_fields m))
         (runtime.truncate (s' :: 'z host_scheme)) = (Inr ms, t) \<and> storable_metrics (toStoreMetrics ms)"
  shows "\<exists>sn t. Collect c p s = (Inr sn, t)"
proof -
  obtain s1 :: "'z host_scheme" where s1: "rt_net s1 = rt_net s"
    and out: "case ft_FetchUsage f (revealed (col_credentials c) (secret_in s) p (md_fields m)) (runtime.truncate s1) of
       (Inl e, rt) \<Rightarrow> \<exists>s'. Collect c p s = (Inl (Wrap (''provider: fetch '' @ p) e), s')
     | (Inr ms, rt) \<Rightarrow> \<not> storable_metrics (toStoreMetrics ms) \<or>
         (\<exists>s'. reliable_db s' \<and> Collect c p s =
           (Inr \<lparr>snap_provider_id = p, snap_metrics = toStoreMetrics ms,
                 snap_collected_at = time_UTC (rt_clock rt 0), snap_last_error = None\<rparr>, s'))"
    using assms(1-4) unfolding sqlite_store.collect_outcome_def
    by (simp del: split_paired_Ex) (elim exE conjE, rule that)
  from assms(5) [OF s1] out show ?thesis by auto
qed

theorem submitted_key_is_sent_witness:
  "\<exists>(a :: unit app) s1 q s2 us s3.
     adapter_SetCredentials \<lparr>ca_providers = app_providers a, ca_credentials = app_credentials a,
        ca_order = bd_order demo_build\<rparr> ''minimax'' [(''subscription_key'', ''k2'')] (ready_host demo_net)
       = (Inr (), s1) \<and>
     service_SetEnabled (app_providers a) ''minimax'' True s1 = (Inr q, s2) \<and>
     adapter_RefreshUsage (app_collector a) ''minimax'' s2 = (Inr us, s3) \<and>
     map (\<lambda>m. sint (aum_Used m)) (us_Metrics us) = [5, 50]"
proof -
  obtain a t0 psvc where boot: "boot demo_build demo_env demo_driver empty_host = (Inr (Inr a), t0)"
    and a: "a = wire demo_build demo_config (sqliteStore demo_driver) psvc"
    and repo: "svc_repo psvc = sqlite_providers" and cat: "svc_registry psvc = Registry" by (rule demo_app)
  let ?ad = "\<lparr>ca_providers = app_providers a, ca_credentials = app_credentials a, ca_order = bd_order demo_build\<rparr>"
  let ?vs = "[(''subscription_key'', ''k2'')]" and ?s = "ready_host demo_net"
  obtain p u where get: "service_Get psvc ''minimax'' ?s = (Inr p, u)"
    "map cf_name (md_fields p) = [''subscription_key'']" "rt_rand u 0 = Inr (\<lambda>j. 0)"
    "reliable_db u" "rt_net u = demo_net"
    using ready_Get [OF repo cat, of demo_net] by (elim exE conjE) (rule that)
  have "wf_db u" using Get_quiet [OF repo get(1)] by (auto simp: quiet_step_def)
  from one_field_set [OF _ _ _ get(1-3) this get(4), of "app_credentials a" "bd_order demo_build" "''k2''"]
  obtain s1 where put: "adapter_SetCredentials ?ad ''minimax'' ?vs ?s = (Inr (), s1)"
    and s1: "reliable_db s1" "rt_net s1 = demo_net"
    using get(5) by (auto simp: a demo_config_def demo_build_def)
  have st: "wf_db s1" "enabled_in s1 ''minimax'' \<noteq> None"
    using adapter_SetCredentials_sqlite [OF ready_host_simps(1) wire_services(1) [OF repo]
      demo_order [rule_format] _ put [unfolded a wire_simps]] by simp_all
  obtain s2 where "prov_SetEnabled sqlite_providers ''minimax'' True s1 = (Inr (), s2)" and s2: "reliable_db s2"
    using sqlite_prov.SetEnabled_healthy [OF st(1) s1(1) st(2)] by blast
  then obtain q where on: "service_SetEnabled (app_providers a) ''minimax'' True s1 = (Inr q, s2)"
    using repo minimax_metadata [OF cat] by (simp add: service_SetEnabled_def a)
  note found = key_then_enabled [OF boot demo_order ready_host_simps(1) put on]
  have wired: "sqlite_wired (app_collector a)" using wire_services(2) [OF repo] by (simp add: a)
  have md: "service_metadata (col_providers (app_collector a)) ''minimax'' = Some demo_metadata"
    using minimax_metadata [OF cat] by (simp add: a)
  have live: "svc_fetchers (col_providers (app_collector a)) ''minimax'' = Some (Some minimax_New)"
    using booted_fetchers [OF boot] by (simp add: a)
  have creds: "revealed (col_credentials (app_collector a)) (secret_in s2) ''minimax'' (md_fields demo_metadata)
      = [''subscription_key'' \<mapsto> ''k2'']"
    using found by (auto simp: revealed_def demo_metadata_def a)
  have outcome: "sqlite_store.collect_outcome (app_collector a) ''minimax'' demo_metadata s2"
    by (rule sqlite_store.Collect_healthy [OF _ s2 _ md])
      (use found wired in \<open>auto simp: demo_metadata_def a sqlite_wired_def sqlite_store.wired_def\<close>)
  have cred: "credentialed (col_credentials (app_collector a)) (secret_in s2) ''minimax'' (md_fields demo_metadata)"
    using found by (auto simp: credentialed_def demo_metadata_def a)
  have "\<exists>ms t. ft_FetchUsage minimax_New (revealed (col_credentials (app_collector a)) (secret_in s2) ''minimax''
      (md_fields demo_metadata)) (runtime.truncate s') = (Inr ms, t) \<and> storable_metrics (toStoreMetrics ms)"
    if "rt_net s' = rt_net s2" for s' :: host
    unfolding creds by (rule demo_net_fetch) (use that found s1(2) in \<open>simp add: runtime.truncate_def\<close>)
  then obtain snap s3 where "Collect (app_collector a) ''minimax'' s2 = (Inr snap, s3)"
    using collected_when_fetched [OF outcome _ cred live] found by blast
  then have run: "adapter_RefreshUsage (app_collector a) ''minimax'' s2 = (Inr (toAPIUsageSnapshot snap), s3)"
    by (simp add: adapter_RefreshUsage_def)
  have "endpoint_answer ''k2'' s2 = Some (200, bytes_of_string (json_text demo_reply))"
    using found s1(2) by (simp add: endpoint_answer_def demo_net_def)
  then have "map (\<lambda>m. sint (aum_Used m)) (us_Metrics (toAPIUsageSnapshot snap)) = [5, 50]"
    using submitted_key_is_sent [OF boot demo_order ready_host_simps(1) _ put on run] decoded_demo_reply
    by (auto simp: two_windows_def demo_response_def toMetric_def Let_def shows_metric_def list_all2_Cons1)
  with put on run show ?thesis by (intro exI conjI) assumption+
qed

end
