(* ===== verification/Race.thy ===== *)
theory Race
  imports Journey
begin

text \<open>
  An interleaving that atomic operations do not have: an attempt that was started with the old
  credential records its failure after the new credential was stored and the provider un-gated.
\<close>

section \<open>Programs that run a part of the way\<close>

inductive resume :: "('s, 'a) prog \<times> 's \<Rightarrow> ('s, 'a) prog \<times> 's \<Rightarrow> bool" where
  acts: "f s = (p, t) \<Longrightarrow> resume (Act f, s) (p, t)"

inductive_cases resumeE: "resume (p, s) c"

lemma resume_then:
  "resume\<^sup>*\<^sup>* (p, s) (q, t) \<Longrightarrow> resume\<^sup>*\<^sup>* (then_do p k, s) (then_do q k, t)"
proof (induction rule: rtranclp_induct2)
  case (step q t q' t')
  from step.hyps(2) have "resume (then_do q k, t) (then_do q' k, t')"
    by (auto elim!: resumeE intro!: resume.intros)
  with step.IH show ?case by (rule rtranclp.rtrancl_into_rtrancl)
qed simp

lemma resume_exec: "exec p s = (a, t) \<Longrightarrow> resume\<^sup>*\<^sup>* (p, s) (Return a, t)"
proof (induction p arbitrary: s)
  case (Act f)
  obtain q u where step: "f s = (q, u)" by fastforce
  have "f s \<in> range f" "q \<in> Basic_BNFs.fsts (f s)" by (rule rangeI, simp add: step prod_set_simps)
  with Act step have "resume\<^sup>*\<^sup>* (q, u) (Return a, t)" by simp
  moreover have "resume (Act f, s) (q, u)" using step by (rule resume.acts)
  ultimately show ?case by (rule converse_rtranclp_into_rtranclp [rotated])
qed simp

lemma resume_first:
  "exec p s = (a, t) \<Longrightarrow> k a = q \<Longrightarrow> resume\<^sup>*\<^sup>* (then_do p k, s) (q, t)"
  using resume_then [OF resume_exec, of p s a t k] by simp

lemma resume_pool:
  "resume\<^sup>*\<^sup>* (p, s) (q, t) \<Longrightarrow> i < length ps \<Longrightarrow> ps ! i = p \<Longrightarrow>
     (pool_step T)\<^sup>*\<^sup>* (ps, s) (ps[i := q], t)"
proof (induction rule: rtranclp_induct2)
  case (step q t q' t')
  from step.hyps(2) obtain f where "q = Act f" "f t = (q', t')" by (auto elim: resumeE)
  then have "(pool_step T) (ps[i := q], t) (ps[i := q, i := q'], t')"
    using step.prems(1) pool_step.resumes [of i "ps[i := q]" f t q' t' T] by simp
  with step show ?case by (metis list_update_overwrite rtranclp.rtrancl_into_rtrancl)
qed auto

section \<open>A tick whose attempt is under way\<close>

text \<open>
  The point of a tick where an attempt for one provider has ended with \<open>r\<close> and is about to be
  settled, with the rest of the tick to come.
\<close>

definition about_to_settle ::
    "('z process_scheme) scheduler \<Rightarrow> string \<Rightarrow> snapshot result \<Rightarrow> provider list
       \<Rightarrow> ('z process_scheme, unit) prog" where
  "about_to_settle sch p r ps = then_do (settle_prog sch p r) (\<lambda>_. tick_loop_prog sch ps)"

lemma tick_reaches_settle:
  assumes list: "service_List (sch_providers sch) s = (Inr (before @ q # after), s1)"
    and "\<forall>b \<in> set before. \<not> p_enabled b" and "p_enabled q"
    and "ctx_Err s1 = (False, s2)" and cool: "sch_cooldown sch \<noteq> None" "active (md_id q) s2 = (False, s3)"
    and fetched: "Collect (sch_collector sch) (md_id q) s3 = (r, s4)"
  shows "resume\<^sup>*\<^sup>* (tick_prog sch, s) (about_to_settle sch (md_id q) r after, s4)"
proof -
  let ?rest = "\<lambda>_. tick_loop_prog sch after"
  have skip: "tick_loop_prog sch (before @ q # after) = tick_loop_prog sch (q # after)"
    using assms(2) by (induction before) auto
  have "resume\<^sup>*\<^sup>* (tick_prog sch, s) (tick_loop_prog sch (q # after), s1)"
    unfolding tick_prog_def skip [symmetric] by (rule resume_first, unfold exec_call, rule list) simp
  also have "resume\<^sup>*\<^sup>* (tick_loop_prog sch (q # after), s1)
      (then_do (collectOne_prog sch (md_id q)) ?rest, s2)"
    by (simp add: assms(3), rule resume_first, unfold exec_call, rule assms(4)) simp
  also have "resume\<^sup>*\<^sup>* (then_do (collectOne_prog sch (md_id q)) ?rest, s2)
      (then_do (then_do (Collect_prog (sch_collector sch) (md_id q)) (settle_prog sch (md_id q))) ?rest, s3)"
    unfolding collectOne_prog_def by (intro resume_then resume_first) (use cool in \<open>auto simp: exec_active\<close>)
  also have "resume\<^sup>*\<^sup>* \<dots> (about_to_settle sch (md_id q) r after, s4)"
    unfolding about_to_settle_def
    by (intro resume_then resume_first) (simp_all add: exec_Collect fetched)
  finally show ?thesis .
qed

lemma exec_about_to_settle:
  assumes "errors_is e ErrAuth" and "\<not> errors_is e ErrFetcherNotFound" and "sch_cooldown sch = Some reg"
    and "\<forall>q \<in> set after. \<not> p_enabled q"
  shows "exec (about_to_settle sch p (Inl e) after) s =
    ((), slog Warn ''scheduler: provider authentication failed, engaging cooldown''
      [(''provider'', p), (''error'', error_text e)] (recordFailure reg p s))"
proof -
  have "tick_loop_prog sch after = Return ()" using assms(4) by (induction after) auto
  then show ?thesis using assms(1-3) by (simp add: about_to_settle_def settle_prog_def)
qed

section \<open>The old key fails after the new key is stored\<close>

text \<open>The endpoint refuses the old key and serves the new one.\<close>

definition race_net :: "nat \<Rightarrow> http_request \<Rightarrow> string + http_response" where
  "race_net = (\<lambda>i req.
     if req = usage_request ''k'' then Inr \<lparr>resp_status = 401, resp_body = Inr []\<rparr>
     else if req = usage_request ''k2''
     then Inr \<lparr>resp_status = 200, resp_body = Inr (bytes_of_string (json_text demo_reply))\<rparr>
     else Inl ''connection refused'')"

definition race_host :: host where
  "race_host = ready_host race_net"

lemma advance_race_net [simp]: "advance race_net = race_net"
  by (simp add: race_net_def)

lemmas race_host_defs = race_host_def ready_host_def empty_host_def calm_runtime_def

lemma race_calls:
  "ctx_Err race_host = (False, race_host)" "active p race_host = (False, race_host)"
  "db_call race_host = (None, race_host)"
  by (simp_all add: race_host_defs ctx_Err_def active_def db_call_def)

lemma race_fetch:
  assumes "svc_registry svc = Registry" and "svc_fetchers svc = [''minimax'' \<mapsto> Some minimax_New]"
  shows "\<exists>e. FetchUsage svc ''minimax'' [''subscription_key'' \<mapsto> ''k''] race_host = (Inl e, race_host) \<and>
     errors_is e ErrAuth \<and> \<not> errors_is e ErrFetcherNotFound"
proof -
  let ?cr = "[''subscription_key'' \<mapsto> ''k'']" and ?rt = "runtime.truncate race_host"
  have "next_response ?cr ?rt = Some (401, [])" "sent_key ?cr = Some ''k''"
    by (simp_all add: sent_key_def next_response_def race_host_defs race_net_def subscriptionKeyCredential_def
        runtime.truncate_def)
  then have "within_runtime (ft_FetchUsage minimax_New ?cr) race_host =
      (Inl (Wrap (''minimax: authentication failed (status '' @ string_of_int 401 @ '')'') (Sentinel ErrAuth)),
       race_host)"
    by (simp add: minimax_FetchUsage_eq within_runtime_def after_request_def runtime.truncate_def race_host_defs)
  then show ?thesis
    using FetchUsage_live [OF minimax_metadata [OF assms(1)], of minimax_New] assms(2) by simp
qed

lemma race_Get:
  "svc_repo psvc = sqlite_providers \<Longrightarrow> svc_registry psvc = Registry \<Longrightarrow>
     service_Get psvc ''minimax'' race_host =
       (Inr (with_state demo_metadata True (HasFetcher psvc ''minimax'')), race_host)"
  by (simp add: service_Get_def service_metadata_def Registry_demo sqlite_providers_def sqlite_Get_def
      race_calls Let_def) (simp add: race_host_defs row_of_def)

lemma race_List:
  assumes "svc_repo psvc = sqlite_providers" and "svc_registry psvc = Registry"
  shows "\<exists>before. service_List psvc race_host =
      (Inr (before @ [with_state demo_metadata True (HasFetcher psvc ''minimax'')]), race_host) \<and>
    (\<forall>b \<in> set before. \<not> p_enabled b)"
  using assms
  by (simp add: service_List_def sqlite_providers_def sqlite_List_def race_calls Let_def)
    (simp add: race_host_defs Registry_def demo_metadata_def with_state_def)

lemma race_Reveal:
  assumes "cs_repo csvc = sqlite_credentials" and "cs_masterKey csvc = demo_key"
  shows "Reveal csvc ''minimax'' ''subscription_key'' race_host = (Inr ''k'', race_host)"
proof -
  have "cred_GetSecret sqlite_credentials ''minimax'' ''subscription_key'' race_host =
      (Inr (demo_blob ''minimax'' ''subscription_key''), race_host)"
    by (simp add: sqlite_credentials_def sqlite_GetSecret_def race_calls Let_def)
      (simp add: race_host_defs row_of_def)
  then show ?thesis
    using assms opens_to_demo_blob [of "''minimax''" "''subscription_key''"]
    by (auto simp: Reveal_def opens_to_def split: sum.splits)
qed

lemma race_SetValues:
  assumes "cs_repo csvc = sqlite_credentials" and "cs_masterKey csvc = demo_key"
    and "cs_cooldown csvc = Some Clear"
  shows "\<exists>rows. SetValues csvc ''minimax'' [(''subscription_key'', v)] race_host =
    (Inr (), race_host\<lparr>db_credentials := rows\<rparr>)"
proof -
  have rand: "rt_rand race_host 0 = Inr (\<lambda>j. 0)" "race_host\<lparr>rt_rand := advance (rt_rand race_host)\<rparr> = race_host"
    by (simp_all add: race_host_defs)
  obtain blob where "Seal (cs_masterKey csvc) (bytes_of_string v) (AAD ''minimax'' ''subscription_key'') race_host
      = (Inr blob, race_host)"
    using Seal_good_key [of "cs_masterKey csvc" race_host, OF _ rand(1), unfolded rand(2)] assms(2)
    by (auto simp: demo_key_def KeySize_def Let_def)
  moreover obtain rows where "cred_Upsert sqlite_credentials ''minimax'' ''subscription_key'' blob race_host =
      (Inr (), race_host\<lparr>db_credentials := rows\<rparr>)"
    by (simp add: sqlite_credentials_def sqlite_Upsert_def time_Now_def db_call_def race_host_defs Let_def)
  moreover have "Clear p (race_host\<lparr>db_credentials := rows\<rparr>) = race_host\<lparr>db_credentials := rows\<rparr>" for p rows
    by (simp add: Clear_def race_host_defs fun_eq_iff)
  ultimately show ?thesis using assms(1,3) by (auto simp: SetValues_def)
qed

lemma race_backoff: "sint (backoff (NewAuthCooldownRegistry (cfg_pollInterval demo_config) maxAuthCooldown) 1) =
    300000000000"
  by (simp add: backoff_def NewAuthCooldownRegistry_def demo_config_def maxAuthCooldown_def)

text \<open>What the end of the refused attempt does, and the state it leaves.\<close>

definition late_failure :: "goerr \<Rightarrow> host \<Rightarrow> host" where
  "late_failure e s =
     slog Warn ''scheduler: provider authentication failed, engaging cooldown''
       [(''provider'', ''minimax''), (''error'', error_text e)]
       (recordFailure (NewAuthCooldownRegistry (cfg_pollInterval demo_config) maxAuthCooldown) ''minimax'' s)"

lemmas late_failure_defs = late_failure_def recordFailure_def time_Now_def Let_def

lemma late_failure_state:
  "secret_in (late_failure e s) = secret_in s"
  "endpoint_answer ''k2'' (late_failure e (race_host\<lparr>db_credentials := rows\<rparr>)) =
     Some (200, bytes_of_string (json_text demo_reply))"
  "fst (active ''minimax'' (late_failure e (race_host\<lparr>db_credentials := rows\<rparr>)))"
proof -
  show "secret_in (late_failure e s) = secret_in s" by (simp add: late_failure_defs sqlite_defs fun_eq_iff)
  show "endpoint_answer ''k2'' (late_failure e (race_host\<lparr>db_credentials := rows\<rparr>)) =
      Some (200, bytes_of_string (json_text demo_reply))"
    by (simp add: late_failure_defs slog_def endpoint_answer_def race_host_def)
      (simp add: race_net_def usage_request_def)
  show "fst (active ''minimax'' (late_failure e (race_host\<lparr>db_credentials := rows\<rparr>)))"
    by (simp add: late_failure_defs slog_def active_def time_Before_def time_Add_def)
      (simp add: race_host_defs race_backoff [unfolded One_nat_def])
qed

lemma race_refused:
  assumes "a = wire demo_build demo_config (sqliteStore demo_driver) psvc"
    and "svc_repo psvc = sqlite_providers" and "svc_registry psvc = Registry"
    and "svc_fetchers psvc = [''minimax'' \<mapsto> Some minimax_New]"
  shows "\<exists>e. Collect (app_collector a) ''minimax'' race_host = (Inl e, race_host) \<and>
    errors_is e ErrAuth \<and> \<not> errors_is e ErrFetcherNotFound"
proof -
  have "Reveal (app_credentials a) ''minimax'' ''subscription_key'' race_host = (Inr ''k'', race_host)"
    by (rule race_Reveal) (simp_all add: assms(1) demo_config_def demo_key_def)
  then show ?thesis
    using race_Get [OF assms(2,3)] race_fetch [OF assms(3,4)]
    by (auto simp: Collect_def loadCredentials_def assms(1) demo_metadata_def with_state_def)
qed

lemma race_put:
  assumes "a = wire demo_build demo_config (sqliteStore demo_driver) psvc"
    and "svc_repo psvc = sqlite_providers" and "svc_registry psvc = Registry"
  shows "\<exists>rows. exec (program demo_build a (SetCreds ''minimax'' [(''subscription_key'', v)])) race_host =
      (True, race_host\<lparr>db_credentials := rows\<rparr>) \<and>
    opens_to (cs_masterKey (app_credentials a)) ''minimax'' ''subscription_key''
      (secret_in (race_host\<lparr>db_credentials := rows\<rparr>) ''minimax'' ''subscription_key'') = Some v"
proof -
  have key: "cs_masterKey (app_credentials a) = demo_key" by (simp add: assms(1) demo_config_def demo_key_def)
  obtain rows where set: "SetValues (app_credentials a) ''minimax'' [(''subscription_key'', v)] race_host =
      (Inr (), race_host\<lparr>db_credentials := rows\<rparr>)"
    using race_SetValues [OF _ key] by (fastforce simp: assms(1))
  have "validateCredentialFields (md_fields (with_state demo_metadata True (HasFetcher psvc ''minimax'')))
      [(''subscription_key'', v)] = None"
    by (simp add: validateCredentialFields_None_iff demo_metadata_def with_state_def)
  then have "exec (program demo_build a (SetCreds ''minimax'' [(''subscription_key'', v)])) race_host =
      (True, race_host\<lparr>db_credentials := rows\<rparr>)"
    using race_Get [OF assms(2,3)] set
    by (simp add: program_def outcome_def Let_def exec_operations adapter_SetCredentials_def demo_build_def assms(1))
  moreover have "opens_to (cs_masterKey (app_credentials a)) ''minimax'' ''subscription_key''
      (secret_in (race_host\<lparr>db_credentials := rows\<rparr>) ''minimax'' ''subscription_key'') = Some v"
    using set_values_sqlite [OF _ wire_services(1) [OF assms(2)] _ set [unfolded assms(1)]]
    by (simp add: assms(1) race_host_def)
  ultimately show ?thesis by blast
qed


section \<open>Without an attempt under way the gate stays open\<close>

definition stays_open :: "string \<Rightarrow> 'z process_scheme \<Rightarrow> 'z process_scheme \<Rightarrow> bool" where
  "stays_open p u v \<longleftrightarrow> (entries u p = None \<longrightarrow> entries v p = None)"

lemma micro_ungates: "micro cat key (Ungates p) v v' \<Longrightarrow> v_gate v' p = None"
  by (erule microE) simp_all

lemma stays_open_preorder: "reflp (stays_open p)" "transp (stays_open p)"
  by (auto simp: stays_open_def intro!: reflpI transpI)

lemma assures_True: "assures E (\<lambda>_ _. True) p s"
proof (induction p arbitrary: s)
  case (Act f)
  have "assures E (\<lambda>_ _. True) q u" if "f t = (q, u)" for q t u
  proof -
    have "f t \<in> range f" "q \<in> Basic_BNFs.fsts (f t)" by (rule rangeI, simp add: that prod_set_simps)
    then show ?thesis by (rule Act.IH)
  qed
  then show ?case unfolding assures_Act by blast
qed simp

lemmas assures_after = assures_then [OF stays_open_preorder(1), OF assures_weaken [OF assures_True]]

lemma SetValues_ungates:
  assumes "cs_cooldown csvc = Some Clear"
  shows "assures (stays_open p) (\<lambda>r t. r = Inr () \<longrightarrow> entries t p = None) (SetValues_prog csvc p vs) s"
  unfolding SetValues_prog_def assms option.case
proof (rule assures_after, goal_cases stored)
  case (stored r t)
  show ?case
  proof (cases r)
    case (Inr x)
    show ?thesis unfolding Inr sum.case perform_def
      by (rule assures_then [OF stays_open_preorder(1)], rule assures_call) (auto simp: stays_open_def)
  qed simp
qed

lemma SetCredentials_ungates:
  assumes "cs_cooldown (ca_credentials ad) = Some Clear"
  shows "assures (stays_open p) (\<lambda>ok t. ok \<longrightarrow> entries t p = None) (outcome (SetCredentials_prog ad p vs)) s"
  unfolding outcome_def
proof (rule assures_then [OF stays_open_preorder(1)])
  have "assures (stays_open p) (\<lambda>r t. r = Inr () \<longrightarrow> entries t p = None) (SetCredentials_prog ad p vs) s"
    unfolding SetCredentials_prog_def
  proof (rule assures_after, goal_cases got)
    case (got r t)
    then show ?case
      using SetValues_ungates [OF assms] by (auto split: sum.split option.split)
  qed
  then show "assures (stays_open p) (\<lambda>r. assures (stays_open p) (\<lambda>ok t. ok \<longrightarrow> entries t p = None)
      (Return (case r of Inl e \<Rightarrow> False | Inr a \<Rightarrow> True))) (SetCredentials_prog ad p vs) s"
    by (rule assures_weaken) (auto simp: stays_open_def split: sum.split)
qed

text \<open>
  C22: A credential set that succeeds un-gates its provider, and it stays un-gated whatever requests
  run between the calls of the set and after it: no request engages a cooldown. (Only an attempt of
  the scheduler that is under way may, also with the old credential, as the run above shows.)
\<close>
theorem interleaved_ungates:
  assumes "boot bd env drv s0 = (Inr (Inr a), t0)" and "\<forall>vs. mset (bd_order bd vs) = mset vs"
    and "Tick \<notin> ops" and "wf_db s"
    and "(pool_step (program bd a ` ops))\<^sup>*\<^sup>* ([program bd a (SetCreds p vs)], s) (ps, t)"
    and "last ps = Return True"
  shows "entries t p = None"
proof -
  obtain cfg psvc where a: "a = wire bd cfg (sqliteStore drv) psvc" and repo: "svc_repo psvc = sqlite_providers"
    and cat: "svc_registry psvc = Registry" by (rule booted_wiring [OF assms(1)])
  note does = program_does [OF repo assms(2) a, unfolded cat]
  let ?key = "cfg_masterKey cfg" and ?Q = "\<lambda>ok t. ok \<longrightarrow> entries t p = None"
  have others: "\<forall>q \<in> program bd a ` ops. does_only Registry ?key (actions ops) (\<lambda>_. True) q"
    by (auto simp: actions_def intro: does_mono [OF does])
  have rely: "stays_open p u v" if "moves Registry ?key (actions ops) u v" for u v
  proof -
    from that obtain l where l: "l = Quiet \<or> l \<in> actions ops" "micro Registry ?key l (view_of u) (view_of v)"
      by (auto simp: moves_def)
    have "l \<noteq> Gates p" using l(1) assms(3) by (auto simp: actions_def may_iff)
    with micro_frame(4) [OF l(2), of p] have "v_gate (view_of v) p = v_gate (view_of u) p \<or> l = Ungates p"
      by blast
    then have "v_gate (view_of v) p = v_gate (view_of u) p \<or> v_gate (view_of v) p = None"
      using l(2) by (auto dest: micro_ungates)
    then show ?thesis by (auto simp: stays_open_def view_of_def)
  qed
  let ?ad = "\<lparr>ca_providers = psvc, ca_credentials = app_credentials a, ca_order = bd_order bd\<rparr>"
  have "assures (stays_open p) ?Q (outcome (SetCredentials_prog ?ad p vs)) s"
    by (rule SetCredentials_ungates) (simp add: a)
  then have "assures (stays_open p) ?Q (program bd a (SetCreds p vs)) s"
    by (simp add: program_def Let_def a)
  from pool_assures [OF assms(5) stays_open_preorder others does assms(4) rely this]
  obtain qs q where "ps = qs @ [q]" "assures (stays_open p) ?Q q t" by blast
  with assms(6) have "\<forall>u. stays_open p t u \<longrightarrow> entries u p = None" by simp
  then show ?thesis using stays_open_preorder(1) [of p] by (auto dest: reflpD)
qed

text \<open>A provider that is gated, and the credential set that un-gates it.\<close>

definition gated_host :: host where
  "gated_host = (ready_host no_net)\<lparr>entries := [''minimax'' \<mapsto> \<lparr>failures = 3, until = \<lparr>instant = 9, zone = 0\<rparr>\<rparr>]\<rparr>"

lemma gated_host_simps: "wf_db gated_host" "reliable_db gated_host" "fst (active ''minimax'' gated_host)"
  by (simp_all add: gated_host_def ready_host_def empty_host_def calm_runtime_def wf_db_def unique_keys_def
      reliable_db_def active_def time_Now_def time_Before_def)

lemma gated_Get:
  "svc_repo psvc = sqlite_providers \<Longrightarrow> svc_registry psvc = Registry \<Longrightarrow>
     service_Get psvc ''minimax'' gated_host =
       (Inr (with_state demo_metadata True (HasFetcher psvc ''minimax'')), gated_host)"
  by (simp add: service_Get_def service_metadata_def Registry_demo sqlite_providers_def sqlite_Get_def
      db_call_def Let_def gated_host_def ready_host_def empty_host_def calm_runtime_def row_of_def)

theorem interleaved_ungates_witness:
  "\<exists>(a :: unit app) ps t. fst (active ''minimax'' gated_host) \<and>
     (pool_step (program demo_build a ` {Refresh ''minimax''}))\<^sup>*\<^sup>*
       ([program demo_build a (SetCreds ''minimax'' [(''subscription_key'', ''k2'')])], gated_host) (ps, t) \<and>
     entries t ''minimax'' = None"
proof -
  obtain a s0 psvc where boot: "boot demo_build demo_env demo_driver empty_host = (Inr (Inr a), s0)"
    and a: "a = wire demo_build demo_config (sqliteStore demo_driver) psvc"
    and repo: "svc_repo psvc = sqlite_providers" and cat: "svc_registry psvc = Registry" by (rule demo_app)
  let ?vs = "[(''subscription_key'', ''k2'')]"
  let ?put = "program demo_build a (SetCreds ''minimax'' ?vs)"
  from one_field_set [OF _ _ _ gated_Get [OF repo cat] _ _ gated_host_simps(1,2),
      of "app_credentials a" "''subscription_key''" "\<lambda>j. 0" "bd_order demo_build" "''k2''"]
  obtain t where "adapter_SetCredentials \<lparr>ca_providers = psvc, ca_credentials = app_credentials a,
      ca_order = bd_order demo_build\<rparr> ''minimax'' ?vs gated_host = (Inr (), t)"
    by (auto simp: a demo_config_def demo_build_def demo_metadata_def with_state_def gated_host_def
        ready_host_def empty_host_def calm_runtime_def)
  then have "exec ?put gated_host = (True, t)"
    by (simp add: program_def outcome_def Let_def exec_operations a)
  then have "(pool_step (program demo_build a ` {Refresh ''minimax''}))\<^sup>*\<^sup>* ([?put], gated_host) ([Return True], t)"
    using pool_runs [of 0 "[?put]"] by simp
  from interleaved_ungates [OF boot demo_order _ gated_host_simps(1) this] this gated_host_simps(3)
  show ?thesis by (intro exI [of _ a] exI [of _ "[Return True]"] exI [of _ t]) simp
qed

end
