(* ===== verification/Secrecy.thy ===== *)
theory Secrecy
  imports Handler_Laws
begin

text \<open>
  No read path of the HTTP API depends on a stored credential value. \<open>hide f\<close> replaces every
  stored blob by another one; an operation is oblivious if running it before or after this
  replacement makes no difference to its answer, to the log, or to anything else of the state.
\<close>

section \<open>Oblivious operations\<close>

definition hide :: "(cred_row \<Rightarrow> bytes) \<Rightarrow> 'z host_scheme \<Rightarrow> 'z host_scheme" where
  "hide f s = s\<lparr>db_credentials := map (\<lambda>r. r\<lparr>cr_ciphertext := f r\<rparr>) (db_credentials s)\<rparr>"

definition oblivious :: "(cred_row \<Rightarrow> bytes) \<Rightarrow> ('z host_scheme \<Rightarrow> 'a \<times> 'z host_scheme) \<Rightarrow> bool" where
  "oblivious f op \<longleftrightarrow> (\<forall>s. op (hide f s) = apsnd (hide f) (op s))"

lemma hide_simps [simp]:
  "rt_clock (hide f s) = rt_clock s" "rt_rand (hide f s) = rt_rand s" "rt_log (hide f s) = rt_log s"
  "db_faults (hide f s) = db_faults s" "db_providers (hide f s) = db_providers s"
  "db_snapshots (hide f s) = db_snapshots s"
  "db_credentials (hide f s) = map (\<lambda>r. r\<lparr>cr_ciphertext := f r\<rparr>) (db_credentials s)"
  by (simp_all add: hide_def)

lemma hide_slog [simp]: "slog l m as (hide f s) = hide f (slog l m as s)"
  by (simp add: hide_def slog_def)

lemma oblivious_runtime [simp]:
  "time_Now (hide f s) = apsnd (hide f) (time_Now s)"
  "rand_Read n (hide f s) = apsnd (hide f) (rand_Read n s)"
  "db_call (hide f s) = apsnd (hide f) (db_call s)"
  by (simp_all add: time_Now_def rand_Read_def db_call_def hide_def)

lemma hidden_rows:
  "filter (\<lambda>r. cr_provider_id r = p) (map (\<lambda>r. r\<lparr>cr_ciphertext := f r\<rparr>) rs) =
     map (\<lambda>r. r\<lparr>cr_ciphertext := f r\<rparr>) (filter (\<lambda>r. cr_provider_id r = p) rs)"
  "filter (\<lambda>r. cr_provider_id r \<noteq> p) (map (\<lambda>r. r\<lparr>cr_ciphertext := f r\<rparr>) rs) =
     map (\<lambda>r. r\<lparr>cr_ciphertext := f r\<rparr>) (filter (\<lambda>r. cr_provider_id r \<noteq> p) rs)"
  by (simp_all add: filter_map o_def)

lemma oblivious_sqlite:
  "oblivious f sqlite_List" "oblivious f (sqlite_Get p)" "oblivious f (sqlite_Presence p)"
  "oblivious f (sqlite_GetSnapshot p)" "oblivious f (sqlite_Delete p)"
proof -
  show "oblivious f (sqlite_Delete p)"
    by (simp add: oblivious_def sqlite_Delete_def Let_def hidden_rows split_beta split: option.split)
      (simp add: hide_def)
qed (simp_all add: oblivious_def sqlite_List_def sqlite_Get_def sqlite_Presence_def
      sqlite_GetSnapshot_def Let_def hidden_rows o_def split_beta
      cong: option.case_cong driver_fault.case_cong if_cong)

lemma oblivious_services:
  assumes "svc_repo psvc = sqlite_providers" and "cs_repo csvc = sqlite_credentials"
  shows "oblivious f (service_List psvc)" "oblivious f (service_Get psvc p)"
    "oblivious f (Presence csvc p)" "oblivious f (Delete csvc p)"
proof -
  note obl = oblivious_sqlite [of f, unfolded oblivious_def, rule_format]
  show "oblivious f (service_List psvc)" "oblivious f (service_Get psvc p)"
    "oblivious f (Presence csvc p)" "oblivious f (Delete csvc p)"
    using assms
    by (auto simp: oblivious_def service_List_def service_Get_def Presence_def Delete_def obl
        sqlite_providers_def sqlite_credentials_def Let_def split: prod.split sum.split option.split)
qed

section \<open>Oblivious handlers\<close>

definition write_only :: "string set" where
  "write_only = {''PUT'', ''POST''}"

definition veiled :: "(cred_row \<Rightarrow> bytes) \<Rightarrow> ('z host_scheme) http_handler \<Rightarrow> bool" where
  "veiled f h \<longleftrightarrow>
     (\<forall>r w s. wq_method r \<notin> write_only \<longrightarrow> h r w (hide f s) = apsnd (apsnd (hide f)) (h r w s))"

lemma oblivious_writeJSON [simp]: "writeJSON st v w (hide f s) = apsnd (hide f) (writeJSON st v w s)"
  by (auto simp: writeJSON_def Let_def split: option.split prod.split)

lemma oblivious_errors [simp]:
  "writeError st c m w (hide f s) = apsnd (hide f) (writeError st c m w s)"
  "methodNotAllowed a w (hide f s) = apsnd (hide f) (methodNotAllowed a w s)"
  "writeCredentialError e w (hide f s) = apsnd (hide f) (writeCredentialError e w s)"
  by (auto simp: write_error_defs methodNotAllowed_def writeCredentialError_def split: option.split)

lemma oblivious_newRequestID [simp]: "newRequestID (hide f s) = apsnd (hide f) (newRequestID s)"
  by (auto simp: newRequestID_def split: prod.split sum.split)

lemma finish_hide [simp]: "apsnd (apsnd (hide f)) (finish r) = finish (apsnd (hide f) r)"
  by (cases r) simp

lemma pair_apsnd [simp]: "(fst p, g (snd p)) = apsnd g p"
  by (simp add: apsnd_def map_prod_def split_beta)

lemma veiled_handlers:
  assumes "svc_repo psvc = sqlite_providers" and "cs_repo csvc = sqlite_credentials"
  shows "veiled f (handleProvidersCollection (NewProviderRepository psvc))"
    "veiled f (handleProviderItem (NewProviderRepository psvc))"
    "veiled f (handleProviderCredentials (NewCredentialRepository order psvc csvc))"
    "veiled f (handleProviderUsage (NewUsageGetter psvc sqlite_snapshots))"
proof -
  note obl = oblivious_services [OF assms, of f, unfolded oblivious_def, rule_format]
    oblivious_sqlite(4) [of f, unfolded oblivious_def, rule_format]
  show "veiled f (handleProvidersCollection (NewProviderRepository psvc))"
    by (auto simp: veiled_def handleProvidersCollection_def NewProviderRepository_def obl
        split: prod.split sum.split)
  show "veiled f (handleProviderItem (NewProviderRepository psvc))"
    by (auto simp: veiled_def handleProviderItem_def respondProvider_def NewProviderRepository_def
        provider_answer_def obl split: prod.split sum.split)
  show "veiled f (handleProviderCredentials (NewCredentialRepository order psvc csvc))"
    by (auto simp: veiled_def write_only_def handleProviderCredentials_def handleGetCredentials_def
        handleDeleteCredentials_def NewCredentialRepository_def adapter_GetCredentialPresence_def
        adapter_DeleteCredentials_def Let_def obl split: prod.split sum.split)
  show "veiled f (handleProviderUsage (NewUsageGetter psvc sqlite_snapshots))"
    by (auto simp: veiled_def handleProviderUsage_def NewUsageGetter_def adapter_GetUsage_def
        sqlite_snapshots_def obl split: prod.split sum.split)
qed

lemma veiled_refusals:
  "veiled f (handleProviderEnable repo)" "veiled f (handleProviderDisable repo)"
  "veiled f (handleProviderRefresh refresher)" "veiled f handleNotFound"
  by (auto simp: veiled_def write_only_def handleProviderEnable_def handleProviderDisable_def
      handleProviderRefresh_def handleNotFound_def)

lemma veiled_ServeMux:
  assumes "\<forall>rt \<in> set routes. veiled f (rt_handler rt)"
  shows "veiled f (ServeMux routes)"
  using assms findHandler_in [of routes]
  by (auto simp: veiled_def ServeMux_def split: routed.split)

lemma veiled_middleware:
  assumes "veiled f h"
  shows "veiled f (withRequestID h)" "veiled f (withLogging h)" "veiled f (withRecovery h)"
  using assms
  by (auto simp: veiled_def withRequestID_def withLogging_def withRecovery_def contextWithRequestID_def
      split: prod.split option.split)

text \<open>
  C12: Secrecy of the read paths: for every request but a PUT or a POST, through the whole API
  handler over the database, replacing every stored credential blob by any other bytes changes
  neither the response nor the log nor anything else of the state. So no such request can tell,
  by anything it is shown, what a stored value is; at most whether there is one.
\<close>
theorem reads_hide_secrets:
  assumes "svc_repo psvc = sqlite_providers" and "cs_repo csvc = sqlite_credentials"
    and "wq_method r \<notin> {''PUT'', ''POST''}"
  shows "NewHandler (NewProviderRepository psvc) (NewCredentialRepository order psvc csvc)
      (NewUsageGetter psvc sqlite_snapshots) refresher r w (hide f s) =
    apsnd (apsnd (hide f))
      (NewHandler (NewProviderRepository psvc) (NewCredentialRepository order psvc csvc)
        (NewUsageGetter psvc sqlite_snapshots) refresher r w s)"
proof -
  have "veiled f (ServeMux (api_routes (NewProviderRepository psvc)
      (NewCredentialRepository order psvc csvc) (NewUsageGetter psvc sqlite_snapshots) refresher))"
    by (rule veiled_ServeMux)
      (simp add: api_routes_def any_method_def veiled_handlers [OF assms(1,2)] veiled_refusals)
  then have "veiled f (NewHandler (NewProviderRepository psvc)
      (NewCredentialRepository order psvc csvc) (NewUsageGetter psvc sqlite_snapshots) refresher)"
    by (simp add: NewHandler_def chain_three veiled_middleware)
  then show ?thesis using assms(3) by (simp add: veiled_def write_only_def)
qed

theorem reads_hide_secrets_witness:
  "\<exists>r w. wq_path r = ''/api/v1/providers/minimax/credentials'' \<and>
     NewHandler (NewProviderRepository (col_providers (demo_collector steady)))
       (NewCredentialRepository id (col_providers (demo_collector steady))
          (col_credentials (demo_collector steady)))
       (NewUsageGetter (col_providers (demo_collector steady)) sqlite_snapshots)
       (NewUsageRefresher (demo_collector steady)) r w (hide (\<lambda>_. []) (ready_host no_net)) =
     apsnd (apsnd (hide (\<lambda>_. [])))
       (NewHandler (NewProviderRepository (col_providers (demo_collector steady)))
         (NewCredentialRepository id (col_providers (demo_collector steady))
            (col_credentials (demo_collector steady)))
         (NewUsageGetter (col_providers (demo_collector steady)) sqlite_snapshots)
         (NewUsageRefresher (demo_collector steady)) r w (ready_host no_net))"
proof -
  let ?r = "\<lparr>wq_method = ''GET'', wq_path = ''/api/v1/providers/minimax/credentials'',
    wq_content_type = [], wq_body = [], wq_path_values = [], wq_request_id = None\<rparr>"
  have "wq_method ?r \<notin> {''PUT'', ''POST''}" by simp
  moreover have "svc_repo (col_providers (demo_collector steady)) = sqlite_providers"
    "cs_repo (col_credentials (demo_collector steady)) = sqlite_credentials"
    using demo_collector_simps(1) [of steady] by (simp_all add: sqlite_wired_def)
  ultimately show ?thesis
    using reads_hide_secrets [of "col_providers (demo_collector steady)"
        "col_credentials (demo_collector steady)" ?r id "NewUsageRefresher (demo_collector steady)"
        new_writer "\<lambda>_. []" "ready_host no_net"]
    by (intro exI [of _ ?r] exI [of _ new_writer]) simp
qed

end
