(* ===== verification/Plugintest.thy ===== *)
theory Plugintest
  imports Provider Credential "HOL-Library.AList" "HOL-Library.Multiset"
begin

text \<open>
  \<^verbatim>\<open>internal/plugins/plugintest/harness.go\<close>: the in-memory repository, which is the
  second implementation of the repository contracts, and the stack that plugin tests build on it. The two maps of a \<^verbatim>\<open>memRepo\<close> are fields of the state; a Go map that the
  code ranges over is an association list that \<open>ranged\<close> puts in an order of its own.
\<close>

section \<open>The in-memory repository\<close>

record mem = runtime +
  mem_providers :: "(string \<times> provider_row) list"
  mem_creds :: "string \<Rightarrow> (string \<Rightarrow> bytes option) option"

text \<open>The order in which Go ranges over the entries of a map: any one.\<close>

definition ranged :: "('a list \<Rightarrow> 'a list) \<Rightarrow> 'a list \<Rightarrow> 'a list" where
  "ranged ord xs = (if mset (ord xs) = mset xs then ord xs else xs)"

definition newMemRepo :: "'z mem_scheme \<Rightarrow> 'z mem_scheme" where
  "newMemRepo s = s\<lparr>mem_providers := [], mem_creds := (\<lambda>_. None)\<rparr>"

definition mem_List ::
    "((string \<times> provider_row) list \<Rightarrow> (string \<times> provider_row) list) \<Rightarrow> 'z mem_scheme
       \<Rightarrow> provider_row list result \<times> 'z mem_scheme" where
  "mem_List ord s = (Inr (map snd (ranged ord (mem_providers s))), s)"

definition mem_Get :: "string \<Rightarrow> 'z mem_scheme \<Rightarrow> provider_row result \<times> 'z mem_scheme" where
  "mem_Get i s =
     (case map_of (mem_providers s) i of
        None \<Rightarrow> (Inl (Sentinel ErrNotFound), s) | Some p \<Rightarrow> (Inr p, s))"

definition mem_Create :: "string \<Rightarrow> bool \<Rightarrow> 'z mem_scheme \<Rightarrow> provider_row result \<times> 'z mem_scheme" where
  "mem_Create i enabled s =
     (case time_Now s of (t, s1) \<Rightarrow>
        let now = time_UTC t;
            p = \<lparr>row_id = i, row_enabled = enabled, row_created_at = now, row_updated_at = now\<rparr>
        in (Inr p, s1\<lparr>mem_providers := AList.update i p (mem_providers s1)\<rparr>))"

definition mem_SetEnabled :: "string \<Rightarrow> bool \<Rightarrow> 'z mem_scheme \<Rightarrow> unit result \<times> 'z mem_scheme" where
  "mem_SetEnabled i enabled s =
     (case map_of (mem_providers s) i of
        None \<Rightarrow> (Inl (Sentinel ErrNotFound), s)
      | Some p \<Rightarrow>
          (Inr (), s\<lparr>mem_providers := AList.update i (p\<lparr>row_enabled := enabled\<rparr>) (mem_providers s)\<rparr>))"

definition mem_Upsert :: "string \<Rightarrow> string \<Rightarrow> bytes \<Rightarrow> 'z mem_scheme \<Rightarrow> unit result \<times> 'z mem_scheme" where
  "mem_Upsert i field ciphertext s =
     (let m = (case mem_creds s i of None \<Rightarrow> (\<lambda>_. None) | Some m \<Rightarrow> m)
      in (Inr (), s\<lparr>mem_creds := (mem_creds s)(i \<mapsto> m(field \<mapsto> ciphertext))\<rparr>))"

definition mem_Presence :: "string \<Rightarrow> 'z mem_scheme \<Rightarrow> (string \<Rightarrow> bool) result \<times> 'z mem_scheme" where
  "mem_Presence i s =
     (Inr (\<lambda>f. case mem_creds s i of None \<Rightarrow> False | Some m \<Rightarrow> m f \<noteq> None), s)"

definition mem_GetSecret :: "string \<Rightarrow> string \<Rightarrow> 'z mem_scheme \<Rightarrow> bytes result \<times> 'z mem_scheme" where
  "mem_GetSecret i field s =
     (case (case mem_creds s i of None \<Rightarrow> None | Some m \<Rightarrow> m field) of
        None \<Rightarrow> (Inl (Sentinel ErrNotFound), s) | Some blob \<Rightarrow> (Inr blob, s))"

definition mem_Delete :: "string \<Rightarrow> 'z mem_scheme \<Rightarrow> unit result \<times> 'z mem_scheme" where
  "mem_Delete i s = (Inr (), s\<lparr>mem_creds := (mem_creds s)(i := None)\<rparr>)"

definition mem_provider_repo ::
    "((string \<times> provider_row) list \<Rightarrow> (string \<times> provider_row) list)
       \<Rightarrow> ('z mem_scheme) provider_repository" where
  "mem_provider_repo ord =
     \<lparr>prov_List = mem_List ord, prov_Get = mem_Get, prov_Create = mem_Create,
      prov_SetEnabled = mem_SetEnabled\<rparr>"

definition mem_credential_repo :: "('z mem_scheme) credential_repository" where
  "mem_credential_repo =
     \<lparr>cred_Upsert = mem_Upsert, cred_Presence = mem_Presence, cred_GetSecret = mem_GetSecret,
      cred_Delete = mem_Delete\<rparr>"

section \<open>It keeps the contracts\<close>

definition mem_wf :: "'z mem_scheme \<Rightarrow> bool" where
  "mem_wf s \<longleftrightarrow> distinct (map fst (mem_providers s)) \<and> (\<forall>(i, p) \<in> set (mem_providers s). row_id p = i)"

definition mem_enabled :: "'z mem_scheme \<Rightarrow> string \<Rightarrow> bool option" where
  "mem_enabled s i = map_option row_enabled (map_of (mem_providers s) i)"

definition mem_secret :: "'z mem_scheme \<Rightarrow> string \<Rightarrow> string \<Rightarrow> bytes option" where
  "mem_secret s i f = (case mem_creds s i of None \<Rightarrow> None | Some m \<Rightarrow> m f)"

lemma ranged_perm: "mset (ranged ord xs) = mset xs"
  by (simp add: ranged_def)

lemma row_of_entries:
  "\<forall>(i, p) \<in> set es. row_id p = i \<Longrightarrow> row_of row_id (map snd es) = map_of es"
proof (induction es)
  case (Cons e es)
  then show ?case by (cases e) (auto simp: row_of_def fun_eq_iff)
qed (simp add: row_of_def fun_eq_iff)

lemma map_of_permuted:
  assumes "mset es' = mset es" and "distinct (map fst es)"
  shows "map_of es' = map_of es" and "distinct (map fst es')"
proof -
  have "mset (map fst es') = mset (map fst es)" using assms(1) by (simp add: mset_map)
  then show d: "distinct (map fst es')" using assms(2) mset_eq_imp_distinct_iff by blast
  have "set es' = set es" using assms(1) by (rule mset_eq_setD)
  with d assms(2) show "map_of es' = map_of es" by (simp add: map_of_inject_set)
qed

lemma mem_wf_update:
  assumes "mem_wf s" and "row_id p = i"
  shows "mem_wf (s\<lparr>mem_providers := AList.update i p (mem_providers s)\<rparr>)"
proof -
  have "set (AList.update i p es) \<subseteq> insert (i, p) (set es)" for es
    by (induction es) auto
  with assms show ?thesis
    by (fastforce simp: mem_wf_def intro: distinct_update)
qed

text \<open>What the provider operations leave alone: the credentials and the random source.\<close>

definition mem_rest where
  "mem_rest s = (mem_creds s, rt_rand s)"

lemma mem_List_law:
  assumes "mem_wf s" and "mem_List ord s = (r, s')"
  shows "mem_wf s' \<and> mem_enabled s' = mem_enabled s \<and> mem_rest s' = mem_rest s \<and>
    (case r of Inl e \<Rightarrow> opaque e
     | Inr rows \<Rightarrow> unique_keys row_id rows \<and>
         mem_enabled s = (\<lambda>p. map_option row_enabled (row_of row_id rows p)))"
proof -
  let ?es = "ranged ord (mem_providers s)"
  have perm: "mset ?es = mset (mem_providers s)" by (rule ranged_perm)
  note es = map_of_permuted [OF perm]
  have ids: "\<forall>(i, p) \<in> set ?es. row_id p = i"
    using assms(1) mset_eq_setD [OF perm] by (simp add: mem_wf_def)
  have "map row_id (map snd ?es) = map fst ?es" using ids by (induction ?es) auto
  then have "unique_keys row_id (map snd ?es)"
    using es(2) assms(1) by (simp only: unique_keys_def mem_wf_def)
  with assms es(1) row_of_entries [OF ids] show ?thesis
    by (auto simp: mem_List_def mem_enabled_def mem_wf_def fun_eq_iff)
qed

lemma mem_Get_law:
  "mem_wf s \<Longrightarrow> mem_Get p s = (r, s') \<Longrightarrow>
     mem_wf s' \<and> mem_enabled s' = mem_enabled s \<and> mem_rest s' = mem_rest s \<and>
     (case r of Inl e \<Rightarrow> e = Sentinel ErrNotFound \<and> mem_enabled s p = None \<or> opaque e
      | Inr row \<Rightarrow> row_id row = p \<and> mem_enabled s p = Some (row_enabled row))"
  by (auto simp: mem_Get_def mem_enabled_def mem_wf_def dest: map_of_SomeD split: option.splits)

lemma mem_Create_law:
  "mem_wf s \<Longrightarrow> mem_enabled s p = None \<Longrightarrow> mem_Create p b s = (r, s') \<Longrightarrow>
     mem_wf s' \<and> mem_rest s' = mem_rest s \<and>
     (case r of Inl e \<Rightarrow> opaque e \<and> mem_enabled s' = mem_enabled s
      | Inr row \<Rightarrow> mem_enabled s' = (mem_enabled s)(p \<mapsto> b))"
  using mem_wf_update [of "snd (time_Now s)" "\<lparr>row_id = p, row_enabled = b,
      row_created_at = time_UTC (rt_clock s 0), row_updated_at = time_UTC (rt_clock s 0)\<rparr>" p]
  by (auto simp: mem_Create_def time_Now_def Let_def mem_enabled_def mem_rest_def fun_eq_iff update_conv' mem_wf_def)

lemma mem_SetEnabled_law:
  assumes "mem_wf s" and "mem_SetEnabled p b s = (r, s')"
  shows "mem_wf s' \<and> mem_rest s' = mem_rest s \<and>
     (case r of
        Inl e \<Rightarrow> e = Sentinel ErrNotFound \<and> mem_enabled s p = None \<and> mem_enabled s' = mem_enabled s
          \<or> opaque e \<and> (mem_enabled s' = mem_enabled s
              \<or> mem_enabled s p \<noteq> None \<and> mem_enabled s' = (mem_enabled s)(p \<mapsto> b))
      | Inr _ \<Rightarrow> mem_enabled s p \<noteq> None \<and> mem_enabled s' = (mem_enabled s)(p \<mapsto> b))"
proof (cases "map_of (mem_providers s) p")
  case None
  with assms show ?thesis by (auto simp: mem_SetEnabled_def mem_enabled_def)
next
  case (Some row)
  then have "row_id row = p" using assms(1) by (auto simp: mem_wf_def dest: map_of_SomeD)
  with mem_wf_update [OF assms(1), of "row\<lparr>row_enabled := b\<rparr>" p] Some assms(2) show ?thesis
    by (auto simp: mem_SetEnabled_def mem_enabled_def mem_rest_def fun_eq_iff update_conv')
qed

lemma mem_slog [simp]:
  "mem_wf (slog l m as s) = mem_wf s" "mem_enabled (slog l m as s) = mem_enabled s"
  "mem_creds (slog l m as s) = mem_creds s" "mem_rest (slog l m as s) = mem_rest s" "mem_providers (slog l m as s) = mem_providers s"
  by (simp_all add: slog_def mem_wf_def mem_enabled_def mem_rest_def fun_eq_iff)

lemma mem_works:
  "\<exists>rows s'. mem_List ord s = (Inr rows, s') \<and> True"
  "mem_enabled s p \<noteq> None \<Longrightarrow> \<exists>row s'. mem_Get p s = (Inr row, s') \<and> True"
  "mem_enabled s p = None \<Longrightarrow> \<exists>s'. mem_Get p s = (Inl (Sentinel ErrNotFound), s') \<and> True"
  "\<exists>row s'. mem_Create p b s = (Inr row, s') \<and> True"
  "mem_enabled s p \<noteq> None \<Longrightarrow> \<exists>s'. mem_SetEnabled p b s = (Inr (), s') \<and> True"
  by (auto simp: mem_List_def mem_Get_def mem_Create_def mem_SetEnabled_def time_Now_def Let_def
      mem_enabled_def)

interpretation mem_prov: reliable_logged_provider_repo
  "mem_provider_repo ord" mem_wf mem_enabled mem_rest "\<lambda>_. True" for ord
proof (unfold_locales, unfold mem_provider_repo_def provider_repository.select_convs)
qed (rule mem_List_law mem_Get_law mem_Create_law mem_SetEnabled_law mem_works mem_slog refl,
      (assumption+)?)+

interpretation mem_runtime: runtime_credential_repo
  mem_credential_repo mem_wf mem_secret mem_providers
  by unfold_locales
    (auto simp: mem_credential_repo_def mem_Upsert_def mem_Presence_def mem_GetSecret_def mem_Delete_def
      mem_secret_def mem_wf_def Let_def fun_eq_iff split: option.splits)

interpretation mem_cred: working_credential_repo
  mem_credential_repo mem_wf mem_secret mem_providers "\<lambda>_. True"
proof (unfold_locales, unfold mem_credential_repo_def credential_repository.select_convs)
  fix p f and s :: "'z mem_scheme"
  show "mem_secret s p f \<noteq> None \<Longrightarrow> \<exists>c s'. mem_GetSecret p f s = (Inr c, s') \<and> True"
    "mem_secret s p f = None \<Longrightarrow> \<exists>s'. mem_GetSecret p f s = (Inl (Sentinel ErrNotFound), s') \<and> True"
    unfolding mem_GetSecret_def mem_secret_def by (auto split: option.split)
qed (auto simp: mem_Upsert_def mem_Presence_def mem_Delete_def Let_def)

section \<open>The stack\<close>

record 'z stack =
  stk_Providers :: "('z mem_scheme) provider_service"
  stk_Credentials :: "('z mem_scheme) credential_service"

definition NewStack ::
    "((string \<times> provider_row) list \<Rightarrow> (string \<times> provider_row) list) \<Rightarrow> metadata \<Rightarrow> 'z mem_scheme
       \<Rightarrow> 'z stack or_panic \<times> 'z mem_scheme" where
  "NewStack ord meta s =
     (let svc = NewService (mem_provider_repo ord) [meta]
      in case Reconcile svc (newMemRepo s) of
           (Inl e, s1) \<Rightarrow> (Inl (''plugintest: reconcile: '' @ error_text e), s1)
         | (Inr _, s1) \<Rightarrow>
             (case service_SetEnabled svc (md_id meta) True s1 of
                (Inl e, s2) \<Rightarrow> (Inl (''plugintest: enable: '' @ error_text e), s2)
              | (Inr _, s2) \<Rightarrow>
                  (Inr \<lparr>stk_Providers = svc,
                        stk_Credentials = NewCredentialService mem_credential_repo (replicate 32 0) None\<rparr>,
                   s2)))"

fun reveal_all ::
    "'s credential_service \<Rightarrow> string \<Rightarrow> string list \<Rightarrow> creds \<Rightarrow> 's \<Rightarrow> creds result \<times> 's" where
  "reveal_all svc p [] creds s = (Inr creds, s)"
| "reveal_all svc p (field # rest) creds s =
     (case Reveal svc p field s of
        (Inl e, s1) \<Rightarrow> (Inl e, s1)
      | (Inr v, s1) \<Rightarrow> reveal_all svc p rest (creds(field \<mapsto> v)) s1)"

text \<open>\<open>order1\<close> and \<open>order2\<close> are the orders of the two loops over the submitted map.\<close>

definition Stack_Reveal ::
    "((string \<times> string) list \<Rightarrow> (string \<times> string) list) \<Rightarrow> ((string \<times> string) list \<Rightarrow> (string \<times> string) list)
       \<Rightarrow> 'z stack \<Rightarrow> string \<Rightarrow> (string \<times> string) list \<Rightarrow> 'z mem_scheme
       \<Rightarrow> creds result \<times> 'z mem_scheme" where
  "Stack_Reveal order1 order2 st p values s =
     (case SetValues (stk_Credentials st) p (ranged order1 values) s of
        (Inl e, s1) \<Rightarrow> (Inl e, s1)
      | (Inr _, s1) \<Rightarrow>
          reveal_all (stk_Credentials st) p (map fst (ranged order2 values)) (\<lambda>_. None) s1)"

lemma mem_wf_new [simp]:
  "mem_wf (newMemRepo s)" "mem_enabled (newMemRepo s) = (\<lambda>_. None)" "rt_rand (newMemRepo s) = rt_rand s"
  by (simp_all add: newMemRepo_def mem_wf_def mem_enabled_def fun_eq_iff)

lemma NewStack_works:
  "\<exists>st t. NewStack ord meta s = (Inr st, t) \<and> mem_wf t \<and> rt_rand t = rt_rand s \<and>
     mem_enabled t = [md_id meta \<mapsto> True] \<and>
     svc_repo (stk_Providers st) = mem_provider_repo ord \<and> svc_registry (stk_Providers st) = [meta] \<and>
     svc_fetchers (stk_Providers st) = newRuntimeRegistry \<and>
     cs_repo (stk_Credentials st) = mem_credential_repo \<and> cs_cooldown (stk_Credentials st) = None \<and>
     cs_masterKey (stk_Credentials st) = replicate 32 0"
proof -
  let ?svc = "NewService (mem_provider_repo ord) [meta] :: ('a mem_scheme) provider_service"
  let ?s = "newMemRepo s"
  have svc: "svc_repo ?svc = mem_provider_repo ord" "svc_registry ?svc = [meta]"
    "service_metadata ?svc (md_id meta) = Some meta"
    by (simp_all add: NewService_def service_metadata_def)
  obtain s1 where rec: "Reconcile ?svc ?s = (Inr (), s1)"
    using mem_prov.Reconcile_succeeds [OF mem_wf_new(1) _ svc(1)] svc(2) by auto
  from mem_prov.Reconcile_client [OF mem_wf_new(1) svc(1) _ rec] svc(2)
  have s1: "mem_wf s1" "mem_enabled s1 = [md_id meta \<mapsto> False]" "rt_rand s1 = rt_rand s"
    by (auto simp: ensure_rows_def mem_rest_def fun_eq_iff)
  obtain r s2 where set: "service_SetEnabled ?svc (md_id meta) True s1 = (r, s2)" by fastforce
  obtain u where "mem_SetEnabled (md_id meta) True s1 = (Inr u, snd (mem_SetEnabled (md_id meta) True s1))"
    using mem_works(5) [of s1 "md_id meta" True] s1(2) by auto
  then have ok: "r = Inr (with_state meta True (HasFetcher ?svc (md_id meta)))"
    using set svc(1,3) by (auto simp: service_SetEnabled_def mem_provider_repo_def split: prod.splits sum.splits)
  from mem_prov.service_SetEnabled_client [OF s1(1) svc(1) set] ok s1(2)
  have "mem_wf s2" "mem_enabled s2 = [md_id meta \<mapsto> True]" "rt_rand s2 = rt_rand s"
    using s1(3) by (auto simp: mem_rest_def)
  with rec set ok show ?thesis
    by (auto simp: NewStack_def Let_def NewService_def NewCredentialService_def)
qed

lemma mem_Reveal:
  assumes "cs_repo svc = mem_credential_repo"
    and "opens_to (cs_masterKey svc) p f (mem_secret s p f) = Some v"
  shows "Reveal svc p f s = (Inr v, s)"
  using assms
  by (auto simp: Reveal_def mem_credential_repo_def mem_GetSecret_def mem_secret_def opens_to_def
      split: option.splits sum.splits)

lemma reveal_all_eq:
  assumes "cs_repo svc = mem_credential_repo"
    and "\<forall>f \<in> set fs. opens_to (cs_masterKey svc) p f (mem_secret s p f) = vals f \<and> vals f \<noteq> None"
  shows "reveal_all svc p fs cr s = (Inr (\<lambda>f. if f \<in> set fs then vals f else cr f), s)"
  using assms(2)
proof (induction fs arbitrary: cr)
  case (Cons f fs)
  then obtain v where v: "vals f = Some v" "opens_to (cs_masterKey svc) p f (mem_secret s p f) = Some v"
    by auto
  from Cons mem_Reveal [OF assms(1) v(2)] v(1) show ?case by (auto simp: fun_eq_iff)
qed simp

text \<open>
  C36: The stack of the plugin tests is the production wiring: building it never panics, the one
  provider is enabled and not yet live, and resolving submitted credentials through it, sealed,
  stored and opened again field by field in whatever orders the maps are iterated, returns
  exactly the submitted map when the random source answers. Only a random source that fails can
  make it an error.
\<close>
theorem Stack_Reveal_roundtrip:
  assumes "distinct (map fst values)"
  shows "\<exists>st t. NewStack ord meta s = (Inr st, t) \<and>
    fst (service_Get (stk_Providers st) (md_id meta) t) = Inr (with_state meta True False) \<and>
    (if entropy s then fst (Stack_Reveal order1 order2 st (md_id meta) values t) = Inr (map_of values)
     else case fst (Stack_Reveal order1 order2 st (md_id meta) values t) of
       Inl e \<Rightarrow> opaque e | Inr creds \<Rightarrow> creds = map_of values)"
proof -
  obtain st t where st: "NewStack ord meta s = (Inr st, t)" "mem_wf t" "rt_rand t = rt_rand s"
    "mem_enabled t = [md_id meta \<mapsto> True]" "svc_repo (stk_Providers st) = mem_provider_repo ord"
    "svc_registry (stk_Providers st) = [meta]" "svc_fetchers (stk_Providers st) = newRuntimeRegistry"
    "cs_repo (stk_Credentials st) = mem_credential_repo" "cs_cooldown (stk_Credentials st) = None"
    "cs_masterKey (stk_Credentials st) = replicate 32 0"
    using NewStack_works [of ord meta s] by (elim exE conjE)
  let ?i = "md_id meta"
  have get: "fst (service_Get (stk_Providers st) ?i t) = Inr (with_state meta True False)"
  proof -
    have "mem_enabled t ?i = Some True" using st(4) by simp
    then obtain row where "map_of (mem_providers t) ?i = Some row" "row_enabled row"
      by (auto simp: mem_enabled_def)
    with st(5-7) show ?thesis
      by (simp add: service_Get_def service_metadata_def mem_provider_repo_def mem_Get_def HasFetcher_def
          has_def newRuntimeRegistry_def)
  qed
  let ?vs = "ranged order1 values"
  obtain u t1 where set: "set_values (stk_Credentials st) ?i ?vs t = (u, t1)" by fastforce
  have works: "u = Inr ()" if "entropy s"
    using mem_cred.set_values_works [OF st(8) _ st(2) TrueI, of ?i ?vs] that set st(3,10)
    by (simp add: KeySize_def entropy_def)
  have vs: "set (ranged ord' values) = set values" "distinct (map fst (ranged ord' values))" for ord'
    by (rule mset_eq_setD [OF ranged_perm], rule map_of_permuted(2) [OF ranged_perm assms])
  note law = mem_runtime.set_values_client [OF st(2,8) vs(2) set]
  show ?thesis
  proof (cases u)
    case (Inl e)
    with law st(10) have "opaque e" by (simp add: KeySize_def)
    with Inl set works have "fst (Stack_Reveal order1 order2 st ?i values t) = Inl e \<and> opaque e \<and> \<not> entropy s"
      by (auto simp: Stack_Reveal_def SetValues_def)
    with st(1) get show ?thesis by (intro exI [of _ st] exI [of _ t]) simp
  next
    case (Inr x)
    have "opens_to (cs_masterKey (stk_Credentials st)) ?i f (mem_secret t1 ?i f) = map_of values f \<and>
        map_of values f \<noteq> None" if "f \<in> set (map fst (ranged order2 values))" for f
    proof -
      from that vs(1) obtain v where "(f, v) \<in> set values" by auto
      with law Inr vs(1) assms show ?thesis by fastforce
    qed
    from reveal_all_eq [OF st(8), of "map fst (ranged order2 values)" ?i t1 "map_of values"] this
    have "reveal_all (stk_Credentials st) ?i (map fst (ranged order2 values)) (\<lambda>_. None) t1 =
        (Inr (\<lambda>f. if f \<in> set (map fst (ranged order2 values)) then map_of values f else None), t1)" by blast
    moreover have "(\<lambda>f. if f \<in> set (map fst (ranged order2 values)) then map_of values f else None) =
        map_of values"
      using vs(1) [of order2] map_of_eq_None_iff [of "values"] by (auto simp: fun_eq_iff) metis
    ultimately have "fst (Stack_Reveal order1 order2 st ?i values t) = Inr (map_of values)"
      using Inr set st(9) by (simp add: Stack_Reveal_def SetValues_def)
    with st(1) get show ?thesis by (intro exI [of _ st] exI [of _ t]) simp
  qed
qed

definition demo_meta :: metadata where
  "demo_meta = \<lparr>md_id = ''demo'', md_name = ''Demo'', md_fields = []\<rparr>"

definition empty_mem :: mem where
  "empty_mem = runtime.extend calm_runtime \<lparr>mem_providers = [], mem_creds = (\<lambda>_. None)\<rparr>"

theorem Stack_Reveal_roundtrip_witness:
  "\<exists>st t. NewStack rev demo_meta empty_mem = (Inr st, t) \<and>
     fst (Stack_Reveal rev id st ''demo'' [(''key'', ''v''), (''org'', ''w'')] t) =
       Inr [''org'' \<mapsto> ''w'', ''key'' \<mapsto> ''v'']"
proof -
  have d: "distinct (map fst [(''key'', ''v''), (''org'', ''w'')])" and i: "md_id demo_meta = ''demo''"
    by (simp_all add: demo_meta_def)
  have "entropy empty_mem" by (simp add: entropy_def empty_mem_def calm_runtime_def runtime.extend_def)
  then obtain st t where "NewStack rev demo_meta empty_mem = (Inr st, t)"
    "fst (Stack_Reveal rev id st ''demo'' [(''key'', ''v''), (''org'', ''w'')] t) =
      Inr [''org'' \<mapsto> ''w'', ''key'' \<mapsto> ''v'']"
    using Stack_Reveal_roundtrip [OF d, of rev demo_meta empty_mem rev id] by (elim exE) (simp add: i)
  then show ?thesis by blast
qed

end
