(* ===== verification/Providertest.thy ===== *)
theory Providertest
  imports Provider
begin

text \<open>
  \<^verbatim>\<open>internal/providertest/fetcher.go\<close>: the scripted fetcher of the tests. It copies
  slices and maps at its boundary, so everything that Go shares is a reference into an explicit
  store here: slices, maps, and also the numbers and times that the optional fields of a
  \<^verbatim>\<open>UsageMetric\<close> point to, and the field list of a \<^verbatim>\<open>Metadata\<close>. Two parties that
  hold the same reference see each other's writes. The mutex is not modelled; each method is one
  step.
\<close>

section \<open>What Go shares\<close>

type_synonym ref = nat

text \<open>\<^verbatim>\<open>UsageMetric\<close> and \<^verbatim>\<open>Metadata\<close> as they lie in memory; a nil pointer is \<open>None\<close>.\<close>

record metric_cell =
  uc_name :: string
  uc_window :: string
  uc_unit :: string
  uc_used :: int64
  uc_limit :: "ref option"
  uc_remaining :: "ref option"
  uc_reset_at :: "ref option"

record meta_cell =
  mc_id :: string
  mc_name :: string
  mc_fields :: ref

record arena =
  slice_at :: "ref \<Rightarrow> metric_cell list"
  map_at :: "ref \<Rightarrow> creds"
  int_at :: "ref \<Rightarrow> int64"
  time_at :: "ref \<Rightarrow> gotime"
  fields_at :: "ref \<Rightarrow> credential_field list"
  next_ref :: ref

definition new_slice :: "metric_cell list \<Rightarrow> arena \<Rightarrow> ref \<times> arena" where
  "new_slice xs h =
     (next_ref h, h\<lparr>slice_at := (slice_at h)(next_ref h := xs), next_ref := next_ref h + 1\<rparr>)"

definition new_map :: "creds \<Rightarrow> arena \<Rightarrow> ref \<times> arena" where
  "new_map m h = (next_ref h, h\<lparr>map_at := (map_at h)(next_ref h := m), next_ref := next_ref h + 1\<rparr>)"

text \<open>What a reader sees who follows the pointers.\<close>

definition metric_of :: "arena \<Rightarrow> metric_cell \<Rightarrow> usage_metric" where
  "metric_of h c =
     \<lparr>um_name = uc_name c, um_window = uc_window c, um_unit = uc_unit c, um_used = uc_used c,
      um_limit = map_option (int_at h) (uc_limit c), um_remaining = map_option (int_at h) (uc_remaining c),
      um_reset_at = map_option (time_at h) (uc_reset_at c)\<rparr>"

definition metadata_of :: "arena \<Rightarrow> meta_cell \<Rightarrow> metadata" where
  "metadata_of h m = \<lparr>md_id = mc_id m, md_name = mc_name m, md_fields = fields_at h (mc_fields m)\<rparr>"

section \<open>The fetcher\<close>

text \<open>A nil map is \<open>None\<close>.\<close>

record scripted =
  sf_meta :: meta_cell
  sf_metrics :: ref
  sf_err :: "goerr option"
  sf_calls :: int
  sf_creds :: "ref option"

text \<open>The copy is of the structs, so the pointers in them are copied, not what they point to.\<close>

definition cloneMetrics :: "ref \<Rightarrow> arena \<Rightarrow> ref \<times> arena" where
  "cloneMetrics metrics h = new_slice (slice_at h metrics) h"

definition cloneCreds :: "ref option \<Rightarrow> arena \<Rightarrow> ref option \<times> arena" where
  "cloneCreds c h =
     (case c of
        None \<Rightarrow> (None, h)
      | Some m \<Rightarrow> (case new_map (map_at h m) h of (r, h1) \<Rightarrow> (Some r, h1)))"

definition NewFetcher :: "meta_cell \<Rightarrow> ref \<Rightarrow> arena \<Rightarrow> scripted \<times> arena" where
  "NewFetcher meta metrics h =
     (case cloneMetrics metrics h of (r, h1) \<Rightarrow>
        (\<lparr>sf_meta = meta, sf_metrics = r, sf_err = None, sf_calls = 0, sf_creds = None\<rparr>, h1))"

definition scripted_Metadata :: "scripted \<Rightarrow> meta_cell" where
  "scripted_Metadata f = sf_meta f"

definition scripted_FetchUsage ::
    "ref option \<Rightarrow> scripted \<Rightarrow> arena \<Rightarrow> ref result \<times> scripted \<times> arena" where
  "scripted_FetchUsage c f h =
     (let f1 = f\<lparr>sf_calls := sf_calls f + 1\<rparr>
      in case cloneCreds c h of (m, h1) \<Rightarrow>
           let f2 = f1\<lparr>sf_creds := m\<rparr>
           in case sf_err f2 of
                Some e \<Rightarrow> (Inl e, f2, h1)
              | None \<Rightarrow> (case cloneMetrics (sf_metrics f2) h1 of (r, h2) \<Rightarrow> (Inr r, f2, h2)))"

definition SetError :: "goerr option \<Rightarrow> scripted \<Rightarrow> scripted" where
  "SetError e f = f\<lparr>sf_err := e\<rparr>"

definition SetMetrics :: "ref \<Rightarrow> scripted \<Rightarrow> arena \<Rightarrow> scripted \<times> arena" where
  "SetMetrics metrics f h = (case cloneMetrics metrics h of (r, h1) \<Rightarrow> (f\<lparr>sf_metrics := r\<rparr>, h1))"

definition CallCount :: "scripted \<Rightarrow> int" where
  "CallCount f = sf_calls f"

definition LastCreds :: "scripted \<Rightarrow> arena \<Rightarrow> ref option \<times> arena" where
  "LastCreds f h = cloneCreds (sf_creds f) h"

lemmas scripted_defs =
  cloneMetrics_def cloneCreds_def NewFetcher_def scripted_FetchUsage_def SetError_def SetMetrics_def
  CallCount_def LastCreds_def new_slice_def new_map_def Let_def

section \<open>A test that does what it likes\<close>

text \<open>
  What the fetcher is meant to be: a script of structs. A session pairs the two and lets the test
  (which knows the slices and maps \<open>known\<close>) call the methods in any order and overwrite whatever it
  can reach in between: the slice it passed in, the results it was given, and anything that is
  behind a pointer or a field list.
\<close>

record script =
  sc_meta :: meta_cell
  sc_metrics :: "metric_cell list"
  sc_err :: "goerr option"
  sc_calls :: int
  sc_creds :: "creds option"

inductive session :: "scripted \<Rightarrow> arena \<Rightarrow> ref set \<Rightarrow> script \<Rightarrow> bool" where
  created: "known \<subseteq> {..<next_ref h} \<Longrightarrow> a \<in> known \<Longrightarrow> NewFetcher meta a h = (f, h1) \<Longrightarrow>
    session f h1 known
      \<lparr>sc_meta = meta, sc_metrics = slice_at h a, sc_err = None, sc_calls = 0, sc_creds = None\<rparr>"
| fetched: "session f h known sc \<Longrightarrow> set_option c \<subseteq> known \<Longrightarrow>
    scripted_FetchUsage c f h = (r, f1, h1) \<Longrightarrow>
    session f1 h1 (known \<union> {b. r = Inr b})
      (sc\<lparr>sc_calls := sc_calls sc + 1, sc_creds := map_option (map_at h) c\<rparr>)"
| errored: "session f h known sc \<Longrightarrow> session (SetError e f) h known (sc\<lparr>sc_err := e\<rparr>)"
| rescripted: "session f h known sc \<Longrightarrow> a \<in> known \<Longrightarrow> SetMetrics a f h = (f1, h1) \<Longrightarrow>
    session f1 h1 known (sc\<lparr>sc_metrics := slice_at h a\<rparr>)"
| inspected: "session f h known sc \<Longrightarrow> LastCreds f h = (c, h1) \<Longrightarrow>
    session f h1 (known \<union> set_option c) sc"
| slice_written: "session f h known sc \<Longrightarrow> a \<in> known \<Longrightarrow>
    session f (h\<lparr>slice_at := (slice_at h)(a := xs)\<rparr>) known sc"
| map_written: "session f h known sc \<Longrightarrow> a \<in> known \<Longrightarrow>
    session f (h\<lparr>map_at := (map_at h)(a := m)\<rparr>) known sc"
| slice_made: "session f h known sc \<Longrightarrow> new_slice xs h = (a, h1) \<Longrightarrow>
    session f h1 (insert a known) sc"
| map_made: "session f h known sc \<Longrightarrow> new_map m h = (a, h1) \<Longrightarrow>
    session f h1 (insert a known) sc"
| pointed_written: "session f h known sc \<Longrightarrow>
    session f (h\<lparr>int_at := ns, time_at := ts, fields_at := fls\<rparr>) known sc"

text \<open>The fetcher's own slice and map are never known outside, and hold what the script says.\<close>

definition isolated :: "scripted \<Rightarrow> arena \<Rightarrow> ref set \<Rightarrow> script \<Rightarrow> bool" where
  "isolated f h known sc \<longleftrightarrow>
     known \<subseteq> {..<next_ref h} \<and> sf_metrics f < next_ref h \<and> sf_metrics f \<notin> known \<and>
     (\<forall>m \<in> set_option (sf_creds f). m < next_ref h \<and> m \<notin> known) \<and>
     sf_meta f = sc_meta sc \<and> slice_at h (sf_metrics f) = sc_metrics sc \<and> sf_err f = sc_err sc \<and>
     sf_calls f = sc_calls sc \<and> map_option (map_at h) (sf_creds f) = sc_creds sc"

lemma session_isolated: "session f h known sc \<Longrightarrow> isolated f h known sc"
proof (induction rule: session.induct)
  case (fetched f h known sc c r f1 h1)
  then show ?case
    by (auto simp: isolated_def scripted_defs subset_iff split: option.splits)
next
  case (inspected f h known sc c h1)
  then show ?case
    by (auto simp: isolated_def scripted_defs subset_iff split: option.splits)
next
  case (map_written f h known sc a m)
  then show ?case by (cases "sf_creds f") (auto simp: isolated_def)
next
  case (map_made f h known sc m a h1)
  then show ?case by (cases "sf_creds f") (auto simp: isolated_def scripted_defs subset_iff)
qed (auto simp: isolated_def scripted_defs subset_iff)

text \<open>
  C37: What the test double is isolated from, and what not. After any sequence of calls and
  whatever the test overwrote in between, a fetch answers the scripted error or a fresh slice with
  exactly the scripted structs, the call count is the number of fetches, and the recorded
  credentials are the contents of the map at the time of the last fetch, in a fresh map: no write
  to a slice or map that the test passed in or was given reaches the script. The pointers in the
  structs are those the test passed in: a reader of the answer sees what they point to at the time
  of the fetch, and the field list of the metadata is the test's own.
\<close>
theorem scripted_isolation:
  assumes "session f h known sc"
  shows "CallCount f = sc_calls sc \<and>
    (case LastCreds f h of (m, h1) \<Rightarrow>
       map_option (map_at h1) m = sc_creds sc \<and> set_option m \<inter> known = {}) \<and>
    (case scripted_FetchUsage c f h of (r, f1, h1) \<Rightarrow>
       (case sc_err sc of
          Some e \<Rightarrow> r = Inl e
        | None \<Rightarrow> \<exists>a. r = Inr a \<and> a \<notin> known \<and> slice_at h1 a = sc_metrics sc \<and>
            map (metric_of h1) (slice_at h1 a) = map (metric_of h) (sc_metrics sc))) \<and>
    scripted_Metadata f = sc_meta sc \<and>
    md_fields (metadata_of h (scripted_Metadata f)) = fields_at h (mc_fields (sc_meta sc))"
proof -
  note inv = session_isolated [OF assms, unfolded isolated_def]
  then have fresh: "next_ref h + n \<notin> known" for n by auto
  have old: "sf_metrics f \<noteq> next_ref h" "sf_creds f \<noteq> Some (next_ref h)" using inv by auto
  have fetch: "case scripted_FetchUsage c f h of (r, f1, h1) \<Rightarrow>
       (case sc_err sc of
          Some e \<Rightarrow> r = Inl e
        | None \<Rightarrow> \<exists>a. r = Inr a \<and> a \<notin> known \<and> slice_at h1 a = sc_metrics sc \<and>
            map (metric_of h1) (slice_at h1 a) = map (metric_of h) (sc_metrics sc))"
    using inv fresh [of 0] fresh [of 1]
    by (cases c; cases "sc_err sc") (simp_all add: scripted_defs metric_of_def)
  have creds: "case LastCreds f h of (m, h1) \<Rightarrow>
       map_option (map_at h1) m = sc_creds sc \<and> set_option m \<inter> known = {}"
    using inv fresh [of 0] by (cases "sf_creds f") (auto simp: scripted_defs)
  from inv fetch creds show ?thesis
    by (simp add: CallCount_def scripted_Metadata_def metadata_of_def)
qed

text \<open>
  So the script is not safe from a test that keeps a pointer: a write through the
  \<^verbatim>\<open>Limit\<close> of a scripted metric changes what the next fetch shows.
\<close>
theorem scripted_shares_pointers:
  assumes "session f h known sc" and "sc_err sc = None"
    and "j < length (sc_metrics sc)" and "uc_limit (sc_metrics sc ! j) = Some p"
  shows "case scripted_FetchUsage c f (h\<lparr>int_at := (int_at h)(p := v)\<rparr>) of (r, f1, h1) \<Rightarrow>
    \<exists>a. r = Inr a \<and> um_limit (metric_of h1 (slice_at h1 a ! j)) = Some v"
proof -
  note inv = session_isolated [OF assms(1), unfolded isolated_def]
  with assms(2-4) show ?thesis
    by (cases c) (simp_all add: scripted_defs metric_of_def)
qed

text \<open>A fetcher over one metric, whose slice the test overwrites.\<close>

definition demo_cell :: metric_cell where
  "demo_cell = \<lparr>uc_name = ''n'', uc_window = ''w'', uc_unit = ''u'', uc_used = 1,
     uc_limit = Some 7, uc_remaining = None, uc_reset_at = None\<rparr>"

definition demo_arena :: arena where
  "demo_arena = \<lparr>slice_at = (\<lambda>_. [demo_cell]), map_at = (\<lambda>_ _. None), int_at = (\<lambda>_. 5),
     time_at = (\<lambda>_. \<lparr>instant = 0, zone = 0\<rparr>), fields_at = (\<lambda>_. []), next_ref = 1\<rparr>"

lemma demo_session:
  obtains f h where "session f (h\<lparr>slice_at := (slice_at h)(0 := [])\<rparr>) {0}
      \<lparr>sc_meta = m, sc_metrics = [demo_cell], sc_err = None, sc_calls = 0, sc_creds = None\<rparr>"
    and "int_at h = (\<lambda>_. 5)"
proof -
  obtain f h where new: "NewFetcher m 0 demo_arena = (f, h)" by fastforce
  have s: "session f h {0} \<lparr>sc_meta = m, sc_metrics = [demo_cell], sc_err = None, sc_calls = 0, sc_creds = None\<rparr>"
    using session.created [OF _ _ new, of "{0}"] by (simp add: demo_arena_def)
  have i: "int_at h = (\<lambda>_. 5)"
    using new by (auto simp: NewFetcher_def cloneMetrics_def new_slice_def demo_arena_def)
  show ?thesis by (rule that [OF session.slice_written [OF s, of 0 "[]"] i]) simp
qed

theorem scripted_isolation_witness:
  "\<exists>f h known sc a f1 h1. session f h known sc \<and> slice_at h 0 = [] \<and> 0 \<in> known \<and> CallCount f = 0 \<and>
     scripted_FetchUsage None f h = (Inr a, f1, h1) \<and> slice_at h1 a = [demo_cell] \<and>
     map (um_limit \<circ> metric_of h1) (slice_at h1 a) = [Some 5]"
proof -
  let ?m = "\<lparr>mc_id = ''p'', mc_name = ''P'', mc_fields = 3\<rparr>"
  obtain f h where s: "session f (h\<lparr>slice_at := (slice_at h)(0 := [])\<rparr>) {0}
      \<lparr>sc_meta = ?m, sc_metrics = [demo_cell], sc_err = None, sc_calls = 0, sc_creds = None\<rparr>"
    and i: "int_at h = (\<lambda>_. 5)" by (rule demo_session)
  let ?h = "h\<lparr>slice_at := (slice_at h)(0 := [])\<rparr>"
  obtain r f1 h1 where run: "scripted_FetchUsage None f ?h = (r, f1, h1)" by (metis prod_cases3)
  from scripted_isolation [OF s, of None] run obtain a where
    "CallCount f = 0" "r = Inr a" "slice_at h1 a = [demo_cell]"
    "map (metric_of h1) (slice_at h1 a) = map (metric_of ?h) [demo_cell]" by auto
  with s run i show ?thesis
    by (intro exI [of _ f] exI [of _ ?h] exI [of _ "{0}"] exI [of _ a] exI [of _ f1] exI [of _ h1] exI)
      (auto simp: metric_of_def demo_cell_def)
qed

theorem scripted_shares_pointers_witness:
  "\<exists>f h a f1 h1. scripted_FetchUsage None f h = (Inr a, f1, h1) \<and>
     um_limit (metric_of h1 (slice_at h1 a ! 0)) = Some 6"
proof -
  obtain f h where s: "session f (h\<lparr>slice_at := (slice_at h)(0 := [])\<rparr>) {0}
      \<lparr>sc_meta = \<lparr>mc_id = ''p'', mc_name = ''P'', mc_fields = 3\<rparr>, sc_metrics = [demo_cell],
       sc_err = None, sc_calls = 0, sc_creds = None\<rparr>" by (rule demo_session)
  from scripted_shares_pointers [OF s, where c = None and v = 6 and j = 0 and p = 7] show ?thesis
    by (simp add: demo_cell_def split: prod.splits) blast
qed

end
