(* ===== verification/Spec_Lint.thy ===== *)
theory Spec_Lint
  imports Go_Errors
begin

text \<open>
  \<^verbatim>\<open>internal/specvalidate/specvalidate.go\<close> and \<^verbatim>\<open>cmd/spec-lint/main.go\<close>: the
  check of the OpenAPI document. The loader of kin-openapi, which reads, resolves and validates
  the document, is not part of the repository: it is the record \<open>openapi_loader\<close>, an argument.
\<close>

section \<open>Validating a document\<close>

record 'd openapi_loader =
  ld_LoadFromFile :: "string \<Rightarrow> 'd result"
  doc_Validate :: "'d \<Rightarrow> goerr option"

definition specvalidate_Validate :: "'d openapi_loader \<Rightarrow> string \<Rightarrow> goerr option" where
  "specvalidate_Validate loader path =
     (case ld_LoadFromFile loader path of
        Inl e \<Rightarrow> Some (Wrap ''load spec'' e)
      | Inr doc \<Rightarrow>
          (case doc_Validate loader doc of
             Some e \<Rightarrow> Some (Wrap ''validate spec'' e)
           | None \<Rightarrow> None))"

section \<open>The command\<close>

record streams =
  out_text :: string
  err_text :: string

definition Fprintf_stdout :: "string \<Rightarrow> streams \<Rightarrow> streams" where
  "Fprintf_stdout t s = s\<lparr>out_text := out_text s @ t\<rparr>"

definition Fprintf_stderr :: "string \<Rightarrow> streams \<Rightarrow> streams" where
  "Fprintf_stderr t s = s\<lparr>err_text := err_text s @ t\<rparr>"

definition defaultSpecPath :: string where
  "defaultSpecPath = ''api/openapi.yaml''"

definition lint_run :: "'d openapi_loader \<Rightarrow> string list \<Rightarrow> streams \<Rightarrow> goerr option \<times> streams" where
  "lint_run loader args s =
     (let path = (if length args > 1 then args ! 1 else defaultSpecPath)
      in case specvalidate_Validate loader path of
           Some e \<Rightarrow>
             (Some e, Fprintf_stderr (''spec-lint: '' @ path @ '': '' @ error_text e @ [CHR 0x0A]) s)
         | None \<Rightarrow> (None, Fprintf_stdout (''spec-lint: '' @ path @ '': OK'' @ [CHR 0x0A]) s))"

definition lint_main :: "'d openapi_loader \<Rightarrow> string list \<Rightarrow> streams \<Rightarrow> nat \<times> streams" where
  "lint_main loader args s =
     (case lint_run loader args s of (r, s1) \<Rightarrow> (if r = None then 0 else 1, s1))"

text \<open>
  The command succeeds exactly when the document loads and validates; it writes one line, naming
  the document, to standard output in that case and to standard error otherwise, and the error it
  returns is the one of the step that failed.
\<close>

lemma specvalidate_Validate_iff:
  "specvalidate_Validate loader path = None \<longleftrightarrow>
     (\<exists>doc. ld_LoadFromFile loader path = Inr doc \<and> doc_Validate loader doc = None)"
  by (auto simp: specvalidate_Validate_def split: sum.split option.split)

lemma specvalidate_Validate_error:
  "specvalidate_Validate loader path = Some e \<Longrightarrow>
     (\<exists>e'. ld_LoadFromFile loader path = Inl e' \<and> errors_is e = errors_is e') \<or>
     (\<exists>doc e'. ld_LoadFromFile loader path = Inr doc \<and> doc_Validate loader doc = Some e' \<and>
        errors_is e = errors_is e')"
  by (auto simp: specvalidate_Validate_def fun_eq_iff split: sum.splits option.splits)

lemma lint_main_outcome:
  assumes "lint_main loader (cmd # args) s = (code, t)"
  shows "let path = (case args of [] \<Rightarrow> ''api/openapi.yaml'' | p # _ \<Rightarrow> p);
             ok = (\<exists>doc. ld_LoadFromFile loader path = Inr doc \<and> doc_Validate loader doc = None)
         in code = (if ok then 0 else 1) \<and>
            out_text t = out_text s @ (if ok then ''spec-lint: '' @ path @ '': OK'' @ [CHR 0x0A] else []) \<and>
            (err_text t = err_text s \<longleftrightarrow> ok)"
proof -
  define path where "path = (case args of [] \<Rightarrow> ''api/openapi.yaml'' | p # _ \<Rightarrow> p)"
  have "(if length (cmd # args) > 1 then (cmd # args) ! 1 else defaultSpecPath) = path"
    by (simp add: path_def defaultSpecPath_def split: list.split)
  with assms specvalidate_Validate_iff [of loader path] show ?thesis
    unfolding path_def [symmetric] Let_def
    by (auto simp: lint_main_def lint_run_def Fprintf_stdout_def Fprintf_stderr_def split: option.splits)
qed

end
