(* ===== verification/Spec2Isabelle.thy ===== *)
theory Spec2Isabelle
  imports Lifecycle Race Secrecy Plugintest Providertest Spec_Lint
begin

text \<open>
  Verification library of the AI usage dashboard (\<^verbatim>\<open>cmd/aud\<close> and
  \<^verbatim>\<open>internal/\<close>): a Go service that keeps a catalog of AI providers with an enabled
  flag, encrypted credentials and the latest usage snapshot of each in SQLite, serves them over
  HTTP under \<^verbatim>\<open>/api/v1\<close>, and polls the enabled providers in the background.

  \<^bold>\<open>Parts and theories\<close>, in the order they build on each other (paths below
  \<^verbatim>\<open>src/internal/\<close> unless given in full):

  \<^item> \<open>Prelude\<close>: bytes, Go strings, decimals, infinite supplies, tables with a key.
  \<^item> \<open>Go_Errors\<close>: the sentinel errors of all packages, wrapping, \<^verbatim>\<open>errors.Is\<close>/\<^verbatim>\<open>As\<close>.
  \<^item> \<open>Go_Runtime\<close>: clock, random source, HTTP transport, context and log as supplies of answers.
  \<^item> \<open>Aes_Gcm\<close>: AES-256-GCM from FIPS 197 and SP 800-38D; the locale \<open>aead_cipher\<close> is what
    \<^verbatim>\<open>cipher.AEAD\<close> promises. \<open>Secret\<close>: \<^verbatim>\<open>secret/secret.go\<close>.
  \<^item> \<open>Store\<close>: \<^verbatim>\<open>store/store.go\<close>; row types, and the contract of each repository interface as
    a locale. \<open>Sqlite\<close>, \<open>Snapshots\<close>: \<^verbatim>\<open>store/sqlite/*.go\<close>; every statement with its
    driver failures, and the interpretations of those locales. \<open>Sqlite_Open\<close>:
    \<^verbatim>\<open>New\<close>, \<^verbatim>\<open>migrate\<close> and \<^verbatim>\<open>Close\<close> over a record of driver calls. \<open>Rfc3339\<close>, \<open>Json\<close>: the parts of
    \<^verbatim>\<open>time\<close> and \<^verbatim>\<open>encoding/json\<close> that the rows, the responses and the fetcher go through.
  \<^item> \<open>Provider\<close>: \<^verbatim>\<open>provider/provider.go\<close> and \<^verbatim>\<open>fetcher.go\<close>. \<open>Credential\<close>:
    \<^verbatim>\<open>credential/credential.go\<close>. \<open>Cooldown\<close>, \<open>Collector\<close>, \<open>Scheduler\<close>:
    \<^verbatim>\<open>scheduler/*.go\<close>. \<open>Working\<close>: what the services answer, exactly, over a database
    that answers every call. \<open>Minimax\<close>: \<^verbatim>\<open>plugins/minimax/minimax.go\<close>.
  \<^item> \<open>Http\<close>, \<open>Mime\<close>: the parts of \<^verbatim>\<open>net/http\<close> (response writer, \<^verbatim>\<open>ServeMux\<close>) and
    \<^verbatim>\<open>mime\<close> in use. \<open>Api\<close>, \<open>Handlers\<close>: \<^verbatim>\<open>api/*.go\<close>; wire types, adapters, handlers,
    middleware. A call through an interface of the API answers or panics (\<open>seam_call\<close>), and a
    panic unwinds the handler (\<open>calling\<close>) up to the recovery middleware. \<open>Handler_Laws\<close>: what
    holds whatever stands behind those interfaces (one answer, its status, its log line, the
    recovery, the route table). \<open>Endpoints\<close>, \<open>Secrecy\<close>: what the API promises over the database.
    \<open>Server\<close>: \<^verbatim>\<open>server/server.go\<close>, \<^verbatim>\<open>docs/docs.go\<close>.
  \<^item> \<open>Durations\<close>: \<^verbatim>\<open>time.ParseDuration\<close>, with its overflow checks and the binary64 arithmetic
    behind a decimal point. \<open>Aud\<close>, \<open>Config_Laws\<close>: \<^verbatim>\<open>src/cmd/aud/main.go\<close>; configuration, boot,
    wiring, exit code.
  \<^item> \<open>Runtime_Step\<close> (a locale that lifts a relation on states from the repository seams through
    handlers, middleware and router), \<open>Dashboard\<close> (the abstract machine of the service and its
    invariant), \<open>System\<close> (the code implements the machine; reachable states) and \<open>Lifecycle\<close> (a
    whole run of the process, from \<^verbatim>\<open>bootstrap\<close> to the exit code).
  \<^item> \<open>Resumption\<close> (programs of atomic calls, pools of them, what a program assures among others),
    \<open>Concurrent\<close> (the operations that make several calls, as such programs) and \<open>Interleaving\<close>
    (requests and ticks interleaved call by call).
  \<^item> \<open>Journey\<close>: from the credential a user submits to the numbers the API shows, through encryption,
    table, collector and fetcher. \<open>Race\<close>: a credential set un-gates its provider among any
    requests, and the interleaving with an attempt under way in which it does not.
  \<^item> \<open>Plugintest\<close>: \<^verbatim>\<open>plugins/plugintest/harness.go\<close>; the in-memory repository, the second
    interpretation of the repository contracts, and the stack on it. \<open>Providertest\<close>:
    \<^verbatim>\<open>providertest/fetcher.go\<close>; the scripted fetcher over a store of slices and maps and of what the
    metrics point to.
    \<open>Spec_Lint\<close>: \<^verbatim>\<open>specvalidate/specvalidate.go\<close> and
    \<^verbatim>\<open>src/cmd/spec-lint/main.go\<close>, over the loader of kin-openapi.

  \<^bold>\<open>State.\<close> The record \<open>runtime\<close> holds the supplies and the log; \<open>process\<close> adds the
  in-memory cooldown entries and \<open>host\<close> the three tables and the supply of driver faults. An
  operation takes and returns the state it can reach: a \<^verbatim>\<open>Fetcher\<close> only the plain runtime
  (the contract at the head of \<^verbatim>\<open>provider/fetcher.go\<close> lets nothing but the context, the
  credentials and the metrics cross it; a fetcher that kept a handle on the database is outside the
  model), a repository the host. Interface values are records of functions, errors are values of
  \<open>goerr\<close> on the left of a sum, and a panic is the left of \<open>or_panic\<close> (in handlers: the first
  component of the answer). 64-bit integers and durations are 64-bit words.

  \<^bold>\<open>What is shown\<close>, from the inside out: the cipher layer is a round trip and opens only
  what it sealed; each repository keeps its contract under every driver failure; the services
  built on any repository with the contract read what was written, never lose a row or a flag,
  and leave other providers alone; the collector and the scheduler isolate providers and back
  off after authentication failures only, by a bounded time; the Minimax fetcher classifies
  every answer of its endpoint; the handlers answer every request once, with a documented
  status, whatever the services behind them answer or panic with, hide stored credentials, and the
  endpoints fit together: on a working system (reliable database, random bytes to draw, a key of the
  right length) the request and the tables alone decide the answer to a credential update, a refresh
  and a usage request; boot never panics; the poll
  interval is read exactly (with the one wrap of the standard library's counter), and one that is
  not positive ends the run in a panic; and every
  request, attempt, tick and restart implements one effect of the machine of \<open>Dashboard\<close>, whose
  invariant therefore holds in every reachable state; a run of the process ends with the handle
  closed (that panic apart) and the right exit code; the invariant also holds when requests and ticks are interleaved
  call by call and cut off by crashes, nothing but the operations on a provider changes it, and a
  successful credential set keeps its promise among them (except against an attempt under way, of
  which \<open>Race\<close> gives the run); the in-memory repository keeps the contracts of what it replaces, and
  the scripted fetcher keeps its structs, though not what they point to, from the tests.

  \<^bold>\<open>Assumptions of the model.\<close> A statement that fails has no effect (except that
  \<^verbatim>\<open>RowsAffected\<close> may fail after the update), and a time column returns the time
  stored. In \<open>System\<close> operations are atomic and concurrency is the
  interleaving of whole requests, attempts and ticks; \<open>Interleaving\<close> refines this to single
  calls: one SQL statement (the pool has one connection), one operation of the cooldown registry
  (its mutex), one reading of clock or random source, one fetch. Cancellation and timeouts act through
  the answers of the supplies. A count of failures is a natural number
  (the code's \<^verbatim>\<open>int\<close> would wrap after 2 to the 63 failures). Texts of library errors are fixed strings, and quoting in error
  and panic texts is plain quotes. \<^verbatim>\<open>ServeMux\<close> redirects carry no
  \<^verbatim>\<open>Location\<close>, and bodies of answers to \<^verbatim>\<open>HEAD\<close> are not suppressed. The order in which
  Go ranges over a submitted map is an arbitrary permutation (an argument).
  The embedded files, and the driver that opens, migrates and closes the database, are arguments of
  the boot; \<open>keeps_stored\<close> states that the driver keeps what is stored (migrations only create
  tables) and \<open>owns_handle\<close> that only opening and closing touch the handle.

  \<^bold>\<open>Loops.\<close> All loops of the code run over lists and are structural recursions; the scheduler's
  endless loop is a recursion over the events it receives, so that waiting is the end of the
  list. The parsers of \<open>Json\<close>, \<open>Mime\<close>, \<open>Http\<close> and \<open>Durations\<close> have termination proofs. No fuel is used.

  \<^bold>\<open>Not modelled.\<close> The SQL text of the migrations (goose runs it; the tables it sets up are
  the state of \<open>Sqlite\<close>); signals and the effect of the server's time limits in
  \<^verbatim>\<open>cmd/aud\<close> (what happens between boot and shutdown is an argument of \<open>run\<close>, which
  \<open>Lifecycle\<close> instantiates with any interleaving of whole operations); mutexes and goroutines
  beyond the atomicity of calls; and the OpenAPI document (an embedded file).
\<close>

end
